(* ===== verification/Prelude.thy ===== *)
theory Prelude
  imports Main "HOL-Library.Word"
begin

section \<open>Prelude: results, machine integers, byte strings\<close>

text \<open>
  Shared vocabulary of the development.  A Rust function that returns
  \<^verbatim>\<open>Result<T, Error>\<close> and may also panic (slice index out of range, failed assertion,
  \<^verbatim>\<open>expect\<close>) returns a value of type \<open>'a result\<close>; the operator \<^verbatim>\<open>?\<close> is
  \<open>rbind\<close>.  \<open>error\<close> has the variants of \<^verbatim>\<open>sqlx_core::Error\<close> that the modelled
  code raises; of a formatted message it keeps the fixed text.  Byte buffers are lists of
  8-bit words, \<^verbatim>\<open>usize\<close> is a 64-bit platform's: lengths and offsets are \<open>nat\<close>, and
  counters that the code changes with wrapping or checked arithmetic are words.  The theory
  also holds \<^verbatim>\<open>to_le_bytes\<close>, \<^verbatim>\<open>from_le_bytes\<close> and their big-endian forms,
  \<^verbatim>\<open>str::from_utf8\<close>'s validity check, decimal formatting, and the lemmas on them.
\<close>

type_synonym u8 = "8 word"
type_synonym u16 = "16 word"
type_synonym u32 = "32 word"
type_synonym u64 = "64 word"
type_synonym bytes = "8 word list"

named_theorems wire_simps \<open>evaluation rules of the byte readers and writers\<close>
named_theorems result_splits \<open>inversion rules of successful results\<close>

subsection \<open>Results\<close>

datatype io_error_kind = ConnectionRefused | UnexpectedEof | WriteZero | InvalidData | OtherIo

datatype error =
    Configuration string
  | InvalidArgument string
  | Database bytes bytes
  | Io io_error_kind
  | Tls string
  | Protocol string
  | RowNotFound
  | TypeNotFound bytes
  | ColumnIndexOutOfBounds nat nat
  | ColumnNotFound bytes
  | EncodeError string
  | DecodeError string
  | PoolTimedOut
  | PoolClosed
  | WorkerCrashed
  | InvalidSavePointStatement
  | BeginFailed

datatype 'a result = Ok 'a | Err error | Panic

primrec rbind :: "'a result \<Rightarrow> ('a \<Rightarrow> 'b result) \<Rightarrow> 'b result" where
  "rbind (Ok x) f = f x"
| "rbind (Err e) f = Err e"
| "rbind Panic f = Panic"

primrec rmap :: "('a \<Rightarrow> 'b) \<Rightarrow> 'a result \<Rightarrow> 'b result" where
  "rmap f (Ok x) = Ok (f x)"
| "rmap f (Err e) = Err e"
| "rmap f Panic = Panic"

definition rassert :: "bool \<Rightarrow> 'a result \<Rightarrow> 'a result" where
  "rassert c r = (if c then r else Panic)"

lemma rassert_True [simp]: "c \<Longrightarrow> rassert c r = r"
  by (simp add: rassert_def)

lemma rassert_Ok_iff [simp]: "rassert c r = Ok x \<longleftrightarrow> c \<and> r = Ok x"
  by (simp add: rassert_def)

lemma rbind_Ok_iff [simp]: "rbind r f = Ok y \<longleftrightarrow> (\<exists>x. r = Ok x \<and> f x = Ok y)"
  by (cases r) auto

lemma rbind_Panic_iff: "rbind r f = Panic \<longleftrightarrow> r = Panic \<or> (\<exists>x. r = Ok x \<and> f x = Panic)"
  by (cases r) auto

lemma rbind_cong [fundef_cong]:
  "r = r' \<Longrightarrow> (\<And>x. r' = Ok x \<Longrightarrow> f x = g x) \<Longrightarrow> rbind r f = rbind r' g"
  by (cases r) auto

lemma rbind_assoc: "rbind (rbind r f) g = rbind r (\<lambda>x. rbind (f x) g)"
  by (cases r) auto

subsection \<open>Integers as bytes\<close>

primrec nat_le :: "nat \<Rightarrow> nat \<Rightarrow> bytes" where
  "nat_le 0 x = []"
| "nat_le (Suc n) x = of_nat (x mod 256) # nat_le n (x div 256)"

primrec le_nat :: "bytes \<Rightarrow> nat" where
  "le_nat [] = 0"
| "le_nat (b # bs) = unat b + 256 * le_nat bs"

definition nat_be :: "nat \<Rightarrow> nat \<Rightarrow> bytes" where
  "nat_be n x = rev (nat_le n x)"

definition be_nat :: "bytes \<Rightarrow> nat" where
  "be_nat bs = le_nat (rev bs)"

definition to_le_bytes :: "'a::len word \<Rightarrow> bytes" where
  "to_le_bytes w = nat_le (LENGTH('a) div 8) (unat w)"

definition from_le_bytes :: "bytes \<Rightarrow> 'a::len word" where
  "from_le_bytes bs = of_nat (le_nat bs)"

definition to_be_bytes :: "'a::len word \<Rightarrow> bytes" where
  "to_be_bytes w = nat_be (LENGTH('a) div 8) (unat w)"

definition from_be_bytes :: "bytes \<Rightarrow> 'a::len word" where
  "from_be_bytes bs = of_nat (be_nat bs)"

lemma nat_le_numeral [wire_simps]:
  "nat_le (numeral k) x = of_nat (x mod 256) # nat_le (pred_numeral k) (x div 256)"
  by (simp only: numeral_eq_Suc [of k] nat_le.simps)

lemma unat_ucast_mod: "unat (ucast (w :: 'a::len word) :: 'b::len word) = unat w mod 2 ^ LENGTH('b)"
  by (simp add: unsigned_ucast_eq take_bit_eq_mod)

lemma length_nat_le [simp]: "length (nat_le n x) = n"
  by (induction n arbitrary: x) auto

lemma length_nat_be [simp]: "length (nat_be n x) = n"
  by (simp add: nat_be_def)

lemma length_to_le_bytes [simp]: "length (to_le_bytes (w :: 'a::len word)) = LENGTH('a) div 8"
  by (simp add: to_le_bytes_def)

lemma length_to_be_bytes [simp]: "length (to_be_bytes (w :: 'a::len word)) = LENGTH('a) div 8"
  by (simp add: to_be_bytes_def)

lemma unat_of_nat_byte [simp]: "unat (of_nat (x mod 256) :: u8) = x mod 256"
  by (simp add: unat_of_nat)

lemma unat_byte_less: "unat (b :: u8) < 256"
  using unsigned_less [of b] by simp

lemma unat_u16_less: "unat (w :: u16) < 65536"
  using unsigned_less [of w] by simp

lemma unat_u32_less: "unat (w :: u32) < 4294967296"
  using unsigned_less [of w] by simp

lemma unat_u64_less: "unat (w :: u64) < 18446744073709551616"
  using unsigned_less [of w] by simp

lemma sint_nonneg_iff: "0 \<le> sint (w :: 'a::len word) \<longleftrightarrow> unat w < 2 ^ (LENGTH('a) - 1)"
proof -
  obtain m where m: "LENGTH('a) = Suc m" using len_gt_0 [where 'a = 'a] by (metis gr0_implies_Suc)
  obtain n where n: "unat w = n" by blast
  have k: "uint w = int n" using uint_nat [of w] n by (simp only:)
  have "n < 2 ^ LENGTH('a)" unfolding n [symmetric] by (rule unsigned_less)
  then have "n div 2 ^ m < 2" by (simp add: div_less_iff_less_mult m)
  then consider "n div 2 ^ m = 0" | "n div 2 ^ m = 1" by linarith
  then have "odd (n div 2 ^ m) \<longleftrightarrow> 0 < n div 2 ^ m" by cases simp_all
  also have "\<dots> \<longleftrightarrow> 2 ^ m \<le> n" by (simp add: div_greater_zero_iff)
  finally have "bit n m \<longleftrightarrow> 2 ^ m \<le> n" by (simp only: bit_iff_odd)
  moreover have "sint w = signed_take_bit m (int n)" by (simp add: sint_uint k m)
  ultimately show ?thesis
    by (simp only: signed_take_bit_nonnegative_iff bit_of_nat_iff_bit n not_le m diff_Suc_1)
qed

lemma sint_eq_unat: "unat w < 2 ^ (LENGTH('a) - 1) \<Longrightarrow> sint (w :: 'a::len word) = int (unat w)"
proof -
  assume a: "unat w < 2 ^ (LENGTH('a) - 1)"
  then have "0 \<le> sint w" by (simp only: sint_nonneg_iff)
  then have "\<not> bit (uint w) (LENGTH('a) - 1)"
    unfolding sint_uint by simp
  then have "sint w = take_bit (LENGTH('a) - 1) (uint w)"
    by (simp add: sint_uint signed_take_bit_eq_if_positive)
  also have "\<dots> = uint w" using a uint_nat [of w]
    by (simp only: take_bit_int_eq_self_iff) (metis of_nat_0_le_iff of_nat_less_iff of_nat_numeral of_nat_power)
  finally show ?thesis using uint_nat [of w] by (simp only:)
qed

lemma le_nat_nat_le: "le_nat (nat_le n x) = x mod 256 ^ n"
proof (induction n arbitrary: x)
  case 0
  show ?case by simp
next
  case (Suc n)
  have "x mod (256 * 256 ^ n) = 256 * (x div 256 mod 256 ^ n) + x mod 256"
    by (rule mod_mult2_eq)
  with Suc show ?case by simp
qed

lemma take_nat_le: "take k (nat_le n x) = nat_le (min k n) x"
proof (induction n arbitrary: k x)
  case 0
  show ?case by simp
next
  case (Suc n)
  then show ?case by (cases k) simp_all
qed

lemma le_nat_less: "le_nat bs < 256 ^ length bs"
proof (induction bs)
  case Nil
  show ?case by simp
next
  case (Cons b bs)
  with unat_byte_less [of b] show ?case by simp
qed

lemma nat_le_le_nat: "nat_le (length bs) (le_nat bs) = bs"
proof (induction bs)
  case Nil
  show ?case by simp
next
  case (Cons b bs)
  with unat_byte_less [of b] show ?case by simp
qed

lemma be_nat_nat_be: "be_nat (nat_be n x) = x mod 256 ^ n"
  by (simp add: be_nat_def nat_be_def le_nat_nat_le)

lemma be_nat_less: "be_nat bs < 256 ^ length bs"
  using le_nat_less [of "rev bs"] by (simp add: be_nat_def)

lemma from_to_le_bytes:
  assumes "8 dvd LENGTH('a)"
  shows "from_le_bytes (to_le_bytes (w :: 'a::len word)) = w"
proof -
  obtain k where k: "LENGTH('a) = 8 * k" using assms by blast
  have "unat w < 2 ^ LENGTH('a)" by (rule unsigned_less)
  then have "unat w mod 256 ^ k = unat w"
    by (simp add: k power_mult)
  then show ?thesis
    by (simp add: from_le_bytes_def to_le_bytes_def le_nat_nat_le k)
qed

lemma from_to_be_bytes:
  assumes "8 dvd LENGTH('a)"
  shows "from_be_bytes (to_be_bytes (w :: 'a::len word)) = w"
  using from_to_le_bytes [OF assms, of w]
  by (simp add: from_be_bytes_def to_be_bytes_def be_nat_def nat_be_def
      from_le_bytes_def to_le_bytes_def)

lemma from_le_to_le_u8 [simp]: "from_le_bytes (to_le_bytes (w :: u8)) = w"
  and from_le_to_le_u16 [simp]: "from_le_bytes (to_le_bytes (x :: u16)) = x"
  and from_le_to_le_u32 [simp]: "from_le_bytes (to_le_bytes (y :: u32)) = y"
  and from_le_to_le_u64 [simp]: "from_le_bytes (to_le_bytes (z :: u64)) = z"
  by (rule from_to_le_bytes, simp)+

lemma from_be_to_be_u8 [simp]: "from_be_bytes (to_be_bytes (w :: u8)) = w"
  and from_be_to_be_u16 [simp]: "from_be_bytes (to_be_bytes (x :: u16)) = x"
  and from_be_to_be_u32 [simp]: "from_be_bytes (to_be_bytes (y :: u32)) = y"
  and from_be_to_be_u64 [simp]: "from_be_bytes (to_be_bytes (z :: u64)) = z"
  by (rule from_to_be_bytes, simp)+

lemma to_le_bytes_byte: "to_le_bytes (w :: u8) = [w]"
  by (simp add: to_le_bytes_def unat_byte_less)

subsection \<open>Text\<close>

text \<open>
  \<^verbatim>\<open>str::from_utf8\<close> accepts exactly the well-formed sequences of the Unicode standard:
  no overlong forms, no surrogates, nothing above U+10FFFF.
\<close>

definition utf8_cont :: "u8 \<Rightarrow> bool" where
  "utf8_cont b \<longleftrightarrow> 0x80 \<le> b \<and> b \<le> 0xBF"

fun valid_utf8 :: "bytes \<Rightarrow> bool" where
  "valid_utf8 [] = True"
| "valid_utf8 (b # bs) =
    (if b < 0x80 then valid_utf8 bs
     else if 0xC2 \<le> b \<and> b \<le> 0xDF then
       (case bs of c1 # r \<Rightarrow> utf8_cont c1 \<and> valid_utf8 r | _ \<Rightarrow> False)
     else if 0xE0 \<le> b \<and> b \<le> 0xEF then
       (case bs of c1 # c2 # r \<Rightarrow>
          utf8_cont c1 \<and> utf8_cont c2 \<and> (b = 0xE0 \<longrightarrow> 0xA0 \<le> c1) \<and> (b = 0xED \<longrightarrow> c1 \<le> 0x9F)
          \<and> valid_utf8 r
        | _ \<Rightarrow> False)
     else if 0xF0 \<le> b \<and> b \<le> 0xF4 then
       (case bs of c1 # c2 # c3 # r \<Rightarrow>
          utf8_cont c1 \<and> utf8_cont c2 \<and> utf8_cont c3 \<and> (b = 0xF0 \<longrightarrow> 0x90 \<le> c1)
          \<and> (b = 0xF4 \<longrightarrow> c1 \<le> 0x8F) \<and> valid_utf8 r
        | _ \<Rightarrow> False)
     else False)"

lemma valid_utf8_ascii: "\<forall>b \<in> set bs. b < 0x80 \<Longrightarrow> valid_utf8 bs"
  by (induction bs) auto

definition ascii :: "string \<Rightarrow> bytes" where
  "ascii s = map (\<lambda>c. of_nat (of_char c)) s"

lemma ascii_append [simp]: "ascii (s @ t) = ascii s @ ascii t"
  by (simp add: ascii_def)

lemma length_ascii [simp]: "length (ascii s) = length s"
  by (simp add: ascii_def)

definition starts_with :: "bytes \<Rightarrow> bytes \<Rightarrow> bool" where
  "starts_with s pre \<longleftrightarrow> take (length pre) s = pre"

text \<open>\<^verbatim>\<open>str::split\<close> and \<^verbatim>\<open>str::split_once\<close> at a character.\<close>

fun split_on :: "u8 \<Rightarrow> bytes \<Rightarrow> bytes list" where
  "split_on x [] = [[]]"
| "split_on x (b # bs) =
     (if b = x then [] # split_on x bs
      else case split_on x bs of [] \<Rightarrow> [[b]] | p # ps \<Rightarrow> (b # p) # ps)"

definition split_once :: "u8 \<Rightarrow> bytes \<Rightarrow> (bytes \<times> bytes) option" where
  "split_once x bs = (if x \<in> set bs then Some (takeWhile (\<lambda>b. b \<noteq> x) bs, tl (dropWhile (\<lambda>b. b \<noteq> x) bs)) else None)"

lemma split_on_none: "x \<notin> set p \<Longrightarrow> split_on x p = [p]"
  by (induction p) auto

lemma split_on_first: "x \<notin> set p \<Longrightarrow> split_on x (p @ x # r) = p # split_on x r"
  by (induction p) auto

lemma split_once_first: "x \<notin> set p \<Longrightarrow> split_once x (p @ x # r) = Some (p, r)"
  by (simp add: split_once_def dropWhile_append takeWhile_append)

lemma split_once_none: "x \<notin> set p \<Longrightarrow> split_once x p = None"
  by (simp add: split_once_def)

text \<open>\<^verbatim>\<open>format!("{}", n)\<close> of an unsigned integer.\<close>

definition digit_char :: "nat \<Rightarrow> char" where
  "digit_char d = char_of (48 + d)"

fun dec_string :: "nat \<Rightarrow> string" where
  "dec_string n = (if n < 10 then [digit_char n] else dec_string (n div 10) @ [digit_char (n mod 10)])"

declare dec_string.simps [simp del]

definition digit_val :: "char \<Rightarrow> nat" where
  "digit_val c = of_char c - 48"

lemma digit_val_char [simp]: "d < 10 \<Longrightarrow> digit_val (digit_char d) = d"
  by (simp add: digit_val_def digit_char_def)

definition dec_value :: "string \<Rightarrow> nat" where
  "dec_value s = foldl (\<lambda>a c. 10 * a + digit_val c) 0 s"

lemma dec_value_dec_string [simp]: "dec_value (dec_string n) = n"
proof (induction n rule: dec_string.induct)
  case (1 n)
  then show ?case
    by (cases "n < 10") (simp_all add: dec_string.simps [of n] dec_value_def)
qed

lemma dec_string_inject [simp]: "dec_string m = dec_string n \<longleftrightarrow> m = n"
  by (metis dec_value_dec_string)

text \<open>\<^verbatim>\<open>str::parse\<close> of the integer types of \<open>w\<close> bits: an optional sign (\<^verbatim>\<open>-\<close> only if
  signed), at least one digit, and a value in range.\<close>

definition digit_byte :: "u8 \<Rightarrow> bool" where
  "digit_byte b \<longleftrightarrow> 48 \<le> b \<and> b \<le> 57"

definition parse_digits :: "bytes \<Rightarrow> nat option" where
  "parse_digits ds =
     (if ds = [] \<or> \<not> list_all digit_byte ds then None
      else Some (dec_value (map (\<lambda>d. char_of (unat d)) ds)))"

definition parse_unsigned :: "nat \<Rightarrow> bytes \<Rightarrow> nat option" where
  "parse_unsigned w s =
     (case parse_digits (if take 1 s = [43] then tl s else s) of
        Some n \<Rightarrow> if n < 2 ^ w then Some n else None
      | None \<Rightarrow> None)"

definition parse_signed :: "nat \<Rightarrow> bytes \<Rightarrow> int option" where
  "parse_signed w s =
     (case parse_digits (if take 1 s = [43] \<or> take 1 s = [45] then tl s else s) of
        Some n \<Rightarrow>
          let v = (if take 1 s = [45] then - int n else int n) in
          if - (2 ^ (w - 1)) \<le> v \<and> v < 2 ^ (w - 1) then Some v else None
      | None \<Rightarrow> None)"

lemma digit_byte_ascii: "list_all digit_byte (ascii (dec_string n))"
proof (induction n rule: dec_string.induct)
  case (1 n)
  have "digit_byte (of_nat (of_char (digit_char d)))" if "d < 10" for d
  proof -
    from that have "d \<in> {0, 1, 2, 3, 4, 5, 6, 7, 8, 9}" by auto
    then show ?thesis by (auto simp: digit_byte_def digit_char_def)
  qed
  with 1 show ?case
    by (subst dec_string.simps) (auto simp: ascii_def)
qed

lemma ascii_dec_ne: "ascii (dec_string n) \<noteq> []"
  by (subst dec_string.simps) (simp add: ascii_def)

lemma ascii_dec_no_sign [simp]:
  "take (Suc 0) (ascii (dec_string n)) \<noteq> [43]" "take (Suc 0) (ascii (dec_string n)) \<noteq> [45]"
  using digit_byte_ascii [of n] by (cases "ascii (dec_string n)"; auto simp: digit_byte_def)+

lemma chars_of_ascii [simp]: "map (\<lambda>d. char_of (unat d)) (ascii s) = s"
  by (simp add: ascii_def unat_of_nat comp_def map_idI)

lemma parse_digits_dec [simp]: "parse_digits (ascii (dec_string n)) = Some n"
  by (simp add: parse_digits_def ascii_dec_ne digit_byte_ascii)

lemma parse_unsigned_dec [simp]: "n < 2 ^ w \<Longrightarrow> parse_unsigned w (ascii (dec_string n)) = Some n"
  by (simp add: parse_unsigned_def)

end
