(* ===== verification/Bytes_Buf.thy ===== *)
theory Bytes_Buf
  imports Prelude
begin

section \<open>Byte cursors: the \<^verbatim>\<open>bytes\<close> interface and \<^verbatim>\<open>sqlx-core/src/io\<close>\<close>

text \<open>
  The decoders read a \<^verbatim>\<open>bytes::Bytes\<close> cursor.  That crate is not part of the
  repository, so what the decoders use of it is a parameter: \<open>split_front\<close>
  (\<^verbatim>\<open>Bytes::split_to\<close>, and the way every \<^verbatim>\<open>Buf::get_*\<close> takes its bytes off the
  front of the cursor, panicking when too few remain) and \<open>memchr\<close> (crate
  \<^verbatim>\<open>memchr\<close>).  A cursor is represented by the bytes it derefs to.  The locale
  \<open>bytes_contract\<close> states their documented behaviour; the readers on top of them
  (\<^verbatim>\<open>BufExt\<close>, \<^verbatim>\<open>BufMutExt\<close>) are the repository's own and are translated below.
\<close>

subsection \<open>The interface\<close>

record bytes_api =
  split_front :: "nat \<Rightarrow> bytes \<Rightarrow> (bytes \<times> bytes) option"
  memchr :: "u8 \<Rightarrow> bytes \<Rightarrow> nat option"

locale bytes_contract =
  fixes B :: bytes_api
  assumes split_front_enough:
    "n \<le> length b \<Longrightarrow> split_front B n b = Some (take n b, drop n b)"
  and split_front_short: "length b < n \<Longrightarrow> split_front B n b = None"
  and memchr_found: "x \<notin> set p \<Longrightarrow> memchr B x (p @ x # r) = Some (length p)"
  and memchr_absent: "x \<notin> set b \<Longrightarrow> memchr B x b = None"

text \<open>Reads of a whole cursor position: \<^verbatim>\<open>get_u8\<close>, \<^verbatim>\<open>get_u16_le\<close>, \<dots>, \<^verbatim>\<open>advance\<close>.\<close>

definition take_front :: "bytes_api \<Rightarrow> nat \<Rightarrow> bytes \<Rightarrow> (bytes \<times> bytes) result" where
  "take_front B n b = (case split_front B n b of Some r \<Rightarrow> Ok r | None \<Rightarrow> Panic)"

definition advance :: "bytes_api \<Rightarrow> nat \<Rightarrow> bytes \<Rightarrow> bytes result" where
  "advance B n b = rmap snd (take_front B n b)"

definition get_u8 :: "bytes_api \<Rightarrow> bytes \<Rightarrow> (u8 \<times> bytes) result" where
  "get_u8 B b = rmap (\<lambda>(h, r). (hd h, r)) (take_front B 1 b)"

definition get_u16_le :: "bytes_api \<Rightarrow> bytes \<Rightarrow> (u16 \<times> bytes) result" where
  "get_u16_le B b = rmap (\<lambda>(h, r). (from_le_bytes h, r)) (take_front B 2 b)"

definition get_u32_le :: "bytes_api \<Rightarrow> bytes \<Rightarrow> (u32 \<times> bytes) result" where
  "get_u32_le B b = rmap (\<lambda>(h, r). (from_le_bytes h, r)) (take_front B 4 b)"

definition get_u64_le :: "bytes_api \<Rightarrow> bytes \<Rightarrow> (u64 \<times> bytes) result" where
  "get_u64_le B b = rmap (\<lambda>(h, r). (from_le_bytes h, r)) (take_front B 8 b)"

definition get_uint_le :: "bytes_api \<Rightarrow> nat \<Rightarrow> bytes \<Rightarrow> (u64 \<times> bytes) result" where
  "get_uint_le B n b = rmap (\<lambda>(h, r). (from_le_bytes h, r)) (take_front B n b)"

definition get_u16 :: "bytes_api \<Rightarrow> bytes \<Rightarrow> (u16 \<times> bytes) result" where
  "get_u16 B b = rmap (\<lambda>(h, r). (from_be_bytes h, r)) (take_front B 2 b)"

definition get_u32 :: "bytes_api \<Rightarrow> bytes \<Rightarrow> (u32 \<times> bytes) result" where
  "get_u32 B b = rmap (\<lambda>(h, r). (from_be_bytes h, r)) (take_front B 4 b)"

definition get_u64 :: "bytes_api \<Rightarrow> bytes \<Rightarrow> (u64 \<times> bytes) result" where
  "get_u64 B b = rmap (\<lambda>(h, r). (from_be_bytes h, r)) (take_front B 8 b)"

subsection \<open>\<^verbatim>\<open>BufExt\<close> and \<^verbatim>\<open>BufMutExt\<close>\<close>

definition from_utf8 :: "bytes \<Rightarrow> bytes result" where
  "from_utf8 b = (if valid_utf8 b then Ok b else Err (Protocol ''invalid utf-8''))"

definition get_bytes_nul :: "bytes_api \<Rightarrow> bytes \<Rightarrow> (bytes \<times> bytes) result" where
  "get_bytes_nul B b =
     (case memchr B 0 b of
        None \<Rightarrow> Err (Protocol ''expected NUL in byte sequence'')
      | Some nul \<Rightarrow>
          rassert (nul \<le> length b)
            (let v = take nul b in rmap (\<lambda>r. (v, r)) (advance B (nul + 1) b)))"

definition get_bytes :: "bytes_api \<Rightarrow> nat \<Rightarrow> bytes \<Rightarrow> (bytes \<times> bytes) result" where
  "get_bytes B len b =
     rassert (len \<le> length b) (let v = take len b in rmap (\<lambda>r. (v, r)) (advance B len b))"

definition get_str_nul :: "bytes_api \<Rightarrow> bytes \<Rightarrow> (bytes \<times> bytes) result" where
  "get_str_nul B b =
     rbind (get_bytes_nul B b) (\<lambda>(v, r). rmap (\<lambda>s. (s, r)) (from_utf8 v))"

definition get_str :: "bytes_api \<Rightarrow> nat \<Rightarrow> bytes \<Rightarrow> (bytes \<times> bytes) result" where
  "get_str B len b =
     rassert (len \<le> length b)
       (rbind (from_utf8 (take len b)) (\<lambda>v. rmap (\<lambda>r. (v, r)) (advance B len b)))"

definition put_str_nul :: "bytes \<Rightarrow> bytes \<Rightarrow> bytes" where
  "put_str_nul buf s = buf @ s @ [0]"

subsection \<open>What the contract gives the readers\<close>

context bytes_contract
begin

lemma take_front_append [simp]: "length h = n \<Longrightarrow> take_front B n (h @ r) = Ok (h, r)"
  by (simp add: take_front_def split_front_enough)

lemma take_front_short: "length b < n \<Longrightarrow> take_front B n b = Panic"
  by (simp add: take_front_def split_front_short)

lemma take_front_eq:
  "take_front B n b = (if n \<le> length b then Ok (take n b, drop n b) else Panic)"
  by (simp add: take_front_def split_front_enough split_front_short)

lemma advance_append [simp]: "length h = n \<Longrightarrow> advance B n (h @ r) = Ok r"
  by (simp add: advance_def)

lemma advance_eq: "advance B n b = (if n \<le> length b then Ok (drop n b) else Panic)"
  by (simp add: advance_def take_front_eq)

lemma get_u8_Cons [simp]: "get_u8 B (x # r) = Ok (x, r)"
  using take_front_append [of "[x]" 1 r] by (simp add: get_u8_def)

lemma get_u8_Nil [simp]: "get_u8 B [] = Panic"
  by (simp add: get_u8_def take_front_short)

lemma get_u16_le_append [simp]: "get_u16_le B (to_le_bytes w @ r) = Ok (w, r)"
  by (simp add: get_u16_le_def)

lemma get_u32_le_append [simp]: "get_u32_le B (to_le_bytes w @ r) = Ok (w, r)"
  by (simp add: get_u32_le_def)

lemma get_u64_le_append [simp]: "get_u64_le B (to_le_bytes w @ r) = Ok (w, r)"
  by (simp add: get_u64_le_def)

lemma get_u16_append [simp]: "get_u16 B (to_be_bytes w @ r) = Ok (w, r)"
  by (simp add: get_u16_def)

lemma get_u32_append [simp]: "get_u32 B (to_be_bytes w @ r) = Ok (w, r)"
  by (simp add: get_u32_def)

lemma get_u64_append [simp]: "get_u64 B (to_be_bytes w @ r) = Ok (w, r)"
  by (simp add: get_u64_def)

lemmas get_eqs =
  get_u16_le_def get_u32_le_def get_u64_le_def get_uint_le_def get_u16_def get_u32_def get_u64_def
  take_front_eq

lemma get_bytes_append [simp]: "length v = n \<Longrightarrow> get_bytes B n (v @ r) = Ok (v, r)"
  by (simp add: get_bytes_def)

lemma get_bytes_eq:
  "get_bytes B n b = (if n \<le> length b then Ok (take n b, drop n b) else Panic)"
  by (simp add: get_bytes_def advance_eq rassert_def)

lemma get_bytes_nul_append [simp]: "0 \<notin> set v \<Longrightarrow> get_bytes_nul B (v @ 0 # r) = Ok (v, r)"
  by (simp add: get_bytes_nul_def memchr_found advance_eq)

lemma get_bytes_nul_absent: "0 \<notin> set b \<Longrightarrow> get_bytes_nul B b = Err (Protocol ''expected NUL in byte sequence'')"
  by (simp add: get_bytes_nul_def memchr_absent)

lemma get_str_nul_append [simp]:
  "0 \<notin> set v \<Longrightarrow> valid_utf8 v \<Longrightarrow> get_str_nul B (v @ 0 # r) = Ok (v, r)"
  by (simp add: get_str_nul_def from_utf8_def)

lemma get_str_append [simp]:
  "length v = n \<Longrightarrow> valid_utf8 v \<Longrightarrow> get_str B n (v @ r) = Ok (v, r)"
  by (simp add: get_str_def from_utf8_def)

lemma get_bytes_nul_no_panic: "get_bytes_nul B b \<noteq> Panic"
proof (cases "0 \<in> set b")
  case True
  then obtain p r where "b = p @ 0 # r" "0 \<notin> set p"
    using split_list_first by fastforce
  then show ?thesis by simp
next
  case False
  then show ?thesis by (simp add: get_bytes_nul_absent)
qed

lemma get_str_nul_no_panic: "get_str_nul B b \<noteq> Panic"
  by (cases "get_bytes_nul B b")
     (auto simp: get_str_nul_def from_utf8_def get_bytes_nul_no_panic split: if_splits)

end

subsection \<open>A cursor that satisfies the contract\<close>

fun index_of :: "u8 \<Rightarrow> bytes \<Rightarrow> nat option" where
  "index_of x [] = None"
| "index_of x (y # ys) = (if x = y then Some 0 else map_option Suc (index_of x ys))"

lemma index_of_found: "x \<notin> set p \<Longrightarrow> index_of x (p @ x # r) = Some (length p)"
  by (induction p) auto

lemma index_of_absent: "x \<notin> set b \<Longrightarrow> index_of x b = None"
  by (induction b) auto

definition list_bytes :: bytes_api where
  "list_bytes =
     \<lparr>split_front = (\<lambda>n b. if n \<le> length b then Some (take n b, drop n b) else None),
      memchr = index_of\<rparr>"

interpretation list_cursor: bytes_contract list_bytes
  by unfold_locales (auto simp: list_bytes_def index_of_found index_of_absent)

end
