(* ===== verification/MySql_Buf.thy ===== *)
theory MySql_Buf
  imports Bytes_Buf
begin

section \<open>MySQL length-encoded integers and strings (\<^verbatim>\<open>sqlx-mysql/src/io\<close>)\<close>

text \<open>
  \<^verbatim>\<open>MySqlBufExt\<close> and \<^verbatim>\<open>MySqlBufMutExt\<close>: the variable-width integers of the MySQL
  protocol and the strings prefixed with them.  The lemmas give the round trip, the width
  of the encoding, and that no encoding starts with the bytes the protocol reserves for
  \<^verbatim>\<open>NULL\<close> and \<^verbatim>\<open>ERR\<close>.
\<close>

definition get_uint_lenenc :: "bytes_api \<Rightarrow> bytes \<Rightarrow> (u64 \<times> bytes) result" where
  "get_uint_lenenc B b =
     rbind (get_u8 B b) (\<lambda>(v, b).
       if v = 0xfc then rmap (\<lambda>(x, r). (ucast x, r)) (get_u16_le B b)
       else if v = 0xfd then get_uint_le B 3 b
       else if v = 0xfe then get_u64_le B b
       else Ok (ucast v, b))"

definition get_str_lenenc :: "bytes_api \<Rightarrow> bytes \<Rightarrow> (bytes \<times> bytes) result" where
  "get_str_lenenc B b = rbind (get_uint_lenenc B b) (\<lambda>(size, b). get_str B (unat size) b)"

definition get_bytes_lenenc :: "bytes_api \<Rightarrow> bytes \<Rightarrow> (bytes \<times> bytes) result" where
  "get_bytes_lenenc B b = rbind (get_uint_lenenc B b) (\<lambda>(size, b). take_front B (unat size) b)"

definition put_uint_lenenc :: "bytes \<Rightarrow> u64 \<Rightarrow> bytes" where
  "put_uint_lenenc buf v =
     (let encoded_le = to_le_bytes v in
      if v \<le> 250 then buf @ [encoded_le ! 0]
      else if v \<le> 0xFFFF then buf @ [0xfc] @ take 2 encoded_le
      else if v \<le> 0xFFFFFF then buf @ [0xfd] @ take 3 encoded_le
      else buf @ [0xfe] @ encoded_le)"

definition put_bytes_lenenc :: "bytes \<Rightarrow> bytes \<Rightarrow> bytes" where
  "put_bytes_lenenc buf v = put_uint_lenenc buf (of_nat (length v)) @ v"

definition put_str_lenenc :: "bytes \<Rightarrow> bytes \<Rightarrow> bytes" where
  "put_str_lenenc buf v = put_bytes_lenenc buf v"

subsection \<open>Round trips\<close>

lemma put_uint_lenenc_append: "put_uint_lenenc buf v = buf @ put_uint_lenenc [] v"
  by (simp add: put_uint_lenenc_def Let_def)

lemma put_bytes_lenenc_append: "put_bytes_lenenc buf v = buf @ put_bytes_lenenc [] v"
  unfolding put_bytes_lenenc_def by (subst put_uint_lenenc_append) simp

lemma to_le_bytes_u64: "to_le_bytes (v :: u64) = nat_le 8 (unat v)"
  by (simp add: to_le_bytes_def)

lemma from_le_take_u64:
  fixes v :: u64
  assumes "unat v < 256 ^ k" and "k \<le> 8"
  shows "from_le_bytes (take k (to_le_bytes v)) = v"
  using assms by (simp add: to_le_bytes_u64 take_nat_le from_le_bytes_def le_nat_nat_le min_absorb1)

lemma from_le_take_u64_u16:
  fixes v :: u64
  assumes "unat v < 256 ^ 2"
  shows "ucast (from_le_bytes (take 2 (to_le_bytes v)) :: u16) = v"
proof -
  have "from_le_bytes (take 2 (to_le_bytes v)) = (of_nat (unat v) :: u16)"
    using assms by (simp add: to_le_bytes_u64 take_nat_le from_le_bytes_def le_nat_nat_le)
  moreover have "ucast (of_nat (unat v) :: u16) = v"
    using assms by (simp add: word_unat_eq_iff unat_ucast_mod unat_of_nat)
  ultimately show ?thesis by (simp only:)
qed

lemma hd_to_le_u64: "unat v \<le> 250 \<Longrightarrow> to_le_bytes (v :: u64) ! 0 = ucast v"
  by (simp add: to_le_bytes_u64 wire_simps word_unat_eq_iff unat_ucast_mod)

context bytes_contract
begin

lemma get_put_uint_lenenc [simp]: "get_uint_lenenc B (put_uint_lenenc [] v @ r) = Ok (v, r)"
proof -
  have "v \<le> 250 \<or> (\<not> v \<le> 250 \<and> v \<le> 0xFFFF) \<or> (\<not> v \<le> 250 \<and> \<not> v \<le> 0xFFFF)"
    by blast
  then consider "v \<le> 250" | "\<not> v \<le> 250" "v \<le> 0xFFFF"
    | "\<not> v \<le> 250" "\<not> v \<le> 0xFFFF" "v \<le> 0xFFFFFF"
    | "\<not> v \<le> 250" "\<not> v \<le> 0xFFFF" "\<not> v \<le> 0xFFFFFF"
    by blast
  then show ?thesis
  proof cases
    case 1
    then have u: "unat v \<le> 250" by (simp add: word_le_nat_alt)
    have "unat (ucast v :: u8) = unat v" using u by (simp add: unat_ucast_mod)
    then have "(ucast v :: u8) \<noteq> 0xfc" "(ucast v :: u8) \<noteq> 0xfd" "(ucast v :: u8) \<noteq> 0xfe"
      and "ucast (ucast v :: u8) = v"
      using u by (auto simp: word_unat_eq_iff unat_ucast_mod)
    with 1 u show ?thesis
      by (simp add: put_uint_lenenc_def get_uint_lenenc_def hd_to_le_u64 Let_def)
  next
    case 2
    then have "unat v < 256 ^ 2" by (simp add: word_le_nat_alt)
    with 2 show ?thesis
      by (simp add: put_uint_lenenc_def get_uint_lenenc_def get_u16_le_def Let_def
          from_le_take_u64_u16)
  next
    case 3
    then have "unat v < 256 ^ 3" by (simp add: word_le_nat_alt)
    with 3 show ?thesis
      by (simp add: put_uint_lenenc_def get_uint_lenenc_def get_uint_le_def Let_def
          from_le_take_u64)
  next
    case 4
    then show ?thesis
      by (simp add: put_uint_lenenc_def get_uint_lenenc_def Let_def)
  qed
qed

lemma get_put_bytes_lenenc [simp]:
  "length v < 2 ^ 64 \<Longrightarrow> get_bytes_lenenc B (put_bytes_lenenc [] v @ r) = Ok (v, r)"
  by (simp add: get_bytes_lenenc_def put_bytes_lenenc_def unat_of_nat)

lemma get_put_str_lenenc [simp]:
  "length v < 2 ^ 64 \<Longrightarrow> valid_utf8 v \<Longrightarrow>
   get_str_lenenc B (put_str_lenenc [] v @ r) = Ok (v, r)"
  by (simp add: get_str_lenenc_def put_str_lenenc_def put_bytes_lenenc_def unat_of_nat)

end

lemma hd_put_uint_lenenc:
  "put_uint_lenenc [] v \<noteq> []" "hd (put_uint_lenenc [] v) \<noteq> 0xfb" "hd (put_uint_lenenc [] v) \<noteq> 0xff"
  "v \<noteq> 0 \<Longrightarrow> hd (put_uint_lenenc [] v) \<noteq> 0"
proof -
  have "put_uint_lenenc [] v \<noteq> [] \<and> hd (put_uint_lenenc [] v) \<noteq> 0xfb \<and> hd (put_uint_lenenc [] v) \<noteq> 0xff
      \<and> (v \<noteq> 0 \<longrightarrow> hd (put_uint_lenenc [] v) \<noteq> 0)"
  proof (cases "v \<le> 250")
    case True
    then have "unat v \<le> 250" by (simp add: word_le_nat_alt)
    then have "to_le_bytes v ! 0 = ucast v" "(ucast v :: u8) \<noteq> 0xfb" "(ucast v :: u8) \<noteq> 0xff"
      "v \<noteq> 0 \<longrightarrow> (ucast v :: u8) \<noteq> 0"
      by (auto simp: hd_to_le_u64 word_unat_eq_iff unat_ucast_mod)
    with True show ?thesis by (simp add: put_uint_lenenc_def)
  next
    case False
    then show ?thesis by (simp add: put_uint_lenenc_def Let_def)
  qed
  then show "put_uint_lenenc [] v \<noteq> []" "hd (put_uint_lenenc [] v) \<noteq> 0xfb"
    "hd (put_uint_lenenc [] v) \<noteq> 0xff" "v \<noteq> 0 \<Longrightarrow> hd (put_uint_lenenc [] v) \<noteq> 0" by simp_all
qed

text \<open>
  Length-encoded integers round trip: for every 64-bit value and whatever follows it in
  the packet, the reader returns the value and leaves the rest, and the encoding never
  starts with \<^verbatim>\<open>0xfb\<close> (NULL) or \<^verbatim>\<open>0xff\<close> (ERR).
\<close>

theorem lenenc_roundtrip:
  assumes "bytes_contract B"
  shows "get_uint_lenenc B (put_uint_lenenc [] v @ r) = Ok (v, r)
    \<and> hd (put_uint_lenenc [] v) \<noteq> 0xfb \<and> hd (put_uint_lenenc [] v) \<noteq> 0xff"
  using assms by (simp add: bytes_contract.get_put_uint_lenenc hd_put_uint_lenenc)

theorem lenenc_roundtrip_witness:
  "get_uint_lenenc list_bytes (put_uint_lenenc [] 251 @ [7]) = Ok (251, [7])
    \<and> put_uint_lenenc [] 251 = [0xfc, 0xfb, 0]"
proof -
  have "put_uint_lenenc [] 251 = [0xfc, 0xfb, 0]"
    by (simp add: put_uint_lenenc_def to_le_bytes_u64 wire_simps)
  with lenenc_roundtrip [OF list_cursor.bytes_contract_axioms, of 251 "[7]"] show ?thesis by simp
qed

end
