(* ===== verification/Buffered_Socket.thy ===== *)
theory Buffered_Socket
  imports Bytes_Buf
begin

section \<open>The buffered socket: \<^verbatim>\<open>sqlx-core/src/net/socket/buffered.rs\<close>\<close>

text \<open>
  The write buffer is a vector with two cursors; its capacity is kept because the code asserts
  that it is never zero.  How far \<^verbatim>\<open>shrink_to_fit\<close> shrinks is a parameter.  The socket is
  given by what it does: the number of bytes each write accepts, and the chunks that
  successive reads deliver (an empty chunk is the end of the stream).  Running out of either means that
  the future is still pending, with the state it has reached.  The retryable read is a partial
  function: it does not return when the callback asks for bytes that are already there.
\<close>

datatype 'a control_flow = Continue nat | Break 'a

subsection \<open>\<^verbatim>\<open>WriteBuffer\<close>\<close>

record write_buffer =
  wbuf :: bytes
  bytes_written :: nat
  bytes_flushed :: nat
  wcap :: nat

abbreviation DEFAULT_BUF_SIZE :: nat where "DEFAULT_BUF_SIZE \<equiv> 8192"

definition new_write_buffer :: write_buffer where
  "new_write_buffer = \<lparr>wbuf = [], bytes_written = 0, bytes_flushed = 0, wcap = DEFAULT_BUF_SIZE\<rparr>"

definition sanity_check :: "write_buffer \<Rightarrow> bool" where
  "sanity_check w \<longleftrightarrow> wcap w \<noteq> 0 \<and> bytes_written w \<le> length (wbuf w) \<and> bytes_flushed w \<le> bytes_written w"

definition checked :: "write_buffer \<Rightarrow> write_buffer \<times> unit result" where
  "checked w = (w, if sanity_check w then Ok () else Panic)"

definition set_wbuf :: "bytes \<Rightarrow> write_buffer \<Rightarrow> write_buffer" where
  "set_wbuf b w = w\<lparr>wbuf := b, wcap := max (wcap w) (length b)\<rparr>"

definition buf_mut :: "write_buffer \<Rightarrow> write_buffer \<times> unit result" where
  "buf_mut w = checked (w\<lparr>wbuf := take (bytes_written w) (wbuf w)\<rparr>)"

definition init_remaining_mut :: "write_buffer \<Rightarrow> write_buffer \<times> unit result" where
  "init_remaining_mut w =
     checked (w\<lparr>wbuf := take (wcap w) (wbuf w) @ replicate (wcap w - length (wbuf w)) 0\<rparr>)"

definition wb_advance :: "nat \<Rightarrow> write_buffer \<Rightarrow> write_buffer \<times> unit result" where
  "wb_advance amt w =
     (if length (wbuf w) < bytes_written w + amt then (w, Panic)
      else checked (w\<lparr>bytes_written := bytes_written w + amt\<rparr>))"

definition put_slice :: "bytes \<Rightarrow> write_buffer \<Rightarrow> write_buffer \<times> unit result" where
  "put_slice s w =
     (if length (wbuf w) < bytes_written w then (w, Panic)
      else
        let n = bytes_written w in
        if length s \<le> length (wbuf w) - n
        then wb_advance (length s) (w\<lparr>wbuf := take n (wbuf w) @ s @ drop (n + length s) (wbuf w)\<rparr>)
        else wb_advance (length s) (set_wbuf (take n (wbuf w) @ s) w))"

definition wb_is_empty :: "write_buffer \<Rightarrow> bool" where
  "wb_is_empty w \<longleftrightarrow> bytes_written w \<le> bytes_flushed w"

definition wb_get :: "write_buffer \<Rightarrow> bytes" where
  "wb_get w = drop (bytes_flushed w) (take (bytes_written w) (wbuf w))"

definition wb_shrink :: "(nat \<Rightarrow> nat \<Rightarrow> nat) \<Rightarrow> write_buffer \<Rightarrow> write_buffer" where
  "wb_shrink fit w =
     (let w = (if 0 < bytes_flushed w then
                 let d = wb_get w in
                 w\<lparr>wbuf := d @ drop (length d) (wbuf w),
                   bytes_written := bytes_written w - bytes_flushed w, bytes_flushed := 0\<rparr>
               else w);
          b = take (max (bytes_written w) DEFAULT_BUF_SIZE) (wbuf w)
      in w\<lparr>wbuf := b, wcap := fit (wcap w) (length b)\<rparr>)"

definition consume :: "nat \<Rightarrow> write_buffer \<Rightarrow> write_buffer \<times> unit result" where
  "consume amt w =
     (if bytes_written w < bytes_flushed w + amt then (w, Panic)
      else
        let n = bytes_flushed w + amt in
        checked (if n = bytes_written w then w\<lparr>bytes_flushed := 0, bytes_written := 0\<rparr>
                 else w\<lparr>bytes_flushed := n\<rparr>))"

subsection \<open>Writing\<close>

definition write_with :: "(bytes \<Rightarrow> bytes \<times> unit result) \<Rightarrow> write_buffer \<Rightarrow> write_buffer \<times> unit result" where
  "write_with encode w =
     (case buf_mut w of
        (w, Ok _) \<Rightarrow>
          (case encode (wbuf w) of
             (b, Ok _) \<Rightarrow> checked ((set_wbuf b w)\<lparr>bytes_written := length b\<rparr>)
           | (b, r) \<Rightarrow> (set_wbuf b w, r))
      | (w, r) \<Rightarrow> (w, r))"

text \<open>\<^verbatim>\<open>BufferedSocket::flush\<close>: the results of the socket's writes, the buffer, the bytes sent.\<close>

fun socket_flush :: "nat result list \<Rightarrow> write_buffer \<Rightarrow> bytes \<Rightarrow> write_buffer \<times> bytes \<times> unit result option" where
  "socket_flush ws w sent =
     (if wb_is_empty w then (w, sent, Some (Ok ()))
      else case ws of
          [] \<Rightarrow> (w, sent, None)
        | Err e # ws \<Rightarrow> (w, sent, Some (Err e))
        | Panic # ws \<Rightarrow> (w, sent, Some Panic)
        | Ok n # ws \<Rightarrow>
            (case consume n w of
               (w', Ok _) \<Rightarrow> socket_flush ws w' (sent @ take n (wb_get w))
             | (w', r) \<Rightarrow> (w', sent @ take n (wb_get w), Some r)))"

declare socket_flush.simps [simp del]

subsection \<open>Reading\<close>

fun fill :: "nat \<Rightarrow> bytes \<Rightarrow> bytes list \<Rightarrow> bytes \<times> bytes list \<times> unit result option" where
  "fill len rd chunks =
     (if len \<le> length rd then (rd, chunks, Some (Ok ()))
      else case chunks of
          [] \<Rightarrow> (rd, [], None)
        | c # cs \<Rightarrow> if c = [] then (rd, cs, Some (Err (Io UnexpectedEof))) else fill len (rd @ c) cs)"

declare fill.simps [simp del]

type_synonym 'r read_state = "bytes \<times> bytes list \<times> 'r result option"

partial_function (option) try_read ::
  "(bytes \<Rightarrow> ('r control_flow \<times> bytes) result) \<Rightarrow> bytes \<Rightarrow> bytes list \<Rightarrow> 'r read_state option"
where
  "try_read cb rd chunks =
     (case cb rd of
        Err e \<Rightarrow> Some (rd, chunks, Some (Err e))
      | Panic \<Rightarrow> Some (rd, chunks, Some Panic)
      | Ok (Break r, rd') \<Rightarrow> Some (rd', chunks, Some (Ok r))
      | Ok (Continue n, rd') \<Rightarrow>
          (case fill n rd' chunks of
             (rd', cs, None) \<Rightarrow> Some (rd', cs, None)
           | (rd', cs, Some (Err e)) \<Rightarrow> Some (rd', cs, Some (Err e))
           | (rd', cs, Some Panic) \<Rightarrow> Some (rd', cs, Some Panic)
           | (rd', cs, Some (Ok _)) \<Rightarrow> try_read cb rd' cs))"

definition read_buffered_cb :: "bytes_api \<Rightarrow> nat \<Rightarrow> bytes \<Rightarrow> (bytes control_flow \<times> bytes) result" where
  "read_buffered_cb B len buf =
     (if length buf < len then Ok (Continue len, buf)
      else rmap (\<lambda>(v, r). (Break v, r)) (take_front B len buf))"

definition read_buffered :: "bytes_api \<Rightarrow> nat \<Rightarrow> bytes \<Rightarrow> bytes list \<Rightarrow> bytes read_state option" where
  "read_buffered B len = try_read (read_buffered_cb B len)"

text \<open>Successive reads, as a decoder loop issues them.\<close>

primrec reads ::
  "(bytes \<Rightarrow> ('r control_flow \<times> bytes) result) \<Rightarrow> nat \<Rightarrow> bytes \<Rightarrow> bytes list \<Rightarrow> ('r list \<times> bytes \<times> bytes list) option"
where
  "reads cb 0 rd chunks = Some ([], rd, chunks)"
| "reads cb (Suc n) rd chunks =
     (case try_read cb rd chunks of
        Some (rd', cs, Some (Ok r)) \<Rightarrow> map_option (\<lambda>(rs, st). (r # rs, st)) (reads cb n rd' cs)
      | _ \<Rightarrow> None)"

subsection \<open>The write buffer is a queue of bytes\<close>

lemma sanity_get_length: "sanity_check w \<Longrightarrow> length (wb_get w) = bytes_written w - bytes_flushed w"
  by (simp add: sanity_check_def wb_get_def)

lemma sanity_new: "sanity_check new_write_buffer" "wb_get new_write_buffer = []"
  by (simp_all add: sanity_check_def new_write_buffer_def wb_get_def)

lemma buf_mut_spec:
  "sanity_check w \<Longrightarrow> \<exists>w'. buf_mut w = (w', Ok ()) \<and> sanity_check w' \<and> wb_get w' = wb_get w
     \<and> wbuf w' = take (bytes_written w) (wbuf w) \<and> bytes_written w' = bytes_written w
     \<and> bytes_flushed w' = bytes_flushed w"
  by (simp add: buf_mut_def checked_def sanity_check_def wb_get_def)

lemma put_slice_spec:
  assumes "sanity_check w"
  shows "\<exists>w'. put_slice s w = (w', Ok ()) \<and> sanity_check w' \<and> wb_get w' = wb_get w @ s"
  using assms
  by (auto simp: put_slice_def wb_advance_def checked_def sanity_check_def wb_get_def set_wbuf_def Let_def)

lemma consume_spec:
  assumes "sanity_check w" and "amt \<le> length (wb_get w)"
  shows "\<exists>w'. consume amt w = (w', Ok ()) \<and> sanity_check w' \<and> wb_get w' = drop amt (wb_get w)"
  using assms sanity_get_length [OF assms(1)]
  by (auto simp: consume_def checked_def sanity_check_def wb_get_def Let_def add.commute [of amt])

lemma shrink_spec:
  assumes "sanity_check w" and "0 < fit (wcap w) (length (wbuf (wb_shrink fit w)))"
  shows "sanity_check (wb_shrink fit w) \<and> wb_get (wb_shrink fit w) = wb_get w"
proof (cases "bytes_flushed w = 0")
  case True
  then show ?thesis using assms by (simp add: wb_shrink_def Let_def sanity_check_def wb_get_def)
next
  case False
  define d where "d = wb_get w"
  have d: "length d = bytes_written w - bytes_flushed w"
    using sanity_get_length [OF assms(1)] by (simp add: d_def)
  let ?b = "take (max (length d) DEFAULT_BUF_SIZE) (d @ drop (length d) (wbuf w))"
  define v where "v = wb_shrink fit w"
  have v: "wbuf v = ?b" "bytes_written v = length d" "bytes_flushed v = 0"
    using False d by (simp_all add: v_def wb_shrink_def Let_def flip: d_def)
  have "wcap v = fit (wcap w) (length (wbuf v))"
    by (simp add: v_def wb_shrink_def Let_def del: length_take length_append take_append)
  then have "0 < wcap v" using assms(2) by (simp add: v_def)
  then show ?thesis unfolding v_def [symmetric] d_def [symmetric]
    by (simp add: sanity_check_def wb_get_def [of v] v)
qed

text \<open>An encoder that appends, and leaves what was there even when it fails.\<close>

definition appends :: "(bytes \<Rightarrow> bytes \<times> unit result) \<Rightarrow> bytes \<Rightarrow> unit result \<Rightarrow> bool" where
  "appends encode msg r \<longleftrightarrow> (\<forall>b. encode b = (b @ msg, r))"

lemma write_with_spec:
  assumes "sanity_check w" and "appends encode msg r" and "r \<noteq> Panic"
  shows "\<exists>w'. write_with encode w = (w', r) \<and> sanity_check w'
    \<and> wb_get w' = (if r = Ok () then wb_get w @ msg else wb_get w)"
  using buf_mut_spec [OF assms(1)] assms
  by (cases r) (auto simp: write_with_def appends_def checked_def set_wbuf_def sanity_check_def wb_get_def)

lemma flush_simps:
  "wb_is_empty w \<Longrightarrow> socket_flush ws w sent = (w, sent, Some (Ok ()))"
  "\<not> wb_is_empty w \<Longrightarrow> socket_flush [] w sent = (w, sent, None)"
  "\<not> wb_is_empty w \<Longrightarrow> socket_flush (Err e # ws) w sent = (w, sent, Some (Err e))"
  "\<not> wb_is_empty w \<Longrightarrow> socket_flush (Panic # ws) w sent = (w, sent, Some Panic)"
  "\<not> wb_is_empty w \<Longrightarrow> socket_flush (Ok n # ws) w sent =
     (case consume n w of
        (w', Ok _) \<Rightarrow> socket_flush ws w' (sent @ take n (wb_get w))
      | (w', r) \<Rightarrow> (w', sent @ take n (wb_get w), Some r))"
  by (subst socket_flush.simps; simp)+

lemma flush_spec:
  assumes "sanity_check w" and "socket_flush ws w sent = (w', sent', r)" and "r \<noteq> Some Panic"
  shows "sanity_check w' \<and> sent' @ wb_get w' = sent @ wb_get w \<and> (r = Some (Ok ()) \<longrightarrow> wb_get w' = [])"
  using assms
proof (induction ws arbitrary: w sent)
  case Nil
  then show ?case
    using sanity_get_length [of w] by (cases "wb_is_empty w") (auto simp: flush_simps wb_is_empty_def)
next
  case (Cons x ws)
  show ?case
  proof (cases "wb_is_empty w")
    case True
    with Cons.prems sanity_get_length [of w] show ?thesis by (auto simp: flush_simps wb_is_empty_def)
  next
    case False
    show ?thesis
    proof (cases x)
      case (Ok n)
      show ?thesis
      proof (cases "n \<le> length (wb_get w)")
        case True
        obtain w1 where w1: "consume n w = (w1, Ok ())" "sanity_check w1" "wb_get w1 = drop n (wb_get w)"
          using consume_spec [OF Cons.prems(1) True] by blast
        with Cons.IH [of w1 "sent @ take n (wb_get w)"] Cons.prems False Ok show ?thesis
          by (simp add: flush_simps)
      next
        case big: False
        then have "consume n w = (w, Panic)"
          using sanity_get_length [OF Cons.prems(1)] Cons.prems(1) by (auto simp: consume_def sanity_check_def)
        with Cons.prems False Ok show ?thesis by (simp add: flush_simps)
      qed
    qed (use Cons.prems False in \<open>auto simp: flush_simps\<close>)
  qed
qed

text \<open>A socket accepts at most what it is offered, so flushing never panics.\<close>

fun accepts :: "nat \<Rightarrow> nat result list \<Rightarrow> bool" where
  "accepts offered [] = True"
| "accepts offered (Ok n # ws) = (n \<le> offered \<and> accepts (offered - n) ws)"
| "accepts offered (Err e # ws) = accepts offered ws"
| "accepts offered (Panic # ws) = False"

lemma flush_no_panic:
  "sanity_check w \<Longrightarrow> accepts (length (wb_get w)) ws \<Longrightarrow> snd (snd (socket_flush ws w sent)) \<noteq> Some Panic"
proof (induction ws arbitrary: w sent)
  case Nil
  then show ?case by (cases "wb_is_empty w") (simp_all add: flush_simps)
next
  case (Cons x ws)
  show ?case
  proof (cases "wb_is_empty w")
    case True
    then show ?thesis by (simp add: flush_simps)
  next
    case False
    show ?thesis
    proof (cases x)
      case (Ok n)
      obtain w1 where "consume n w = (w1, Ok ())" "sanity_check w1" "wb_get w1 = drop n (wb_get w)"
        using consume_spec [OF Cons.prems(1), of n] Cons.prems(2) Ok by auto
      with Cons False Ok show ?thesis by (simp add: flush_simps)
    qed (use Cons.prems False in \<open>auto simp: flush_simps\<close>)
  qed
qed

subsection \<open>Retryable reads\<close>

lemma fill_simps:
  "len \<le> length rd \<Longrightarrow> fill len rd chunks = (rd, chunks, Some (Ok ()))"
  "length rd < len \<Longrightarrow> fill len rd [] = (rd, [], None)"
  "length rd < len \<Longrightarrow> fill len rd (c # cs) =
     (if c = [] then (rd, cs, Some (Err (Io UnexpectedEof))) else fill len (rd @ c) cs)"
  by (subst fill.simps; simp)+

lemma fill_spec:
  assumes "[] \<notin> set chunks"
  shows "\<exists>rd' cs. fill len rd chunks = (rd', cs, if len \<le> length (rd @ concat chunks) then Some (Ok ()) else None)
    \<and> rd' @ concat cs = rd @ concat chunks \<and> [] \<notin> set cs
    \<and> (if len \<le> length (rd @ concat chunks) then len \<le> length rd' else cs = [])
    \<and> length cs \<le> length chunks \<and> (length rd < len \<longrightarrow> chunks \<noteq> [] \<longrightarrow> length cs < length chunks)"
  using assms
proof (induction chunks arbitrary: rd)
  case Nil
  then show ?case by (cases "len \<le> length rd") (simp_all add: fill_simps)
next
  case (Cons c cs)
  show ?case
  proof (cases "len \<le> length rd")
    case True
    with Cons.prems show ?thesis by (simp add: fill_simps)
  next
    case False
    with Cons.IH [of "rd @ c"] Cons.prems show ?thesis by (auto simp: fill_simps)
  qed
qed

text \<open>A callback that recognises self-delimiting frames.\<close>

locale framed_reader =
  fixes cb :: "bytes \<Rightarrow> ('m control_flow \<times> bytes) result"
    and frame :: "'m \<Rightarrow> bytes" and valid :: "'m \<Rightarrow> bool"
  assumes cb_frame: "valid m \<Longrightarrow> cb (frame m @ rest) = Ok (Break m, rest)"
    and cb_prefix: "valid m \<Longrightarrow> k < length (frame m) \<Longrightarrow>
      \<exists>n. cb (take k (frame m)) = Ok (Continue n, take k (frame m)) \<and> k < n \<and> n \<le> length (frame m)"
begin

lemma try_read_frame:
  assumes "valid m" and "[] \<notin> set chunks" and "rd @ concat chunks = frame m @ rest"
  shows "\<exists>rd' cs. try_read cb rd chunks = Some (rd', cs, Some (Ok m)) \<and> rd' @ concat cs = rest \<and> [] \<notin> set cs"
  using assms(2,3)
proof (induction "length chunks" arbitrary: rd chunks rule: less_induct)
  case less
  show ?case
  proof (cases "length (frame m) \<le> length rd")
    case True
    then obtain r where "rd = frame m @ r" "r @ concat chunks = rest"
      using less.prems(2) by (metis append_eq_append_conv_if append_eq_conv_conj append_take_drop_id)
    then show ?thesis using less.prems(1) assms(1)
      by (subst try_read.simps) (simp add: cb_frame)
  next
    case False
    then have rd: "rd = take (length rd) (frame m)"
      using less.prems(2) by (metis append_eq_append_conv_if linorder_le_less_linear order_less_imp_le)
    then obtain n where n: "cb rd = Ok (Continue n, rd)" "length rd < n" "n \<le> length (frame m)"
      using cb_prefix [OF assms(1), of "length rd"] False by auto
    have len: "length (rd @ concat chunks) = length (frame m) + length rest"
      using less.prems(2) by simp
    then have "chunks \<noteq> []" using False by auto
    moreover obtain rd' cs where f: "fill n rd chunks = (rd', cs, Some (Ok ()))"
        "rd' @ concat cs = rd @ concat chunks" "[] \<notin> set cs" "length rd < n \<longrightarrow> chunks \<noteq> [] \<longrightarrow> length cs < length chunks"
      using fill_spec [OF less.prems(1), of n rd] n(3) len by auto
    ultimately have "length cs < length chunks" using n(2) by simp
    from less.hyps [OF this f(3)] less.prems(2) f(2) show ?thesis
      by (subst try_read.simps) (simp add: n(1) f(1))
  qed
qed

lemma try_read_waits:
  assumes "valid m" and "[] \<notin> set chunks" and "rd @ concat chunks = take k (frame m)" and "k < length (frame m)"
  shows "try_read cb rd chunks = Some (rd @ concat chunks, [], None)"
  using assms(2,3)
proof (induction "length chunks" arbitrary: rd chunks rule: less_induct)
  case less
  have len: "length rd + length (concat chunks) = k"
    using arg_cong [OF less.prems(2), of length] assms(4) by simp
  then have rd: "rd = take (length rd) (frame m)"
    using arg_cong [OF less.prems(2), of "take (length rd)"] by simp
  then obtain n where n: "cb rd = Ok (Continue n, rd)" "length rd < n" "n \<le> length (frame m)"
    using cb_prefix [OF assms(1), of "length rd"] len assms(4) by auto
  show ?case
  proof (cases "n \<le> k")
    case True
    then have "chunks \<noteq> []" using n(2) len by auto
    moreover obtain rd' cs where f: "fill n rd chunks = (rd', cs, Some (Ok ()))"
        "rd' @ concat cs = rd @ concat chunks" "[] \<notin> set cs" "length rd < n \<longrightarrow> chunks \<noteq> [] \<longrightarrow> length cs < length chunks"
      using fill_spec [OF less.prems(1), of n rd] True len by auto
    ultimately have "length cs < length chunks" using n(2) by simp
    from less.hyps [OF this f(3)] less.prems(2) f(2) show ?thesis
      by (subst try_read.simps) (simp add: n(1) f(1))
  next
    case False
    then obtain rd' where "fill n rd chunks = (rd', [], None)" "rd' = rd @ concat chunks"
      using fill_spec [OF less.prems(1), of n rd] len by auto
    then show ?thesis by (subst try_read.simps) (simp add: n(1))
  qed
qed

lemma reads_frames:
  assumes "list_all valid ms" and "[] \<notin> set chunks" and "rd @ concat chunks = concat (map frame ms) @ rest"
  shows "\<exists>rd' cs. reads cb (length ms) rd chunks = Some (ms, rd', cs) \<and> rd' @ concat cs = rest"
  using assms
proof (induction ms arbitrary: rd chunks)
  case (Cons m ms)
  then obtain rd' cs where "try_read cb rd chunks = Some (rd', cs, Some (Ok m))"
      "rd' @ concat cs = concat (map frame ms) @ rest" "[] \<notin> set cs"
    using try_read_frame [of m chunks rd "concat (map frame ms) @ rest"] by auto
  with Cons.IH [of cs rd'] Cons.prems show ?case by auto
qed simp

end

sublocale bytes_contract \<subseteq> exact: framed_reader "read_buffered_cb B n" "\<lambda>b. b" "\<lambda>b. length b = n" for n
  by unfold_locales (auto simp: read_buffered_cb_def)

subsection \<open>Properties\<close>

datatype wb_op = WMsg bytes "error option" | WFlush "nat result list" | WShrink

text \<open>One use of the buffer: a message whose encoder may fail half-way, a flush against a socket that
  accepts some of the bytes, an error or nothing at all, or a shrink.\<close>

primrec wb_step :: "(nat \<Rightarrow> nat \<Rightarrow> nat) \<Rightarrow> wb_op \<Rightarrow> write_buffer \<times> bytes \<Rightarrow> (write_buffer \<times> bytes) \<times> unit result option" where
  "wb_step fit (WMsg msg e) st =
     (case write_with (\<lambda>b. (b @ msg, case e of None \<Rightarrow> Ok () | Some e \<Rightarrow> Err e)) (fst st) of
        (w, r) \<Rightarrow> ((w, snd st), Some r))"
| "wb_step fit (WFlush ws) st = (case socket_flush ws (fst st) (snd st) of (w, sent, r) \<Rightarrow> ((w, sent), r))"
| "wb_step fit WShrink st = ((wb_shrink fit (fst st), snd st), Some (Ok ()))"

primrec wb_steps :: "(nat \<Rightarrow> nat \<Rightarrow> nat) \<Rightarrow> wb_op list \<Rightarrow> write_buffer \<times> bytes \<Rightarrow> (write_buffer \<times> bytes) option" where
  "wb_steps fit [] st = Some st"
| "wb_steps fit (op # ops) st =
     (case wb_step fit op st of (st', r) \<Rightarrow> if r = Some Panic then None else wb_steps fit ops st')"

definition messages_of :: "wb_op list \<Rightarrow> bytes" where
  "messages_of ops = concat (map (\<lambda>op. case op of WMsg msg None \<Rightarrow> msg | _ \<Rightarrow> []) ops)"

definition never_zero :: "(nat \<Rightarrow> nat \<Rightarrow> nat) \<Rightarrow> bool" where
  "never_zero fit \<longleftrightarrow> (\<forall>c l. 0 < c \<longrightarrow> 0 < fit c l)"

lemma wb_step_spec:
  assumes "sanity_check w" and "never_zero fit" and "wb_step fit op (w, sent) = ((w', sent'), r)" and "r \<noteq> Some Panic"
  shows "sanity_check w' \<and> sent' @ wb_get w' = (sent @ wb_get w) @ messages_of [op]"
proof (cases op)
  case (WMsg msg e)
  let ?r = "case e of None \<Rightarrow> Ok () | Some e \<Rightarrow> Err e"
  have "appends (\<lambda>b. (b @ msg, ?r)) msg ?r" "?r \<noteq> Panic"
    by (auto simp: appends_def split: option.splits)
  from write_with_spec [OF assms(1) this] assms(3) WMsg show ?thesis
    by (auto simp: messages_of_def split: option.splits)
next
  case (WFlush ws)
  with flush_spec [OF assms(1)] assms(3,4) show ?thesis
    by (auto simp: messages_of_def split: prod.splits)
next
  case WShrink
  have "0 < wcap w" using assms(1) by (simp add: sanity_check_def)
  with shrink_spec [OF assms(1), of fit] assms(2,3) WShrink show ?thesis
    by (auto simp: messages_of_def never_zero_def)
qed

lemma wb_steps_spec:
  "sanity_check w \<Longrightarrow> never_zero fit \<Longrightarrow> wb_steps fit ops (w, sent) = Some (w', sent') \<Longrightarrow>
   sanity_check w' \<and> sent' @ wb_get w' = (sent @ wb_get w) @ messages_of ops"
proof (induction ops arbitrary: w sent)
  case (Cons op ops)
  obtain w1 sent1 r where 1: "wb_step fit op (w, sent) = ((w1, sent1), r)" by (metis surj_pair)
  with Cons.prems have "r \<noteq> Some Panic" "wb_steps fit ops (w1, sent1) = Some (w', sent')"
    by (auto split: if_splits)
  with wb_step_spec [OF Cons.prems(1,2) 1] Cons.IH [of w1 sent1] Cons.prems(2) show ?case
    by (auto simp: messages_of_def)
qed (simp add: messages_of_def)

text \<open>Whatever the socket accepts at a time, and wherever flushes fail or are dropped, the bytes
  sent followed by the bytes still buffered are exactly the messages written so far, in order
  and once; a message whose encoding failed half-way leaves nothing behind.\<close>

theorem socket_writes_in_order:
  assumes "never_zero fit" and "wb_steps fit ops (new_write_buffer, []) = Some (w, sent)"
  shows "sent @ wb_get w = messages_of ops \<and> sanity_check w"
  using wb_steps_spec [OF sanity_new(1) assms] by (simp add: sanity_new)

theorem socket_writes_in_order_witness:
  "\<exists>w. wb_steps max [WMsg [1, 2] None, WMsg [9] (Some WorkerCrashed), WFlush [Ok 1], WMsg [3] None]
         (new_write_buffer, []) = Some (w, [1])
     \<and> [1] @ wb_get w = [1, 2, 3]"
proof -
  let ?ops = "[WMsg [1, 2] None, WMsg [9] (Some WorkerCrashed), WFlush [Ok 1], WMsg [3] None]"
  have "never_zero max" by (simp add: never_zero_def less_max_iff_disj)
  moreover obtain w where w: "wb_steps max ?ops (new_write_buffer, []) = Some (w, [1])"
    by (simp add: new_write_buffer_def write_with_def buf_mut_def checked_def sanity_check_def set_wbuf_def
        flush_simps wb_is_empty_def consume_def wb_get_def)
  ultimately have "[1] @ wb_get w = messages_of ?ops"
    using socket_writes_in_order [of max ?ops w "[1]"] by blast
  with w show ?thesis by (auto simp: messages_of_def)
qed

text \<open>Shrinking the buffers of a socket to which nothing was written yet may leave the write
  buffer without capacity, and then the next write fails its own assertion.\<close>

theorem shrink_then_write_panics:
  assumes "fit DEFAULT_BUF_SIZE 0 = 0"
  shows "snd (write_with encode (wb_shrink fit new_write_buffer)) = Panic"
  using assms
  by (simp add: wb_shrink_def new_write_buffer_def write_with_def buf_mut_def checked_def sanity_check_def Let_def)

theorem shrink_then_write_panics_witness:
  "snd (write_with (\<lambda>b. (b @ [1], Ok ())) (wb_shrink (\<lambda>c l. l) new_write_buffer)) = Panic"
  by (rule shrink_then_write_panics) simp

end
