(* ===== verification/MySql_Packet.thy ===== *)
theory MySql_Packet
  imports MySql_Buf Buffered_Socket
begin

unbundle bit_operations_syntax

section \<open>MySQL packets: \<^verbatim>\<open>protocol/packet.rs\<close>, \<^verbatim>\<open>protocol/response\<close>, \<^verbatim>\<open>connection/stream.rs\<close>\<close>

text \<open>
  A payload travels in packets of at most \<open>0xFFFFFF\<close> bytes with a three-byte length and a
  sequence number; a full packet is continued by the next one.  The stream reassembles payloads,
  turns error packets into errors, and counts the responses it has still to read
  (\<^verbatim>\<open>waiting\<close>).  Bit flags are words.  A receive returns \<open>None\<close> as its result
  while it is pending; the outer option is the partiality of the retryable read.
\<close>

abbreviation MAX_PACKET :: nat where "MAX_PACKET \<equiv> 16777215"

subsection \<open>Flags and response packets\<close>

type_synonym capabilities = u64
type_synonym status = u16

definition contains :: "'a::len word \<Rightarrow> 'a word \<Rightarrow> bool" where
  "contains flags f \<longleftrightarrow> flags AND f = f"

definition PROTOCOL_41 :: capabilities where "PROTOCOL_41 = 512"
definition DEPRECATE_EOF :: capabilities where "DEPRECATE_EOF = push_bit 24 1"
definition CAP_MYSQL :: capabilities where "CAP_MYSQL = 1"
definition CONNECT_WITH_DB :: capabilities where "CONNECT_WITH_DB = 8"
definition SECURE_CONNECTION :: capabilities where "SECURE_CONNECTION = push_bit 15 1"
definition PLUGIN_AUTH :: capabilities where "PLUGIN_AUTH = push_bit 19 1"
definition PLUGIN_AUTH_LENENC_DATA :: capabilities where "PLUGIN_AUTH_LENENC_DATA = push_bit 21 1"

definition SERVER_STATUS_IN_TRANS :: status where "SERVER_STATUS_IN_TRANS = 1"
definition SERVER_MORE_RESULTS_EXISTS :: status where "SERVER_MORE_RESULTS_EXISTS = 8"

definition status_from_bits_truncate :: "u16 \<Rightarrow> status" where
  "status_from_bits_truncate w = w AND 0x7FFB"

record ok_packet =
  affected_rows :: u64
  last_insert_id :: u64
  ok_status :: status
  ok_warnings :: u16

definition ok_packet_decode :: "bytes_api \<Rightarrow> bytes \<Rightarrow> ok_packet result" where
  "ok_packet_decode B buf =
     rbind (get_u8 B buf) (\<lambda>(header, buf).
     if header \<noteq> 0 \<and> header \<noteq> 0xfe then Err (Protocol ''expected 0x00 or 0xfe (OK_Packet)'')
     else
       rbind (get_uint_lenenc B buf) (\<lambda>(rows, buf).
       rbind (get_uint_lenenc B buf) (\<lambda>(ins_id, buf).
       rbind (get_u16_le B buf) (\<lambda>(st, buf).
       rmap (\<lambda>(ws, _). \<lparr>affected_rows = rows, last_insert_id = ins_id,
           ok_status = status_from_bits_truncate st, ok_warnings = ws\<rparr>) (get_u16_le B buf)))))"

record eof_packet =
  eof_warnings :: u16
  eof_status :: status

definition eof_packet_decode :: "bytes_api \<Rightarrow> bytes \<Rightarrow> eof_packet result" where
  "eof_packet_decode B buf =
     rbind (get_u8 B buf) (\<lambda>(header, buf).
     if header \<noteq> 0xfe then Err (Protocol ''expected 0xfe (EOF_Packet)'')
     else
       rbind (get_u16_le B buf) (\<lambda>(ws, buf).
       rmap (\<lambda>(st, _). \<lparr>eof_warnings = ws, eof_status = status_from_bits_truncate st\<rparr>) (get_u16_le B buf)))"

record err_packet =
  error_code :: u16
  sql_state :: "bytes option"
  error_message :: bytes

definition err_packet_decode :: "bytes_api \<Rightarrow> capabilities \<Rightarrow> bytes \<Rightarrow> err_packet result" where
  "err_packet_decode B caps buf =
     rbind (get_u8 B buf) (\<lambda>(header, buf).
     if header \<noteq> 0xff then Err (Protocol ''expected 0xff (ERR_Packet)'')
     else
       rbind (get_u16_le B buf) (\<lambda>(code, buf).
       rbind (if contains caps PROTOCOL_41 \<and> take 1 buf = [35]
              then rbind (advance B 1 buf) (\<lambda>buf. rmap (\<lambda>(s, r). (Some s, r)) (get_str B 5 buf))
              else Ok (None, buf)) (\<lambda>(st, buf).
       rmap (\<lambda>(msg, _). \<lparr>error_code = code, sql_state = st, error_message = msg\<rparr>)
         (get_str B (length buf) buf))))"

text \<open>\<^verbatim>\<open>Packet::eof\<close>.\<close>

definition packet_eof :: "bytes_api \<Rightarrow> capabilities \<Rightarrow> bytes \<Rightarrow> eof_packet result" where
  "packet_eof B caps p =
     (if contains caps DEPRECATE_EOF
      then rmap (\<lambda>ok. \<lparr>eof_warnings = ok_warnings ok, eof_status = ok_status ok\<rparr>) (ok_packet_decode B p)
      else eof_packet_decode B p)"

subsection \<open>Framing\<close>

definition next_header :: "nat \<Rightarrow> u8 \<Rightarrow> bytes" where
  "next_header len seq = take 3 (nat_le 4 len) @ [seq]"

text \<open>The continuation packets; the last one is shorter than the maximum, possibly empty.\<close>

function write_chunks :: "u8 \<Rightarrow> bytes \<Rightarrow> bytes \<times> u8" where
  "write_chunks seq rest =
     (if MAX_PACKET \<le> length rest then
        (case write_chunks (seq + 1) (drop MAX_PACKET rest) of
           (out, seq') \<Rightarrow> (next_header MAX_PACKET seq @ take MAX_PACKET rest @ out, seq'))
      else (next_header (length rest) seq @ rest, seq + 1))"
  by pat_completeness auto
termination
  by (relation "measure (\<lambda>(seq, rest). length rest)") auto

declare write_chunks.simps [simp del]

definition packet_encode ::
  "(bytes \<Rightarrow> bytes \<times> unit result) \<Rightarrow> u8 \<Rightarrow> bytes \<Rightarrow> bytes \<times> u8 \<times> unit result"
where
  "packet_encode encode seq buf =
     (let offset = length buf in
      case encode (buf @ [0, 0, 0, 0]) of
        (buf', Ok _) \<Rightarrow>
          (let len = length buf' - offset - 4;
               buf'' = take offset buf' @ next_header (min len MAX_PACKET) seq @ drop (offset + 4) buf'
           in if MAX_PACKET \<le> len then
                (case write_chunks (seq + 1) (drop (offset + 4 + MAX_PACKET) buf'') of
                   (out, seq') \<Rightarrow> (take (offset + 4 + MAX_PACKET) buf'' @ out, seq', Ok ()))
              else (buf'', seq + 1, Ok ()))
      | (buf', r) \<Rightarrow> (buf', seq, r))"

subsection \<open>The stream\<close>

datatype waiting = WResult | WRow

record my_stream =
  in_buf :: bytes
  in_chunks :: "bytes list"
  sequence_id :: u8
  waiting_q :: "waiting list"
  my_capabilities :: capabilities

type_synonym 'r my_io = "(my_stream \<times> 'r result option) option"

definition io_bind :: "'a my_io \<Rightarrow> ('a \<Rightarrow> my_stream \<Rightarrow> 'b my_io) \<Rightarrow> 'b my_io" where
  "io_bind m f =
     (case m of
        None \<Rightarrow> None
      | Some (s, Some (Ok x)) \<Rightarrow> f x s
      | Some (s, Some (Err e)) \<Rightarrow> Some (s, Some (Err e))
      | Some (s, Some Panic) \<Rightarrow> Some (s, Some Panic)
      | Some (s, None) \<Rightarrow> Some (s, None))"

definition io_ret :: "'a result \<Rightarrow> my_stream \<Rightarrow> 'a my_io" where
  "io_ret r s = Some (s, Some r)"

definition io_read :: "bytes_api \<Rightarrow> nat \<Rightarrow> my_stream \<Rightarrow> bytes my_io" where
  "io_read B n s =
     (case read_buffered B n (in_buf s) (in_chunks s) of
        None \<Rightarrow> None
      | Some (rd, cs, r) \<Rightarrow> Some (s\<lparr>in_buf := rd, in_chunks := cs\<rparr>, r))"

definition recv_packet_part :: "bytes_api \<Rightarrow> my_stream \<Rightarrow> bytes my_io" where
  "recv_packet_part B s =
     io_bind (io_read B 4 s) (\<lambda>header s.
     io_bind (io_ret (get_uint_le B 3 header) s) (\<lambda>(packet_size, header) s.
     io_bind (io_ret (get_u8 B header) s) (\<lambda>(seq, _) s.
     io_read B (unat packet_size) (s\<lparr>sequence_id := seq + 1\<rparr>))))"

partial_function (option) recv_rest :: "bytes_api \<Rightarrow> bytes \<Rightarrow> my_stream \<Rightarrow> bytes my_io" where
  "recv_rest B acc s =
     (case recv_packet_part B s of
        None \<Rightarrow> None
      | Some (s, Some (Ok part)) \<Rightarrow>
          if length part = MAX_PACKET then recv_rest B (acc @ part) s else Some (s, Some (Ok (acc @ part)))
      | Some (s, Some (Err e)) \<Rightarrow> Some (s, Some (Err e))
      | Some (s, Some Panic) \<Rightarrow> Some (s, Some Panic)
      | Some (s, None) \<Rightarrow> Some (s, None))"

definition recv_packet :: "bytes_api \<Rightarrow> my_stream \<Rightarrow> bytes my_io" where
  "recv_packet B s =
     io_bind (recv_packet_part B s) (\<lambda>payload s.
     io_bind (if length payload < MAX_PACKET then io_ret (Ok payload) s else recv_rest B payload s) (\<lambda>payload s.
       if payload = [] then io_ret (Err (Protocol ''Packet empty'')) s
       else if hd payload = 0xff then
         io_ret (rbind (err_packet_decode B (my_capabilities s) payload)
             (\<lambda>e. Err (Database (to_le_bytes (error_code e)) (error_message e))))
           (s\<lparr>waiting_q := tl (waiting_q s)\<rparr>)
       else io_ret (Ok payload) s))"

definition maybe_recv_eof :: "bytes_api \<Rightarrow> my_stream \<Rightarrow> unit my_io" where
  "maybe_recv_eof B s =
     (if contains (my_capabilities s) DEPRECATE_EOF then io_ret (Ok ()) s
      else io_bind (recv_packet B s) (\<lambda>p s. io_ret (rmap (\<lambda>_. ()) (eof_packet_decode B p)) s))"

primrec skip_packets :: "bytes_api \<Rightarrow> nat \<Rightarrow> my_stream \<Rightarrow> unit my_io" where
  "skip_packets B 0 s = io_ret (Ok ()) s"
| "skip_packets B (Suc n) s = io_bind (recv_packet B s) (\<lambda>_ s. skip_packets B n s)"

definition skip_result_metadata :: "bytes_api \<Rightarrow> bytes \<Rightarrow> my_stream \<Rightarrow> unit my_io" where
  "skip_result_metadata B packet s =
     io_bind (io_ret (get_uint_lenenc B packet) s) (\<lambda>(num_columns, _) s.
     io_bind (skip_packets B (unat num_columns) s) (\<lambda>_ s. maybe_recv_eof B s))"

definition is_eof :: "bytes \<Rightarrow> bool" where
  "is_eof p \<longleftrightarrow> p \<noteq> [] \<and> hd p = 0xfe \<and> length p < 9"

text \<open>One turn of the loops of \<^verbatim>\<open>wait_until_ready\<close>: the front of the queue decides what is read.\<close>

definition wait_turn :: "bytes_api \<Rightarrow> my_stream \<Rightarrow> unit my_io" where
  "wait_turn B s =
     (case waiting_q s of
        [] \<Rightarrow> io_ret (Ok ()) s
      | WRow # _ \<Rightarrow>
          io_bind (recv_packet B s) (\<lambda>p s.
            if is_eof p then
              io_bind (io_ret (packet_eof B (my_capabilities s) p) s) (\<lambda>eof s.
                io_ret (Ok ()) (s\<lparr>waiting_q :=
                  (if contains (eof_status eof) SERVER_MORE_RESULTS_EXISTS then WResult # tl (waiting_q s)
                   else tl (waiting_q s))\<rparr>))
            else io_ret (Ok ()) s)
      | WResult # _ \<Rightarrow>
          io_bind (recv_packet B s) (\<lambda>p s.
            if p \<noteq> [] \<and> (hd p = 0 \<or> hd p = 0xff) then
              io_bind (io_ret (ok_packet_decode B p) s) (\<lambda>ok s.
                io_ret (Ok ()) (if contains (ok_status ok) SERVER_MORE_RESULTS_EXISTS then s
                   else s\<lparr>waiting_q := tl (waiting_q s)\<rparr>))
            else skip_result_metadata B p (s\<lparr>waiting_q := WRow # tl (waiting_q s)\<rparr>)))"

partial_function (option) drain :: "bytes_api \<Rightarrow> my_stream \<Rightarrow> unit my_io" where
  "drain B s =
     (if waiting_q s = [] then Some (s, Some (Ok ()))
      else case wait_turn B s of
          None \<Rightarrow> None
        | Some (s, Some (Ok _)) \<Rightarrow> drain B s
        | Some (s, Some (Err e)) \<Rightarrow> Some (s, Some (Err e))
        | Some (s, Some Panic) \<Rightarrow> Some (s, Some Panic)
        | Some (s, None) \<Rightarrow> Some (s, None))"

subsection \<open>Reassembly\<close>

lemma io_bind_simps [simp]:
  "io_bind None f = None" "io_bind (Some (s, Some (Ok x))) f = f x s"
  "io_bind (Some (s, Some (Err e))) f = Some (s, Some (Err e))"
  "io_bind (Some (s, Some Panic)) f = Some (s, Some Panic)" "io_bind (Some (s, None)) f = Some (s, None)"
  "io_bind (io_ret (Ok x) s) f = f x s" "io_bind (io_ret (Err e) s) g = Some (s, Some (Err e))"
  "io_bind (io_ret Panic s) g = Some (s, Some Panic)"
  by (simp_all add: io_bind_def io_ret_def)

text \<open>What an \<^verbatim>\<open>ERR\<close> packet makes \<^verbatim>\<open>recv_packet\<close> return: never a value.\<close>

definition wire_error :: "bytes_api \<Rightarrow> capabilities \<Rightarrow> bytes \<Rightarrow> 'a result" where
  "wire_error B caps p =
     rbind (err_packet_decode B caps p) (\<lambda>e. Err (Database (to_le_bytes (error_code e)) (error_message e)))"

lemma wire_error_bind [simp]: "io_bind (io_ret (wire_error B caps p) s) f = io_ret (wire_error B caps p) s"
  by (cases "err_packet_decode B caps p") (simp_all add: wire_error_def io_ret_def)

lemma wire_error_not_Ok [simp]: "wire_error B caps p \<noteq> Ok x"
  by (cases "err_packet_decode B caps p") (simp_all add: wire_error_def)

definition arrives :: "my_stream \<Rightarrow> bytes \<Rightarrow> bool" where
  "arrives s b \<longleftrightarrow> in_buf s @ concat (in_chunks s) = b \<and> [] \<notin> set (in_chunks s)"

definition same_control :: "my_stream \<Rightarrow> my_stream \<Rightarrow> bool" where
  "same_control s s' \<longleftrightarrow> waiting_q s' = waiting_q s \<and> my_capabilities s' = my_capabilities s"

lemma same_control_refl [simp]: "same_control s s"
  by (simp add: same_control_def)

lemma same_control_trans: "same_control s t \<Longrightarrow> same_control t u \<Longrightarrow> same_control s u"
  by (simp add: same_control_def)

lemma header_length: "n \<le> MAX_PACKET \<Longrightarrow> unat (from_le_bytes (take 3 (nat_le 4 n)) :: u64) = n"
  by (simp add: take_nat_le from_le_bytes_def le_nat_nat_le unat_of_nat)

lemma length_next_header [simp]: "length (next_header n q) = 4"
  by (simp add: next_header_def)

lemma write_chunks_big:
  "MAX_PACKET \<le> length v \<Longrightarrow> write_chunks q v =
     (next_header MAX_PACKET q @ take MAX_PACKET v @ fst (write_chunks (q + 1) (drop MAX_PACKET v)),
      snd (write_chunks (q + 1) (drop MAX_PACKET v)))"
  by (subst write_chunks.simps) (simp split: prod.splits)

lemma write_chunks_small: "length v < MAX_PACKET \<Longrightarrow> write_chunks q v = (next_header (length v) q @ v, q + 1)"
  by (subst write_chunks.simps) simp

lemma packet_encode_chunks:
  assumes "appends encode payload (Ok ())"
  shows "packet_encode encode seq buf =
    (buf @ fst (write_chunks seq payload), snd (write_chunks seq payload), Ok ())"
proof -
  have e: "encode (buf @ [0, 0, 0, 0]) = (buf @ [0, 0, 0, 0] @ payload, Ok ())"
    using assms by (simp add: appends_def)
  show ?thesis
  proof (cases "MAX_PACKET \<le> length payload")
    case True
    then show ?thesis
      by (simp add: packet_encode_def e Let_def write_chunks_big [of payload seq] case_prod_beta)
  next
    case False
    then show ?thesis by (simp add: packet_encode_def e Let_def write_chunks_small)
  qed
qed

context bytes_contract
begin

lemma io_read_exact:
  assumes "arrives s (v @ rest)" and "length v = n"
  shows "\<exists>s'. io_read B n s = Some (s', Some (Ok v)) \<and> arrives s' rest \<and> same_control s s'
    \<and> sequence_id s' = sequence_id s"
proof -
  obtain rd cs where "try_read (read_buffered_cb B n) (in_buf s) (in_chunks s) = Some (rd, cs, Some (Ok v))"
      "rd @ concat cs = rest" "[] \<notin> set cs"
    using exact.try_read_frame [OF assms(2), of "in_chunks s" "in_buf s" rest] assms(1)
    by (auto simp: arrives_def)
  then show ?thesis by (simp add: io_read_def read_buffered_def arrives_def same_control_def)
qed

lemma recv_part:
  assumes "arrives s (next_header (length v) q @ v @ rest)" and "length v \<le> MAX_PACKET"
  shows "\<exists>s'. recv_packet_part B s = Some (s', Some (Ok v)) \<and> arrives s' rest \<and> same_control s s'
    \<and> sequence_id s' = q + 1"
proof -
  obtain s1 where s1: "io_read B 4 s = Some (s1, Some (Ok (next_header (length v) q)))"
      "arrives s1 (v @ rest)" "same_control s s1"
    using io_read_exact [OF assms(1)] by auto
  let ?s = "s1\<lparr>sequence_id := q + 1\<rparr>"
  have "arrives ?s (v @ rest)" using s1(2) by (simp add: arrives_def)
  from io_read_exact [OF this refl]
  obtain s2 where s2: "io_read B (length v) ?s = Some (s2, Some (Ok v))" "arrives s2 rest"
      "same_control ?s s2" "sequence_id s2 = sequence_id ?s" by blast
  have "get_uint_le B 3 (next_header (length v) q) = Ok (from_le_bytes (take 3 (nat_le 4 (length v))), [q])"
    by (simp add: get_uint_le_def next_header_def)
  with s1 s2 assms(2) show ?thesis
    by (simp add: recv_packet_part_def header_length same_control_def)
qed

lemma recv_rest_chunks:
  "arrives s (fst (write_chunks q v) @ rest) \<Longrightarrow>
   \<exists>s'. recv_rest B acc s = Some (s', Some (Ok (acc @ v))) \<and> arrives s' rest \<and> same_control s s'
     \<and> sequence_id s' = snd (write_chunks q v)"
proof (induction q v arbitrary: s acc rule: write_chunks.induct)
  case (1 q v)
  show ?case
  proof (cases "MAX_PACKET \<le> length v")
    case True
    let ?v = "drop MAX_PACKET v"
    note w = write_chunks_big [OF True, of q]
    have len: "length (take MAX_PACKET v) = MAX_PACKET" using True by simp
    have "arrives s (next_header (length (take MAX_PACKET v)) q @ take MAX_PACKET v
        @ fst (write_chunks (q + 1) ?v) @ rest)"
      using "1.prems" w len by simp
    from recv_part [OF this] len
    obtain s1 where s1: "recv_packet_part B s = Some (s1, Some (Ok (take MAX_PACKET v)))"
        "arrives s1 (fst (write_chunks (q + 1) ?v) @ rest)" "same_control s s1" by auto
    from "1.IH" [OF True s1(2), of "acc @ take MAX_PACKET v"]
    obtain s2 where s2: "recv_rest B (acc @ take MAX_PACKET v) s1 = Some (s2, Some (Ok ((acc @ take MAX_PACKET v) @ ?v)))"
        "arrives s2 rest" "same_control s1 s2" "sequence_id s2 = snd (write_chunks (q + 1) ?v)" by blast
    have "recv_rest B acc s = Some (s2, Some (Ok (acc @ v)))"
      using s1(1) s2(1) len by (subst recv_rest.simps) (simp del: length_take)
    with s2 w same_control_trans [OF s1(3)] show ?thesis by simp
  next
    case False
    then have w: "write_chunks q v = (next_header (length v) q @ v, q + 1)" by (simp add: write_chunks_small)
    then obtain s1 where "recv_packet_part B s = Some (s1, Some (Ok v))" "arrives s1 rest" "same_control s s1"
        "sequence_id s1 = q + 1"
      using recv_part [of s v q rest] "1.prems" False by auto
    with False w show ?thesis by (subst recv_rest.simps) simp
  qed
qed

lemma recv_packet_payload:
  assumes "arrives s (fst (write_chunks q v) @ rest)" and "v \<noteq> []"
  shows "\<exists>s'. arrives s' rest \<and> same_control s s' \<and> sequence_id s' = snd (write_chunks q v)
    \<and> recv_packet B s =
      (if hd v = 0xff
       then io_ret (wire_error B (my_capabilities s') v) (s'\<lparr>waiting_q := tl (waiting_q s')\<rparr>)
       else io_ret (Ok v) s')"
proof (cases "MAX_PACKET \<le> length v")
  case True
  let ?t = "take MAX_PACKET v" and ?v = "drop MAX_PACKET v"
  note w = write_chunks_big [OF True, of q]
  have len: "length ?t = MAX_PACKET" using True by simp
  have "arrives s (next_header (length ?t) q @ ?t @ fst (write_chunks (q + 1) ?v) @ rest)"
    using assms(1) w len by simp
  from recv_part [OF this] len
  obtain s1 where s1: "recv_packet_part B s = Some (s1, Some (Ok ?t))"
      "arrives s1 (fst (write_chunks (q + 1) ?v) @ rest)" "same_control s s1" by auto
  obtain s2 where s2: "recv_rest B ?t s1 = Some (s2, Some (Ok v))" "arrives s2 rest" "same_control s1 s2"
      "sequence_id s2 = snd (write_chunks (q + 1) ?v)"
    using recv_rest_chunks [OF s1(2), of ?t] by auto
  have "recv_packet B s =
      (if hd v = 0xff
       then io_ret (wire_error B (my_capabilities s2) v) (s2\<lparr>waiting_q := tl (waiting_q s2)\<rparr>)
       else io_ret (Ok v) s2)"
    using s1(1) s2(1) len assms(2) by (simp add: recv_packet_def wire_error_def)
  with s2 w same_control_trans [OF s1(3) s2(3)] show ?thesis by (intro exI [of _ s2]) simp
next
  case False
  then have w: "write_chunks q v = (next_header (length v) q @ v, q + 1)" by (simp add: write_chunks_small)
  then obtain s1 where s1: "recv_packet_part B s = Some (s1, Some (Ok v))" "arrives s1 rest"
      "same_control s s1" "sequence_id s1 = q + 1"
    using recv_part [of s v q rest] assms(1) False by auto
  with False w assms show ?thesis by (intro exI [of _ s1]) (simp add: recv_packet_def wire_error_def)
qed

lemma recv_packet_chunks:
  assumes "arrives s (fst (write_chunks q v) @ rest)" and "v \<noteq> []" and "hd v \<noteq> 0xff"
  shows "\<exists>s'. recv_packet B s = Some (s', Some (Ok v)) \<and> arrives s' rest \<and> same_control s s'
     \<and> sequence_id s' = snd (write_chunks q v)"
  using recv_packet_payload [OF assms(1,2)] assms(3) by (auto simp: io_ret_def)

end

subsection \<open>Draining responses\<close>

text \<open>The packets with which a server answers one statement: a sequence of results, all but the
  last flagged with \<^verbatim>\<open>SERVER_MORE_RESULTS_EXISTS\<close>.  The last one may be an \<^verbatim>\<open>ERR\<close> packet in place of
  a result (\<open>ResultErr\<close>) or after some rows of one (\<open>ResultBroken\<close>).\<close>

datatype my_result =
    ResultOk u64 u64 u16 u16
  | ResultSet "bytes list" "bytes list" u16 u16
  | ResultErr bytes
  | ResultBroken "bytes list" "bytes list" bytes

definition ok_bytes :: "u8 \<Rightarrow> u64 \<Rightarrow> u64 \<Rightarrow> u16 \<Rightarrow> u16 \<Rightarrow> bytes" where
  "ok_bytes h rows ins st ws =
     [h] @ put_uint_lenenc [] rows @ put_uint_lenenc [] ins @ to_le_bytes st @ to_le_bytes ws"

definition eof_bytes :: "u16 \<Rightarrow> u16 \<Rightarrow> bytes" where
  "eof_bytes st ws = [0xfe] @ to_le_bytes ws @ to_le_bytes st"

definition end_bytes :: "capabilities \<Rightarrow> u16 \<Rightarrow> u16 \<Rightarrow> bytes" where
  "end_bytes caps st ws = (if contains caps DEPRECATE_EOF then ok_bytes 0xfe 0 0 st ws else eof_bytes st ws)"

definition metadata_packets :: "capabilities \<Rightarrow> bytes list \<Rightarrow> bytes list" where
  "metadata_packets caps cols =
     put_uint_lenenc [] (of_nat (length cols)) # cols
     @ (if contains caps DEPRECATE_EOF then [] else [eof_bytes 0 0])"

text \<open>The packets of a result that are still to come when the queue says \<open>WResult\<close> (all of them) or
  \<open>WRow\<close> (those after the column metadata).\<close>

primrec result_packets :: "capabilities \<Rightarrow> waiting \<Rightarrow> my_result \<Rightarrow> bytes list" where
  "result_packets caps w (ResultOk rows ins st ws) = [ok_bytes 0 rows ins st ws]"
| "result_packets caps w (ResultSet cols rows st ws) =
     (if w = WResult then metadata_packets caps cols else []) @ rows @ [end_bytes caps st ws]"
| "result_packets caps w (ResultErr e) = [e]"
| "result_packets caps w (ResultBroken cols rows e) =
     (if w = WResult then metadata_packets caps cols else []) @ rows @ [e]"

primrec result_error :: "my_result \<Rightarrow> bytes option" where
  "result_error (ResultOk rows ins st ws) = None"
| "result_error (ResultSet cols rows st ws) = None"
| "result_error (ResultErr e) = Some e"
| "result_error (ResultBroken cols rows e) = Some e"

primrec has_more :: "my_result \<Rightarrow> bool" where
  "has_more (ResultOk rows ins st ws) =
     contains (status_from_bits_truncate st) SERVER_MORE_RESULTS_EXISTS"
| "has_more (ResultSet cols rows st ws) =
     contains (status_from_bits_truncate st) SERVER_MORE_RESULTS_EXISTS"
| "has_more (ResultErr e) = False"
| "has_more (ResultBroken cols rows e) = False"

definition data_packet :: "bytes \<Rightarrow> bool" where
  "data_packet p \<longleftrightarrow> p \<noteq> [] \<and> hd p \<noteq> 0xff \<and> \<not> is_eof p"

definition valid_columns :: "bytes list \<Rightarrow> bool" where
  "valid_columns cols \<longleftrightarrow> cols \<noteq> [] \<and> length cols < 2 ^ 64 \<and> list_all data_packet cols"

definition err_packet :: "bytes \<Rightarrow> bool" where
  "err_packet p \<longleftrightarrow> p \<noteq> [] \<and> hd p = 0xff"

primrec valid_result :: "waiting \<Rightarrow> my_result \<Rightarrow> bool" where
  "valid_result w (ResultOk rows ins st ws) = (w = WResult)"
| "valid_result w (ResultSet cols rows st ws) = (valid_columns cols \<and> list_all data_packet rows)"
| "valid_result w (ResultErr e) = (w = WResult \<and> err_packet e)"
| "valid_result w (ResultBroken cols rows e) =
     (valid_columns cols \<and> list_all data_packet rows \<and> err_packet e)"

text \<open>An entry of the queue of pending results with the response it stands for.  An entry is
  \<open>WRow\<close> when a fetch was dropped among the rows of the response's first result.\<close>

type_synonym pending = "waiting \<times> my_result list"

fun valid_pending :: "pending \<Rightarrow> bool" where
  "valid_pending (w, []) = False"
| "valid_pending (w, [r]) = (valid_result w r \<and> \<not> has_more r)"
| "valid_pending (w, r # rs) = (valid_result w r \<and> has_more r \<and> valid_pending (WResult, rs))"

fun pending_packets :: "capabilities \<Rightarrow> pending \<Rightarrow> bytes list" where
  "pending_packets caps (w, []) = []"
| "pending_packets caps (w, r # rs) = result_packets caps w r @ pending_packets caps (WResult, rs)"

definition pending_error :: "pending \<Rightarrow> bytes option" where
  "pending_error p = result_error (last (snd p))"

text \<open>What waiting comes to: it reads response after response, and stops with the error of the first
  that has one, leaving those behind it.\<close>

fun drain_outcome :: "bytes_api \<Rightarrow> capabilities \<Rightarrow> pending list \<Rightarrow> unit result \<times> pending list" where
  "drain_outcome B caps [] = (Ok (), [])"
| "drain_outcome B caps (p # ps) =
     (case pending_error p of
        None \<Rightarrow> drain_outcome B caps ps
      | Some e \<Rightarrow> (wire_error B caps e, ps))"

definition queued :: "my_stream \<Rightarrow> bytes list \<Rightarrow> bytes \<Rightarrow> bool" where
  "queued s ps rest \<longleftrightarrow> (\<exists>qs. length qs = length ps
     \<and> arrives s (concat (map (\<lambda>(q, p). fst (write_chunks q p)) (zip qs ps)) @ rest))"

lemma queued_waiting [simp]: "queued (s\<lparr>waiting_q := w\<rparr>) ps rest = queued s ps rest"
  by (simp add: queued_def arrives_def)

definition steps_to :: "bytes_api \<Rightarrow> my_stream \<Rightarrow> my_stream \<Rightarrow> bool" where
  "steps_to B s s' \<longleftrightarrow> waiting_q s \<noteq> [] \<and> wait_turn B s = Some (s', Some (Ok ()))"

lemma drain_step: "steps_to B s s' \<Longrightarrow> drain B s = drain B s'"
  by (subst drain.simps) (simp add: steps_to_def)

lemma drain_steps: "(steps_to B)\<^sup>*\<^sup>* s s' \<Longrightarrow> drain B s = drain B s'"
  by (induction rule: rtranclp_induct) (simp_all add: drain_step)

lemma drain_error:
  assumes "waiting_q s \<noteq> []" and "wait_turn B s = Some (s', Some (wire_error B caps e))"
  shows "drain B s = Some (s', Some (wire_error B caps e))"
  using assms by (subst drain.simps) (simp split: result.split)

lemma drain_done: "waiting_q s = [] \<Longrightarrow> drain B s = Some (s, Some (Ok ()))"
  by (subst drain.simps) simp

context bytes_contract
begin

lemma recv_queued:
  assumes "queued s (p # ps) rest" and "p \<noteq> []" and "hd p \<noteq> 0xff"
  shows "\<exists>s'. recv_packet B s = Some (s', Some (Ok p)) \<and> queued s' ps rest \<and> same_control s s'"
proof -
  from assms(1) obtain q qs where "length qs = length ps"
      "arrives s (fst (write_chunks q p) @ concat (map (\<lambda>(q, p). fst (write_chunks q p)) (zip qs ps)) @ rest)"
    by (auto simp: queued_def length_Suc_conv)
  with recv_packet_chunks [OF this(2) assms(2,3)] show ?thesis by (auto simp: queued_def)
qed

lemma recv_error:
  assumes "queued s (e # ps) rest" and "err_packet e"
  shows "\<exists>s'. recv_packet B s = io_ret (wire_error B (my_capabilities s) e) s' \<and> queued s' ps rest
    \<and> waiting_q s' = tl (waiting_q s) \<and> my_capabilities s' = my_capabilities s"
proof -
  from assms(1) obtain q qs where qs: "length qs = length ps"
      "arrives s (fst (write_chunks q e) @ concat (map (\<lambda>(q, p). fst (write_chunks q p)) (zip qs ps)) @ rest)"
    by (auto simp: queued_def length_Suc_conv)
  have e: "e \<noteq> []" "hd e = 0xff" using assms(2) by (simp_all add: err_packet_def)
  from recv_packet_payload [OF qs(2) e(1)] e(2)
  obtain s1 where s1: "arrives s1 (concat (map (\<lambda>(q, p). fst (write_chunks q p)) (zip qs ps)) @ rest)"
      "same_control s s1"
      "recv_packet B s =
        io_ret (wire_error B (my_capabilities s1) e) (s1\<lparr>waiting_q := tl (waiting_q s1)\<rparr>)" by auto
  have "queued s1 ps rest" using s1(1) qs(1) by (auto simp: queued_def)
  with s1(2,3) show ?thesis
    by (intro exI [of _ "s1\<lparr>waiting_q := tl (waiting_q s1)\<rparr>"]) (simp add: same_control_def)
qed

lemma turn_error:
  assumes "queued s (e # ps) rest" and "err_packet e" and "waiting_q s = w # ws"
  shows "\<exists>s'. drain B s = Some (s', Some (wire_error B (my_capabilities s) e)) \<and> queued s' ps rest
    \<and> waiting_q s' = ws \<and> my_capabilities s' = my_capabilities s"
proof -
  obtain s1 where s1: "recv_packet B s = io_ret (wire_error B (my_capabilities s) e) s1" "queued s1 ps rest"
      "waiting_q s1 = tl (waiting_q s)" "my_capabilities s1 = my_capabilities s"
    using recv_error [OF assms(1,2)] by blast
  have "wait_turn B s = Some (s1, Some (wire_error B (my_capabilities s) e))"
    using s1(1) assms(3) by (cases w) (simp_all add: wait_turn_def, simp_all add: io_ret_def)
  from drain_error [OF _ this] s1 assms(3) show ?thesis by simp
qed

lemma skip_queued:
  "queued s (ps @ qs) rest \<Longrightarrow> list_all data_packet ps \<Longrightarrow>
   \<exists>s'. skip_packets B (length ps) s = Some (s', Some (Ok ())) \<and> queued s' qs rest \<and> same_control s s'"
proof (induction ps arbitrary: s)
  case (Cons p ps)
  then obtain s1 where s1: "recv_packet B s = Some (s1, Some (Ok p))" "queued s1 (ps @ qs) rest" "same_control s s1"
    using recv_queued [of s p "ps @ qs" rest] by (auto simp: data_packet_def)
  with Cons.IH [OF s1(2)] Cons.prems(2) same_control_trans [OF s1(3)] show ?case by auto
qed (simp add: io_ret_def)

lemma ok_decode: "h = 0 \<or> h = 0xfe \<Longrightarrow> ok_packet_decode B (ok_bytes h rows ins st ws) =
    Ok \<lparr>affected_rows = rows, last_insert_id = ins, ok_status = status_from_bits_truncate st, ok_warnings = ws\<rparr>"
  using get_u16_le_append [of ws "[]"] by (auto simp: ok_packet_decode_def ok_bytes_def)

lemma eof_decode: "eof_packet_decode B (eof_bytes st ws) =
    Ok \<lparr>eof_warnings = ws, eof_status = status_from_bits_truncate st\<rparr>"
  using get_u16_le_append [of st "[]"] by (simp add: eof_packet_decode_def eof_bytes_def)

lemma end_decode: "packet_eof B caps (end_bytes caps st ws) =
    Ok \<lparr>eof_warnings = ws, eof_status = status_from_bits_truncate st\<rparr>"
  by (simp add: packet_eof_def end_bytes_def ok_decode eof_decode)

lemma end_is_eof: "is_eof (end_bytes caps st ws)" "end_bytes caps st ws \<noteq> []" "hd (end_bytes caps st ws) \<noteq> 0xff"
  by (simp_all add: is_eof_def end_bytes_def ok_bytes_def eof_bytes_def put_uint_lenenc_def)

lemma drain_ok:
  assumes "queued s (ok_bytes 0 rows ins st ws # ps) rest" and "waiting_q s = WResult # w"
  shows "\<exists>s'. steps_to B s s' \<and> queued s' ps rest \<and> my_capabilities s' = my_capabilities s
    \<and> waiting_q s' = (if has_more (ResultOk rows ins st ws) then WResult # w else w)"
proof -
  obtain s1 where "recv_packet B s = Some (s1, Some (Ok (ok_bytes 0 rows ins st ws)))" "queued s1 ps rest"
      "same_control s s1"
    using recv_queued [OF assms(1)] by (auto simp: ok_bytes_def)
  with assms(2) ok_decode [of 0 rows ins st ws] show ?thesis
    by (auto simp: steps_to_def wait_turn_def has_more_def same_control_def io_ret_def)
      (auto simp: ok_bytes_def)
qed

lemma drain_row:
  assumes "queued s (p # ps) rest" and "data_packet p" and "waiting_q s = WRow # w"
  shows "\<exists>s'. steps_to B s s' \<and> queued s' ps rest \<and> same_control s s'"
proof -
  obtain s1 where "recv_packet B s = Some (s1, Some (Ok p))" "queued s1 ps rest" "same_control s s1"
    using recv_queued [OF assms(1)] assms(2) by (auto simp: data_packet_def)
  with assms show ?thesis by (auto simp: steps_to_def wait_turn_def data_packet_def io_ret_def)
qed

lemma drain_end:
  assumes "queued s (end_bytes (my_capabilities s) st ws # ps) rest" and "waiting_q s = WRow # w"
  shows "\<exists>s'. steps_to B s s' \<and> queued s' ps rest \<and> my_capabilities s' = my_capabilities s
    \<and> waiting_q s' = (if contains (status_from_bits_truncate st) SERVER_MORE_RESULTS_EXISTS then WResult # w else w)"
proof -
  let ?p = "end_bytes (my_capabilities s) st ws"
  obtain s1 where s1: "recv_packet B s = Some (s1, Some (Ok ?p))" "queued s1 ps rest" "same_control s s1"
    using recv_queued [OF assms(1) end_is_eof(2,3)] by blast
  have "packet_eof B (my_capabilities s1) ?p = Ok \<lparr>eof_warnings = ws, eof_status = status_from_bits_truncate st\<rparr>"
    using end_decode s1(3) by (simp add: same_control_def)
  with s1 assms(2) show ?thesis
    by (auto simp: steps_to_def wait_turn_def end_is_eof same_control_def io_ret_def)
qed

lemma drain_rows:
  assumes "queued s (rows @ ps) rest" and "list_all data_packet rows" and "waiting_q s = WRow # w"
  shows "\<exists>s'. (steps_to B)\<^sup>*\<^sup>* s s' \<and> queued s' ps rest \<and> same_control s s'"
  using assms
proof (induction rows arbitrary: s)
  case Nil
  then show ?case by auto
next
  case (Cons p rows)
  obtain s1 where s1: "steps_to B s s1" "queued s1 (rows @ ps) rest" "same_control s s1"
    using drain_row [of s p "rows @ ps" rest w] Cons.prems by auto
  then obtain s2 where "(steps_to B)\<^sup>*\<^sup>* s1 s2" "queued s2 ps rest" "same_control s1 s2"
    using Cons.IH [of s1] Cons.prems by (auto simp: same_control_def)
  with s1 same_control_trans [OF s1(3)] show ?case by (meson converse_rtranclp_into_rtranclp)
qed

lemma drain_metadata:
  assumes "queued s (metadata_packets (my_capabilities s) cols @ ps) rest" and "valid_columns cols"
    and "waiting_q s = WResult # w"
  shows "\<exists>s'. steps_to B s s' \<and> queued s' ps rest \<and> my_capabilities s' = my_capabilities s \<and> waiting_q s' = WRow # w"
proof -
  let ?n = "of_nat (length cols) :: u64" and ?d = "contains (my_capabilities s) DEPRECATE_EOF"
  let ?p = "put_uint_lenenc [] ?n" and ?e = "if ?d then [] else [eof_bytes 0 0]"
  have cols: "cols \<noteq> []" "length cols < 2 ^ 64" "list_all data_packet cols"
    using assms(2) by (simp_all add: valid_columns_def)
  have n: "unat ?n = length cols" using cols(2) by (simp add: unat_of_nat)
  then have "?n \<noteq> 0" using cols(1) by (metis length_greater_0_conv less_irrefl unsigned_0)
  note hd_p = hd_put_uint_lenenc [of ?n] hd_put_uint_lenenc(4) [OF this]
  have "queued s (?p # cols @ ?e @ ps) rest" using assms(1) by (simp add: metadata_packets_def)
  then obtain s1 where s1: "recv_packet B s = Some (s1, Some (Ok ?p))" "queued s1 (cols @ ?e @ ps) rest" "same_control s s1"
    using recv_queued hd_p by blast
  let ?s1 = "s1\<lparr>waiting_q := WRow # w\<rparr>"
  obtain s2 where s2: "skip_packets B (length cols) ?s1 = Some (s2, Some (Ok ()))" "queued s2 (?e @ ps) rest"
      "same_control ?s1 s2"
    using skip_queued [of ?s1 cols "?e @ ps" rest] s1(2) cols(3) by auto
  have caps: "my_capabilities s2 = my_capabilities s" using s1(3) s2(3) by (simp add: same_control_def)
  have "\<exists>s3. maybe_recv_eof B s2 = Some (s3, Some (Ok ())) \<and> queued s3 ps rest \<and> same_control s2 s3"
  proof (cases ?d)
    case True
    with s2(2) caps show ?thesis by (simp add: maybe_recv_eof_def io_ret_def)
  next
    case False
    then have "queued s2 (eof_bytes 0 0 # ps) rest" using s2(2) by simp
    then obtain s3 where "recv_packet B s2 = Some (s3, Some (Ok (eof_bytes 0 0)))" "queued s3 ps rest" "same_control s2 s3"
      using recv_queued [of s2 "eof_bytes 0 0" ps rest] by (auto simp: eof_bytes_def)
    with False caps show ?thesis by (simp add: maybe_recv_eof_def eof_decode io_ret_def)
  qed
  then obtain s3 where s3: "maybe_recv_eof B s2 = Some (s3, Some (Ok ()))" "queued s3 ps rest" "same_control s2 s3"
    by blast
  have "get_uint_lenenc B ?p = Ok (?n, [])" using get_put_uint_lenenc [of ?n "[]"] by simp
  then have "skip_result_metadata B ?p ?s1 = Some (s3, Some (Ok ()))"
    using s2(1) s3(1) n by (simp add: skip_result_metadata_def)
  then have "steps_to B s s3"
    using s1(1,3) assms(3) hd_p by (simp add: steps_to_def wait_turn_def same_control_def)
  with s2(3) s3 caps show ?thesis by (auto simp: same_control_def)
qed

lemma drain_to_rows:
  assumes "queued s ((if w = WResult then metadata_packets (my_capabilities s) cols else []) @ rows @ ps) rest"
    and "valid_columns cols" and "list_all data_packet rows" and "waiting_q s = w # ws"
  shows "\<exists>s'. (steps_to B)\<^sup>*\<^sup>* s s' \<and> queued s' ps rest \<and> my_capabilities s' = my_capabilities s
    \<and> waiting_q s' = WRow # ws"
proof -
  obtain s1 where s1: "(steps_to B)\<^sup>*\<^sup>* s s1" "queued s1 (rows @ ps) rest" "my_capabilities s1 = my_capabilities s"
      "waiting_q s1 = WRow # ws"
  proof (cases w)
    case WResult
    then show ?thesis using that drain_metadata [of s cols "rows @ ps" rest ws] assms by auto
  next
    case WRow
    then show ?thesis using that [of s] assms by auto
  qed
  then obtain s2 where "(steps_to B)\<^sup>*\<^sup>* s1 s2" "queued s2 ps rest" "same_control s1 s2"
    using drain_rows [of s1 rows ps rest ws] assms(3) by blast
  with s1 show ?thesis by (auto simp: same_control_def intro: rtranclp_trans)
qed

lemma drain_result:
  assumes "queued s (result_packets (my_capabilities s) w r @ ps) rest" and "valid_result w r"
    and "result_error r = None" and "waiting_q s = w # ws"
  shows "\<exists>s'. (steps_to B)\<^sup>*\<^sup>* s s' \<and> queued s' ps rest \<and> my_capabilities s' = my_capabilities s
    \<and> waiting_q s' = (if has_more r then WResult # ws else ws)"
proof (cases r)
  case (ResultOk rows ins st wn)
  then show ?thesis using drain_ok [of s rows ins st wn ps rest ws] assms by auto
next
  case (ResultSet cols rows st wn)
  obtain s1 where s1: "(steps_to B)\<^sup>*\<^sup>* s s1" "queued s1 (end_bytes (my_capabilities s) st wn # ps) rest"
      "my_capabilities s1 = my_capabilities s" "waiting_q s1 = WRow # ws"
    using drain_to_rows [of s w cols rows "end_bytes (my_capabilities s) st wn # ps" rest ws] assms ResultSet
    by auto
  have "has_more r = contains (status_from_bits_truncate st) SERVER_MORE_RESULTS_EXISTS"
    using ResultSet by simp
  with drain_end [of s1 st wn ps rest ws] s1(2-4)
  obtain s2 where s2: "steps_to B s1 s2" "queued s2 ps rest" "my_capabilities s2 = my_capabilities s"
      "waiting_q s2 = (if has_more r then WResult # ws else ws)" by metis
  have "(steps_to B)\<^sup>*\<^sup>* s s2" using s1(1) s2(1) by (rule rtranclp.rtrancl_into_rtrancl)
  with s2 show ?thesis by blast
qed (use assms in simp_all)

lemma drain_failing:
  assumes "queued s (result_packets (my_capabilities s) w r @ ps) rest" and "valid_result w r"
    and "result_error r = Some e" and "waiting_q s = w # ws"
  shows "\<exists>s'. drain B s = Some (s', Some (wire_error B (my_capabilities s) e)) \<and> queued s' ps rest
    \<and> waiting_q s' = ws \<and> my_capabilities s' = my_capabilities s"
proof (cases r)
  case (ResultErr e')
  then show ?thesis using turn_error [of s e ps rest w ws] assms by auto
next
  case (ResultBroken cols rows e')
  obtain s1 where s1: "(steps_to B)\<^sup>*\<^sup>* s s1" "queued s1 (e # ps) rest"
      "my_capabilities s1 = my_capabilities s" "waiting_q s1 = WRow # ws"
    using drain_to_rows [of s w cols rows "e # ps" rest ws] assms ResultBroken by auto
  with turn_error [of s1 e ps rest WRow ws] drain_steps [OF s1(1)] assms ResultBroken show ?thesis by auto
qed (use assms in simp_all)

lemma drain_pending:
  assumes "queued s (pending_packets (my_capabilities s) p @ ps) rest" and "valid_pending p"
    and "waiting_q s = fst p # ws"
  shows "\<exists>s'. queued s' ps rest \<and> my_capabilities s' = my_capabilities s \<and> waiting_q s' = ws
    \<and> drain B s = (case pending_error p of
        None \<Rightarrow> drain B s'
      | Some e \<Rightarrow> Some (s', Some (wire_error B (my_capabilities s) e)))"
  using assms
proof (induction p arbitrary: s rule: valid_pending.induct)
  case (2 w r)
  show ?case
  proof (cases "result_error r")
    case None
    then show ?thesis using drain_result [of s w r ps rest ws] 2 drain_steps
      by (fastforce simp: pending_error_def)
  next
    case (Some e)
    then show ?thesis using drain_failing [of s w r ps rest e ws] 2 by (auto simp: pending_error_def)
  qed
next
  case (3 w r r' rs)
  have "result_error r = None" using "3.prems"(2) by (cases r) auto
  then obtain s1 where s1: "(steps_to B)\<^sup>*\<^sup>* s s1"
      "queued s1 (pending_packets (my_capabilities s) (WResult, r' # rs) @ ps) rest"
      "my_capabilities s1 = my_capabilities s" "waiting_q s1 = WResult # ws"
    using drain_result [of s w r "pending_packets (my_capabilities s) (WResult, r' # rs) @ ps" rest ws] 3
    by auto
  have "pending_error (w, r # r' # rs) = pending_error (WResult, r' # rs)" by (simp add: pending_error_def)
  with "3.IH" [of s1, unfolded s1(3)] s1(2,4) "3.prems"(2) drain_steps [OF s1(1)] show ?case by simp
qed simp

lemma drain_all:
  assumes "queued s (concat (map (pending_packets (my_capabilities s)) pend)) rest"
    and "list_all valid_pending pend" and "waiting_q s = map fst pend"
    and "drain_outcome B (my_capabilities s) pend = (r, left)"
  shows "\<exists>s'. drain B s = Some (s', Some r) \<and> waiting_q s' = map fst left
    \<and> queued s' (concat (map (pending_packets (my_capabilities s)) left)) rest"
  using assms
proof (induction pend arbitrary: s)
  case Nil
  then show ?case by (auto simp: drain_done)
next
  case (Cons p pend)
  obtain s1 where s1: "queued s1 (concat (map (pending_packets (my_capabilities s)) pend)) rest"
      "my_capabilities s1 = my_capabilities s" "waiting_q s1 = map fst pend"
      "drain B s = (case pending_error p of
        None \<Rightarrow> drain B s1
      | Some e \<Rightarrow> Some (s1, Some (wire_error B (my_capabilities s) e)))"
    using drain_pending [of s p "concat (map (pending_packets (my_capabilities s)) pend)" rest "map fst pend"]
      Cons.prems by auto
  then show ?case using Cons.IH [of s1] Cons.prems by (cases "pending_error p") auto
qed

lemma header_lost:
  assumes "in_buf s = []" and "in_chunks s = [next_header n q]" and "0 < n" and "n \<le> MAX_PACKET"
  shows "recv_packet B s = Some (s\<lparr>in_buf := [], in_chunks := [], sequence_id := q + 1\<rparr>, None)"
proof -
  have ne: "next_header n q \<noteq> []" by (simp add: next_header_def)
  have 1: "io_read B 4 s = Some (s\<lparr>in_buf := [], in_chunks := []\<rparr>, Some (Ok (next_header n q)))"
    using assms(1,2) ne
    by (simp add: io_read_def read_buffered_def)
      (subst try_read.simps, simp add: read_buffered_cb_def fill_simps,
       subst try_read.simps, simp add: read_buffered_cb_def take_front_eq)
  have 2: "io_read B n t = Some (t, None)" if "in_buf t = []" "in_chunks t = []" for t
    using that assms(3)
    by (cases t) (simp add: io_read_def read_buffered_def,
      subst try_read.simps, simp add: read_buffered_cb_def fill_simps)
  have "get_uint_le B 3 (next_header n q) = Ok (from_le_bytes (take 3 (nat_le 4 n)), [q])"
    by (simp add: get_uint_le_def next_header_def)
  then show ?thesis using assms(4)
    by (simp add: recv_packet_def recv_packet_part_def 1 2 header_length)
qed

end

text \<open>C7. A payload of any length, cut into packets by the writer and into arbitrary chunks by the
  network, is received whole, with what follows it left in place and the sequence number where
  the writer left it.\<close>

theorem mysql_packet_roundtrip:
  assumes "bytes_contract B" and "appends encode payload (Ok ())" and "payload \<noteq> []" and "hd payload \<noteq> 0xff"
    and "packet_encode encode seq [] = (out, seq', r)" and "arrives s (out @ rest)"
  shows "\<exists>s'. recv_packet B s = Some (s', Some (Ok payload)) \<and> arrives s' rest \<and> sequence_id s' = seq'"
  using bytes_contract.recv_packet_chunks [OF assms(1), of s seq payload rest] assms(2-6)
  by (auto simp: packet_encode_chunks)

definition demo_stream :: "bytes list \<Rightarrow> waiting list \<Rightarrow> my_stream" where
  "demo_stream cs w = \<lparr>in_buf = [], in_chunks = cs, sequence_id = 0, waiting_q = w, my_capabilities = DEPRECATE_EOF\<rparr>"

theorem mysql_packet_roundtrip_witness:
  "\<exists>s'. recv_packet list_bytes (demo_stream [[3, 0], [0, 0, 1], [2, 3, 9]] []) = Some (s', Some (Ok [1, 2, 3]))
     \<and> arrives s' [9] \<and> sequence_id s' = 1"
proof -
  have "appends (\<lambda>b. (b @ [1, 2, 3], Ok ())) [1, 2, 3] (Ok ())" by (simp add: appends_def)
  moreover have "packet_encode (\<lambda>b. (b @ [1, 2, 3], Ok ())) 0 [] = ([3, 0, 0, 0, 1, 2, 3], 1, Ok ())"
    by (simp add: packet_encode_def next_header_def wire_simps)
  moreover have "arrives (demo_stream [[3, 0], [0, 0, 1], [2, 3, 9]] []) ([3, 0, 0, 0, 1, 2, 3] @ [9])"
    by (simp add: arrives_def demo_stream_def)
  ultimately show ?thesis
    using mysql_packet_roundtrip [OF list_cursor.bytes_contract_axioms] by fastforce
qed

text \<open>C10. Waiting until the connection is ready reads exactly the responses it owes.  The queue
  has one entry per response: \<open>WResult\<close>, or \<open>WRow\<close> where a fetch was dropped among the rows of a result;
  the responses may hold several results, result sets with any rows under either end-of-rows
  convention, and end in an \<^verbatim>\<open>ERR\<close> packet, in place of a result or among its rows.  If none has an
  error, waiting succeeds with nothing pending and the next byte unread.  Otherwise it returns the first
  error and stops behind it: exactly the responses behind the failed one are pending, none of their
  packets read.\<close>

theorem mysql_wait_drains:
  assumes "bytes_contract B" and "list_all valid_pending pend" and "waiting_q s = map fst pend"
    and "queued s (concat (map (pending_packets (my_capabilities s)) pend)) rest"
    and "drain_outcome B (my_capabilities s) pend = (r, left)"
  shows "\<exists>s'. drain B s = Some (s', Some r) \<and> waiting_q s' = map fst left
    \<and> queued s' (concat (map (pending_packets (my_capabilities s)) left)) rest
    \<and> (list_all (\<lambda>p. pending_error p = None) pend \<longrightarrow> r = Ok () \<and> waiting_q s' = [] \<and> arrives s' rest)"
proof -
  have "list_all (\<lambda>p. pending_error p = None) pend \<Longrightarrow> drain_outcome B caps pend = (Ok (), [])" for caps
    by (induction pend) simp_all
  with bytes_contract.drain_all [OF assms(1,4,2,3,5)] assms(5) show ?thesis
    by (fastforce simp: queued_def)
qed

text \<open>An \<^verbatim>\<open>OK\<close>, then the rest of a dropped fetch that fails after one row, then an \<^verbatim>\<open>OK\<close> that stays
  pending.\<close>

theorem mysql_wait_drains_witness:
  "\<exists>s'. drain list_bytes (demo_stream
        [[7, 0, 0, 1, 0, 0, 0, 2, 0, 0, 0, 1, 0, 0], [1, 65, 3, 0, 0, 2, 255, 1, 2],
         [7, 0, 0, 1, 0, 0, 0, 2, 0, 0, 0, 55]] [WResult, WRow, WResult]) =
      Some (s', Some (wire_error list_bytes DEPRECATE_EOF [255, 1, 2]))
    \<and> waiting_q s' = [WResult] \<and> queued s' [[0, 0, 0, 2, 0, 0, 0]] [55]"
proof -
  let ?s = "demo_stream [[7, 0, 0, 1, 0, 0, 0, 2, 0, 0, 0, 1, 0, 0], [1, 65, 3, 0, 0, 2, 255, 1, 2],
     [7, 0, 0, 1, 0, 0, 0, 2, 0, 0, 0, 55]] [WResult, WRow, WResult]"
  let ?ok = "(WResult, [ResultOk 0 0 2 0])"
  let ?pend = "[?ok, (WRow, [ResultBroken [[7]] [[65]] [255, 1, 2]]), ?ok]"
  have p: "ok_bytes 0 0 0 2 0 = [0, 0, 0, 2, 0, 0, 0]"
    by (simp add: ok_bytes_def put_uint_lenenc_def to_le_bytes_def wire_simps)
  have "list_all valid_pending ?pend"
    by (simp add: contains_def status_from_bits_truncate_def SERVER_MORE_RESULTS_EXISTS_def
        valid_columns_def data_packet_def is_eof_def err_packet_def)
  moreover have "waiting_q ?s = map fst ?pend" by (simp add: demo_stream_def)
  moreover have "queued ?s (concat (map (pending_packets (my_capabilities ?s)) ?pend)) [55]"
    unfolding queued_def
    by (rule exI [of _ "[1, 1, 2, 1]"])
      (simp add: p arrives_def demo_stream_def write_chunks_small next_header_def wire_simps)
  moreover have "drain_outcome list_bytes (my_capabilities ?s) ?pend =
      (wire_error list_bytes DEPRECATE_EOF [255, 1, 2], [?ok])"
    by (simp add: pending_error_def demo_stream_def)
  ultimately show ?thesis
    using mysql_wait_drains [OF list_cursor.bytes_contract_axioms, of ?pend ?s "[55]"] by (auto simp: p)
qed

text \<open>C23. Receiving a MySQL packet is not cancel-safe: when the header has arrived and the payload
  has not, the pending receive has already consumed the header.  After dropping it, the next
  receive takes the payload's bytes for a header, and returns as a packet whatever the payload holds
  there.\<close>

theorem mysql_cancelled_recv_desyncs:
  assumes "bytes_contract B" and "in_buf s = []" and "payload = next_header (length v) q' @ v @ r"
    and "in_chunks s = [next_header (length payload) q]" and "length payload \<le> MAX_PACKET"
    and "v \<noteq> []" and "hd v \<noteq> 0xff"
  shows "\<exists>s' s''. recv_packet B s = Some (s', None)
    \<and> recv_packet B (s'\<lparr>in_chunks := [payload]\<rparr>) = Some (s'', Some (Ok v))"
proof -
  let ?s = "s\<lparr>in_buf := [], in_chunks := [], sequence_id := q + 1\<rparr>"
  have v: "length v < MAX_PACKET" "payload \<noteq> []" using assms(3,5) by (auto simp: next_header_def)
  have "recv_packet B s = Some (?s, None)"
    using bytes_contract.header_lost [OF assms(1,2,4)] v assms(5) by simp
  moreover have "arrives (?s\<lparr>in_chunks := [payload]\<rparr>) (fst (write_chunks q' v) @ r)"
    using assms(3) v by (auto simp: arrives_def write_chunks_small)
  ultimately show ?thesis
    using bytes_contract.recv_packet_chunks [OF assms(1) _ assms(6,7)] by blast
qed

theorem mysql_cancelled_recv_desyncs_witness:
  "\<exists>s' s''. recv_packet list_bytes (demo_stream [next_header (length [1, 0, 0, 5, 66 :: u8]) 7] []) = Some (s', None)
    \<and> recv_packet list_bytes (s'\<lparr>in_chunks := [[1, 0, 0, 5, 66]]\<rparr>) = Some (s'', Some (Ok [66]))"
  by (rule mysql_cancelled_recv_desyncs [OF list_cursor.bytes_contract_axioms, of _ _ _ 5 "[]"])
    (simp_all add: demo_stream_def next_header_def wire_simps)

end
