(* ===== verification/MySql_Protocol.thy ===== *)
theory MySql_Protocol
  imports MySql_Packet
begin

unbundle bit_operations_syntax

section \<open>MySQL columns, rows, commands and arguments\<close>

text \<open>
  \<^verbatim>\<open>protocol/text\<close>, \<^verbatim>\<open>protocol/statement\<close>, \<^verbatim>\<open>protocol/row.rs\<close>,
  \<^verbatim>\<open>arguments.rs\<close>, \<^verbatim>\<open>type_info.rs\<close>, \<^verbatim>\<open>value.rs\<close> and the integer, boolean and byte types of
  \<^verbatim>\<open>types\<close>.  A row keeps its packet and one byte range per column; a binary row finds the ranges from
  the null bitmap and the column types.  A decoder of the \<^verbatim>\<open>byteorder\<close> crate is a parameter.
  Signed integers are \<open>int\<close>, narrowed where the code narrows.
\<close>

subsection \<open>Column types\<close>

datatype ColumnType =
    CT_Decimal
  | CT_Tiny
  | CT_Short
  | CT_Long
  | CT_Float
  | CT_Double
  | CT_Null
  | CT_Timestamp
  | CT_LongLong
  | CT_Int24
  | CT_Date
  | CT_Time
  | CT_Datetime
  | CT_Year
  | CT_VarChar
  | CT_Bit
  | CT_Json
  | CT_NewDecimal
  | CT_Enum
  | CT_Set
  | CT_TinyBlob
  | CT_MediumBlob
  | CT_LongBlob
  | CT_Blob
  | CT_VarString
  | CT_String
  | CT_Geometry

primrec column_type_code :: "ColumnType \<Rightarrow> u8" where
  "column_type_code CT_Decimal = 0x00"
| "column_type_code CT_Tiny = 0x01"
| "column_type_code CT_Short = 0x02"
| "column_type_code CT_Long = 0x03"
| "column_type_code CT_Float = 0x04"
| "column_type_code CT_Double = 0x05"
| "column_type_code CT_Null = 0x06"
| "column_type_code CT_Timestamp = 0x07"
| "column_type_code CT_LongLong = 0x08"
| "column_type_code CT_Int24 = 0x09"
| "column_type_code CT_Date = 0x0a"
| "column_type_code CT_Time = 0x0b"
| "column_type_code CT_Datetime = 0x0c"
| "column_type_code CT_Year = 0x0d"
| "column_type_code CT_VarChar = 0x0f"
| "column_type_code CT_Bit = 0x10"
| "column_type_code CT_Json = 0xf5"
| "column_type_code CT_NewDecimal = 0xf6"
| "column_type_code CT_Enum = 0xf7"
| "column_type_code CT_Set = 0xf8"
| "column_type_code CT_TinyBlob = 0xf9"
| "column_type_code CT_MediumBlob = 0xfa"
| "column_type_code CT_LongBlob = 0xfb"
| "column_type_code CT_Blob = 0xfc"
| "column_type_code CT_VarString = 0xfd"
| "column_type_code CT_String = 0xfe"
| "column_type_code CT_Geometry = 0xff"

definition try_from_u16 :: "u8 \<Rightarrow> ColumnType result" where
  "try_from_u16 type_id =
     (if type_id = 0x00 then Ok CT_Decimal
      else if type_id = 0x01 then Ok CT_Tiny
      else if type_id = 0x02 then Ok CT_Short
      else if type_id = 0x03 then Ok CT_Long
      else if type_id = 0x04 then Ok CT_Float
      else if type_id = 0x05 then Ok CT_Double
      else if type_id = 0x06 then Ok CT_Null
      else if type_id = 0x07 then Ok CT_Timestamp
      else if type_id = 0x08 then Ok CT_LongLong
      else if type_id = 0x09 then Ok CT_Int24
      else if type_id = 0x0a then Ok CT_Date
      else if type_id = 0x0b then Ok CT_Time
      else if type_id = 0x0c then Ok CT_Datetime
      else if type_id = 0x0d then Ok CT_Year
      else if type_id = 0x0f then Ok CT_VarChar
      else if type_id = 0x10 then Ok CT_Bit
      else if type_id = 0xf5 then Ok CT_Json
      else if type_id = 0xf6 then Ok CT_NewDecimal
      else if type_id = 0xf7 then Ok CT_Enum
      else if type_id = 0xf8 then Ok CT_Set
      else if type_id = 0xf9 then Ok CT_TinyBlob
      else if type_id = 0xfa then Ok CT_MediumBlob
      else if type_id = 0xfb then Ok CT_LongBlob
      else if type_id = 0xfc then Ok CT_Blob
      else if type_id = 0xfd then Ok CT_VarString
      else if type_id = 0xfe then Ok CT_String
      else if type_id = 0xff then Ok CT_Geometry
      else Err (Protocol ''unknown column type''))"

type_synonym column_flags = u16

definition UNSIGNED :: column_flags where "UNSIGNED = 32"
definition BINARY :: column_flags where "BINARY = 128"
definition ENUM :: column_flags where "ENUM = 256"

definition column_flags_from_bits_truncate :: "u16 \<Rightarrow> column_flags" where
  "column_flags_from_bits_truncate w = w AND 0xBFFF"

definition column_type_name :: "ColumnType \<Rightarrow> column_flags \<Rightarrow> u32 option \<Rightarrow> string" where
  "column_type_name t flags msize =
     (let is_binary = contains flags BINARY;
          is_unsigned = contains flags UNSIGNED;
          is_enum = contains flags ENUM in
      case t of
        CT_Tiny \<Rightarrow> if msize = Some 1 then ''BOOLEAN'' else if is_unsigned then ''TINYINT UNSIGNED'' else ''TINYINT''
      | CT_Short \<Rightarrow> if is_unsigned then ''SMALLINT UNSIGNED'' else ''SMALLINT''
      | CT_Long \<Rightarrow> if is_unsigned then ''INT UNSIGNED'' else ''INT''
      | CT_Int24 \<Rightarrow> if is_unsigned then ''MEDIUMINT UNSIGNED'' else ''MEDIUMINT''
      | CT_LongLong \<Rightarrow> if is_unsigned then ''BIGINT UNSIGNED'' else ''BIGINT''
      | CT_Float \<Rightarrow> ''FLOAT''
      | CT_Double \<Rightarrow> ''DOUBLE''
      | CT_Null \<Rightarrow> ''NULL''
      | CT_Timestamp \<Rightarrow> ''TIMESTAMP''
      | CT_Date \<Rightarrow> ''DATE''
      | CT_Time \<Rightarrow> ''TIME''
      | CT_Datetime \<Rightarrow> ''DATETIME''
      | CT_Year \<Rightarrow> ''YEAR''
      | CT_Bit \<Rightarrow> ''BIT''
      | CT_Enum \<Rightarrow> ''ENUM''
      | CT_Set \<Rightarrow> ''SET''
      | CT_Decimal \<Rightarrow> ''DECIMAL''
      | CT_NewDecimal \<Rightarrow> ''DECIMAL''
      | CT_Geometry \<Rightarrow> ''GEOMETRY''
      | CT_Json \<Rightarrow> ''JSON''
      | CT_String \<Rightarrow> if is_binary then ''BINARY'' else if is_enum then ''ENUM'' else ''CHAR''
      | CT_VarChar \<Rightarrow> if is_binary then ''VARBINARY'' else ''VARCHAR''
      | CT_VarString \<Rightarrow> if is_binary then ''VARBINARY'' else ''VARCHAR''
      | CT_TinyBlob \<Rightarrow> if is_binary then ''TINYBLOB'' else ''TINYTEXT''
      | CT_Blob \<Rightarrow> if is_binary then ''BLOB'' else ''TEXT''
      | CT_MediumBlob \<Rightarrow> if is_binary then ''MEDIUMBLOB'' else ''MEDIUMTEXT''
      | CT_LongBlob \<Rightarrow> if is_binary then ''LONGBLOB'' else ''LONGTEXT'')"

record column_definition =
  catalog :: bytes
  schema :: bytes
  table_alias :: bytes
  table :: bytes
  col_alias :: bytes
  col_name :: bytes
  collation :: u16
  col_max_size :: u32
  col_type :: ColumnType
  col_flags :: column_flags
  decimals :: u8

definition column_name :: "column_definition \<Rightarrow> bytes result" where
  "column_name c = from_utf8 (col_name c)"

definition column_alias :: "column_definition \<Rightarrow> bytes result" where
  "column_alias c = from_utf8 (col_alias c)"

definition column_definition_decode :: "bytes_api \<Rightarrow> bytes \<Rightarrow> column_definition result" where
  "column_definition_decode B buf =
     rbind (get_bytes_lenenc B buf) (\<lambda>(cat, buf).
     rbind (get_bytes_lenenc B buf) (\<lambda>(sch, buf).
     rbind (get_bytes_lenenc B buf) (\<lambda>(tal, buf).
     rbind (get_bytes_lenenc B buf) (\<lambda>(tab, buf).
     rbind (get_bytes_lenenc B buf) (\<lambda>(al, buf).
     rbind (get_bytes_lenenc B buf) (\<lambda>(nm, buf).
     rbind (get_uint_lenenc B buf) (\<lambda>(next_len, buf).
     rbind (get_u16_le B buf) (\<lambda>(coll, buf).
     rbind (get_u32_le B buf) (\<lambda>(msize, buf).
     rbind (get_u8 B buf) (\<lambda>(type_id, buf).
     rbind (get_u16_le B buf) (\<lambda>(flags, buf).
     rbind (get_u8 B buf) (\<lambda>(decs, buf).
     rmap (\<lambda>t. \<lparr>catalog = cat, schema = sch, table_alias = tal, table = tab, col_alias = al, col_name = nm,
         collation = coll, col_max_size = msize, col_type = t,
         col_flags = column_flags_from_bits_truncate flags, decimals = decs\<rparr>)
       (try_from_u16 type_id)))))))))))))"

subsection \<open>Type information\<close>

record type_info =
  ty :: ColumnType
  ty_flags :: column_flags
  ty_max_size :: "u32 option"

definition type_info_binary :: "ColumnType \<Rightarrow> type_info" where
  "type_info_binary t = \<lparr>ty = t, ty_flags = BINARY, ty_max_size = None\<rparr>"

definition type_info_enum :: type_info where
  "type_info_enum = \<lparr>ty = CT_String, ty_flags = ENUM, ty_max_size = None\<rparr>"

definition type_feature_gate :: "type_info \<Rightarrow> string option" where
  "type_feature_gate t =
     (case ty t of
        CT_Date \<Rightarrow> Some ''time'' | CT_Time \<Rightarrow> Some ''time'' | CT_Timestamp \<Rightarrow> Some ''time''
      | CT_Datetime \<Rightarrow> Some ''time'' | CT_Json \<Rightarrow> Some ''json'' | CT_NewDecimal \<Rightarrow> Some ''bigdecimal''
      | _ \<Rightarrow> None)"

definition from_column :: "column_definition \<Rightarrow> type_info" where
  "from_column c = \<lparr>ty = col_type c, ty_flags = col_flags c, ty_max_size = Some (col_max_size c)\<rparr>"

definition type_info_is_null :: "type_info \<Rightarrow> bool" where
  "type_info_is_null t \<longleftrightarrow> ty t = CT_Null"

definition type_info_name :: "type_info \<Rightarrow> string" where
  "type_info_name t = column_type_name (ty t) (ty_flags t) (ty_max_size t)"

definition type_info_eq :: "type_info \<Rightarrow> type_info \<Rightarrow> bool" where
  "type_info_eq a b =
     (if ty a \<noteq> ty b then False
      else if ty a \<in> {CT_Tiny, CT_Short, CT_Long, CT_Int24, CT_LongLong}
        then contains (ty_flags a) UNSIGNED = contains (ty_flags b) UNSIGNED
      else if ty a \<in> {CT_VarChar, CT_Blob, CT_TinyBlob, CT_MediumBlob, CT_LongBlob, CT_String, CT_VarString, CT_Enum}
        then ty_flags a = ty_flags b
      else True)"

subsection \<open>Rows\<close>

record row =
  storage :: bytes
  row_values :: "(nat \<times> nat) option list"

text \<open>\<^verbatim>\<open>Row::get\<close>: both indexings panic out of range.\<close>

definition row_get :: "row \<Rightarrow> nat \<Rightarrow> bytes option result" where
  "row_get r index =
     rassert (index < length (row_values r))
       (case row_values r ! index of
          None \<Rightarrow> Ok None
        | Some (a, b) \<Rightarrow> rassert (a \<le> b \<and> b \<le> length (storage r)) (Ok (Some (take (b - a) (drop a (storage r))))))"

text \<open>\<open>offset\<close> is the length of the packet; the range of a value starts at the bytes already consumed.\<close>

primrec text_values :: "bytes_api \<Rightarrow> nat \<Rightarrow> nat \<Rightarrow> bytes \<Rightarrow> (nat \<times> nat) option list \<Rightarrow> (nat \<times> nat) option list result" where
  "text_values B offset 0 buf vs = Ok vs"
| "text_values B offset (Suc n) buf vs =
     (case buf of
        [] \<Rightarrow> Panic
      | b # _ \<Rightarrow>
          if b = 0xfb then rbind (advance B 1 buf) (\<lambda>buf. text_values B offset n buf (vs @ [None]))
          else
            rbind (get_uint_lenenc B buf) (\<lambda>(len, buf).
              let start = offset - length buf in
              rbind (advance B (unat len) buf)
                (\<lambda>buf. text_values B offset n buf (vs @ [Some (start, start + unat len)]))))"

definition text_row_decode :: "bytes_api \<Rightarrow> nat \<Rightarrow> bytes \<Rightarrow> row result" where
  "text_row_decode B num_columns buf =
     rmap (\<lambda>vs. \<lparr>storage = buf, row_values = vs\<rparr>) (text_values B (length buf) num_columns buf [])"

text \<open>The size of a value and the buffer after its length, if the length is not part of the value.\<close>

definition binary_size :: "bytes_api \<Rightarrow> ColumnType \<Rightarrow> bytes \<Rightarrow> (nat \<times> bytes) result" where
  "binary_size B t buf =
     (case t of
        CT_LongLong \<Rightarrow> Ok (8, buf)
      | CT_Long \<Rightarrow> Ok (4, buf)
      | CT_Int24 \<Rightarrow> Ok (4, buf)
      | CT_Short \<Rightarrow> Ok (2, buf)
      | CT_Year \<Rightarrow> Ok (2, buf)
      | CT_Tiny \<Rightarrow> Ok (1, buf)
      | CT_Float \<Rightarrow> Ok (4, buf)
      | CT_Double \<Rightarrow> Ok (8, buf)
      | CT_Time \<Rightarrow> (case buf of [] \<Rightarrow> Panic | b # _ \<Rightarrow> Ok (unat b + 1, buf))
      | CT_Timestamp \<Rightarrow> (case buf of [] \<Rightarrow> Panic | b # _ \<Rightarrow> Ok (unat b + 1, buf))
      | CT_Date \<Rightarrow> (case buf of [] \<Rightarrow> Panic | b # _ \<Rightarrow> Ok (unat b + 1, buf))
      | CT_Datetime \<Rightarrow> (case buf of [] \<Rightarrow> Panic | b # _ \<Rightarrow> Ok (unat b + 1, buf))
      | CT_Null \<Rightarrow> Panic
      | _ \<Rightarrow> rmap (\<lambda>(len, buf). (unat len, buf)) (get_uint_lenenc B buf))"

definition bit_is_null :: "bytes \<Rightarrow> nat \<Rightarrow> bool" where
  "bit_is_null bitmap column_idx =
     (let i = column_idx + 2 in (bitmap ! (i div 8)) AND push_bit (i mod 8) 1 \<noteq> 0)"

primrec binary_values ::
  "bytes_api \<Rightarrow> bytes \<Rightarrow> nat \<Rightarrow> nat \<Rightarrow> ColumnType list \<Rightarrow> bytes \<Rightarrow> (nat \<times> nat) option list
    \<Rightarrow> (nat \<times> nat) option list result"
where
  "binary_values B bitmap offset column_idx [] buf vs = Ok vs"
| "binary_values B bitmap offset column_idx (t # ts) buf vs =
     (if bit_is_null bitmap column_idx then binary_values B bitmap offset (column_idx + 1) ts buf (vs @ [None])
      else
        rbind (binary_size B t buf) (\<lambda>(len, buf).
          let start = offset - length buf in
          rbind (advance B len buf)
            (\<lambda>buf. binary_values B bitmap offset (column_idx + 1) ts buf (vs @ [Some (start, start + len)]))))"

definition binary_row_decode :: "bytes_api \<Rightarrow> ColumnType list \<Rightarrow> bytes \<Rightarrow> row result" where
  "binary_row_decode B columns buf =
     rbind (get_u8 B buf) (\<lambda>(header, buf).
     if header \<noteq> 0 then Err (Protocol ''expected 0x00 (ROW)'')
     else
       rbind (get_bytes B ((length columns + 9) div 8) buf) (\<lambda>(bitmap, rest).
         rmap (\<lambda>vs. \<lparr>storage = buf, row_values = vs\<rparr>)
           (binary_values B bitmap (length buf) 0 columns rest [])))"

subsection \<open>Arguments and commands\<close>

record null_bit_map =
  nbm_bytes :: bytes
  nbm_length :: nat

definition null_bit_map_push :: "bool \<Rightarrow> null_bit_map \<Rightarrow> null_bit_map" where
  "null_bit_map_push is_null m =
     (let byte_index = nbm_length m div 8;
          bit_offset = nbm_length m mod 8;
          bs = (if bit_offset = 0 then nbm_bytes m @ [0] else nbm_bytes m) in
      \<lparr>nbm_bytes = bs[byte_index := bs ! byte_index OR push_bit bit_offset (if is_null then 1 else 0)],
       nbm_length = nbm_length m + 1\<rparr>)"

record my_arguments =
  arg_values :: bytes
  my_arg_types :: "type_info list"
  null_bitmap :: null_bit_map

text \<open>An argument: the type it produces, and how it is encoded onto the buffer (an \<^verbatim>\<open>Encode\<close> impl);
  the encoding returns whether the value is \<^verbatim>\<open>NULL\<close>.\<close>

record my_value =
  produces :: type_info
  encode_value :: "bytes \<Rightarrow> bytes \<times> bool result"

definition my_arguments_empty :: my_arguments where
  "my_arguments_empty = \<lparr>arg_values = [], my_arg_types = [], null_bitmap = \<lparr>nbm_bytes = [], nbm_length = 0\<rparr>\<rparr>"

definition my_arguments_add :: "my_value \<Rightarrow> my_arguments \<Rightarrow> my_arguments \<times> unit result" where
  "my_arguments_add v a =
     (let len_before = length (arg_values a) in
      case encode_value v (arg_values a) of
        (buf, Ok is_null) \<Rightarrow>
          (\<lparr>arg_values = buf, my_arg_types = my_arg_types a @ [produces v],
            null_bitmap = null_bit_map_push is_null (null_bitmap a)\<rparr>, Ok ())
      | (buf, Err e) \<Rightarrow> (a\<lparr>arg_values := take len_before buf\<rparr>, Err e)
      | (buf, Panic) \<Rightarrow> (a\<lparr>arg_values := buf\<rparr>, Panic))"

definition my_arguments_len :: "my_arguments \<Rightarrow> nat" where
  "my_arguments_len a = length (my_arg_types a)"

definition query_encode :: "bytes \<Rightarrow> bytes \<Rightarrow> bytes" where "query_encode sql buf = buf @ [0x03] @ sql"
definition ping_encode :: "bytes \<Rightarrow> bytes" where "ping_encode buf = buf @ [0x0e]"
definition quit_encode :: "bytes \<Rightarrow> bytes" where "quit_encode buf = buf @ [0x01]"
definition prepare_encode :: "bytes \<Rightarrow> bytes \<Rightarrow> bytes" where "prepare_encode sql buf = buf @ [0x16] @ sql"
definition stmt_close_encode :: "u32 \<Rightarrow> bytes \<Rightarrow> bytes" where
  "stmt_close_encode stmt buf = buf @ [0x19] @ to_le_bytes stmt"

definition execute_encode :: "u32 \<Rightarrow> my_arguments \<Rightarrow> bytes \<Rightarrow> bytes" where
  "execute_encode stmt a buf =
     (let buf = buf @ [0x17] @ to_le_bytes stmt @ [0] @ to_le_bytes (1 :: u32) in
      if my_arg_types a \<noteq> [] then
        buf @ nbm_bytes (null_bitmap a) @ [1]
          @ concat (map (\<lambda>t. [column_type_code (ty t), if contains (ty_flags t) UNSIGNED then 0x80 else 0]) (my_arg_types a))
          @ arg_values a
      else buf)"

record prepare_ok =
  statement_id :: u32
  pok_columns :: u16
  pok_params :: u16
  pok_warnings :: u16

definition prepare_ok_decode :: "bytes_api \<Rightarrow> bytes \<Rightarrow> prepare_ok result" where
  "prepare_ok_decode B buf =
     (if length buf < 12 then Err (Protocol ''PrepareOk expected 12 bytes'')
      else
        rbind (get_u8 B (take 12 buf)) (\<lambda>(st, slice).
        if st \<noteq> 0 then Err (Protocol ''expected 0x00 (COM_STMT_PREPARE_OK)'')
        else
          rbind (get_u32_le B slice) (\<lambda>(i, slice).
          rbind (get_u16_le B slice) (\<lambda>(cols, slice).
          rbind (get_u16_le B slice) (\<lambda>(pars, slice).
          rbind (advance B 1 slice) (\<lambda>slice.
          rmap (\<lambda>(ws, _). \<lparr>statement_id = i, pok_columns = cols, pok_params = pars, pok_warnings = ws\<rparr>)
            (get_u16_le B slice)))))))"

subsection \<open>Values and the integer, boolean and byte types\<close>

datatype value_format = TextFormat | BinaryFormat

record value_ref =
  vr_value :: "bytes option"
  vr_type :: type_info
  vr_format :: value_format

definition as_bytes :: "value_ref \<Rightarrow> bytes result" where
  "as_bytes v = (case vr_value v of Some b \<Rightarrow> Ok b | None \<Rightarrow> Err (DecodeError ''unexpected null''))"

definition as_str :: "value_ref \<Rightarrow> bytes result" where
  "as_str v = rbind (as_bytes v) (\<lambda>b. if valid_utf8 b then Ok b else Err (DecodeError ''invalid utf-8''))"

definition value_is_null :: "value_ref \<Rightarrow> bool" where
  "value_is_null v =
     (case vr_value v of
        None \<Rightarrow> True
      | Some b \<Rightarrow> ty (vr_type v) \<in> {CT_Date, CT_Timestamp, CT_Datetime} \<and> take 1 b = [0])"

record my_row =
  mr_row :: row
  mr_format :: value_format
  mr_columns :: "type_info list"
  mr_column_names :: "bytes \<rightharpoonup> nat"

definition column_index :: "nat \<Rightarrow> my_row \<Rightarrow> nat result" where
  "column_index i r =
     (if length (mr_columns r) \<le> i then Err (ColumnIndexOutOfBounds i (length (mr_columns r))) else Ok i)"

definition column_index_by_name :: "bytes \<Rightarrow> my_row \<Rightarrow> nat result" where
  "column_index_by_name n r =
     (case mr_column_names r n of Some i \<Rightarrow> Ok i | None \<Rightarrow> Err (ColumnNotFound n))"

definition try_get_raw :: "(my_row \<Rightarrow> nat result) \<Rightarrow> my_row \<Rightarrow> value_ref result" where
  "try_get_raw index r =
     rbind (index r) (\<lambda>i.
       rassert (i < length (mr_columns r))
         (rmap (\<lambda>v. \<lparr>vr_value = v, vr_type = mr_columns r ! i, vr_format = mr_format r\<rparr>)
            (row_get (mr_row r) i)))"

text \<open>\<^verbatim>\<open>LittleEndian::read_int\<close> and \<^verbatim>\<open>read_uint\<close>.\<close>

record byteorder_api =
  read_int :: "bytes \<Rightarrow> nat \<Rightarrow> int"
  read_uint :: "bytes \<Rightarrow> nat \<Rightarrow> nat"

definition le_signed :: "bytes \<Rightarrow> int" where
  "le_signed bs =
     (if 2 * le_nat bs < 256 ^ length bs then int (le_nat bs) else int (le_nat bs) - 256 ^ length bs)"

locale byteorder =
  fixes R :: byteorder_api
  assumes read_int_le: "bs \<noteq> [] \<Longrightarrow> length bs \<le> 8 \<Longrightarrow> read_int R bs (length bs) = le_signed bs"
    and read_uint_le: "bs \<noteq> [] \<Longrightarrow> length bs \<le> 8 \<Longrightarrow> read_uint R bs (length bs) = le_nat bs"

definition int_compatible :: "type_info \<Rightarrow> bool" where
  "int_compatible t \<longleftrightarrow>
     ty t \<in> {CT_Tiny, CT_Short, CT_Long, CT_Int24, CT_LongLong} \<and> \<not> contains (ty_flags t) UNSIGNED"

definition uint_compatible :: "type_info \<Rightarrow> bool" where
  "uint_compatible t \<longleftrightarrow>
     ty t \<in> {CT_Tiny, CT_Short, CT_Long, CT_Int24, CT_LongLong, CT_Year, CT_Bit} \<and> contains (ty_flags t) UNSIGNED"

definition bool_compatible :: "type_info \<Rightarrow> bool" where
  "bool_compatible t \<longleftrightarrow> ty t \<in> {CT_Tiny, CT_Short, CT_Long, CT_Int24, CT_LongLong, CT_Bit}"

definition bytes_compatible :: "type_info \<Rightarrow> bool" where
  "bytes_compatible t \<longleftrightarrow>
     ty t \<in> {CT_VarChar, CT_Blob, CT_TinyBlob, CT_MediumBlob, CT_LongBlob, CT_String, CT_VarString, CT_Enum}"

datatype int_width = W8 | W16 | W32 | W64

primrec int_bits :: "int_width \<Rightarrow> nat" where
  "int_bits W8 = 8" | "int_bits W16 = 16" | "int_bits W32 = 32" | "int_bits W64 = 64"

primrec int_column_type :: "int_width \<Rightarrow> ColumnType" where
  "int_column_type W8 = CT_Tiny"
| "int_column_type W16 = CT_Short"
| "int_column_type W32 = CT_Long"
| "int_column_type W64 = CT_LongLong"

definition int_type_info :: "int_width \<Rightarrow> type_info" where
  "int_type_info w = type_info_binary (int_column_type w)"

definition uint_type_info :: "ColumnType \<Rightarrow> type_info" where
  "uint_type_info t = \<lparr>ty = t, ty_flags = BINARY OR UNSIGNED, ty_max_size = None\<rparr>"

definition bool_type_info :: type_info where
  "bool_type_info = \<lparr>ty = CT_Tiny, ty_flags = BINARY OR UNSIGNED, ty_max_size = Some 1\<rparr>"

definition bytes_type_info :: type_info where
  "bytes_type_info = type_info_binary CT_Blob"

text \<open>\<^verbatim>\<open>to_le_bytes\<close> of a signed or unsigned integer of the width.\<close>

definition int_encode :: "int_width \<Rightarrow> int \<Rightarrow> bytes \<Rightarrow> bytes \<times> bool result" where
  "int_encode w v buf = (buf @ nat_le (int_bits w div 8) (nat (v mod 2 ^ int_bits w)), Ok False)"

definition uint_encode :: "int_width \<Rightarrow> nat \<Rightarrow> bytes \<Rightarrow> bytes \<times> bool result" where
  "uint_encode w v buf = (buf @ nat_le (int_bits w div 8) v, Ok False)"

definition bool_encode :: "bool \<Rightarrow> bytes \<Rightarrow> bytes \<times> bool result" where
  "bool_encode v = int_encode W8 (if v then 1 else 0)"

definition bytes_encode :: "bytes \<Rightarrow> bytes \<Rightarrow> bytes \<times> bool result" where
  "bytes_encode v buf = (put_bytes_lenenc buf v, Ok False)"

definition int_decode :: "byteorder_api \<Rightarrow> value_ref \<Rightarrow> int result" where
  "int_decode R v =
     (case vr_format v of
        TextFormat \<Rightarrow>
          rbind (as_str v) (\<lambda>s.
            case parse_signed 64 s of Some n \<Rightarrow> Ok n | None \<Rightarrow> Err (DecodeError ''invalid integer''))
      | BinaryFormat \<Rightarrow>
          rbind (as_bytes v) (\<lambda>buf.
            if buf = [] then Err (DecodeError ''empty buffer'')
            else if 8 < length buf then Err (DecodeError ''expected no more than 8 bytes for integer value'')
            else Ok (read_int R buf (length buf))))"

definition int_decode_as :: "byteorder_api \<Rightarrow> int_width \<Rightarrow> value_ref \<Rightarrow> int result" where
  "int_decode_as R w v =
     rbind (int_decode R v) (\<lambda>n.
       if - (2 ^ (int_bits w - 1)) \<le> n \<and> n < 2 ^ (int_bits w - 1) then Ok n
       else Err (DecodeError ''out of range integral type conversion attempted''))"

definition bool_decode :: "byteorder_api \<Rightarrow> value_ref \<Rightarrow> bool result" where
  "bool_decode R v = rmap (\<lambda>n. n \<noteq> 0) (int_decode_as R W8 v)"

definition uint_decode :: "byteorder_api \<Rightarrow> value_ref \<Rightarrow> u64 result" where
  "uint_decode R v =
     (if ty (vr_type v) = CT_Bit then
        rmap (foldl (\<lambda>value b. ucast b OR push_bit 8 value) 0) (as_bytes v)
      else case vr_format v of
        TextFormat \<Rightarrow>
          rbind (as_str v) (\<lambda>s.
            case parse_unsigned 64 s of Some n \<Rightarrow> Ok (of_nat n) | None \<Rightarrow> Err (DecodeError ''invalid integer''))
      | BinaryFormat \<Rightarrow>
          rbind (as_bytes v) (\<lambda>buf.
            if buf = [] then Err (DecodeError ''empty buffer'')
            else if 8 < length buf then Err (DecodeError ''expected no more than 8 bytes for unsigned integer value'')
            else Ok (of_nat (read_uint R buf (length buf)))))"

definition uint_decode_as :: "byteorder_api \<Rightarrow> int_width \<Rightarrow> value_ref \<Rightarrow> u64 result" where
  "uint_decode_as R w v =
     rbind (uint_decode R v) (\<lambda>n.
       if unat n < 2 ^ int_bits w then Ok n
       else Err (DecodeError ''out of range integral type conversion attempted''))"

subsection \<open>Columns\<close>

lemma try_from_u16_iff: "try_from_u16 c = Ok t \<longleftrightarrow> column_type_code t = c"
  by (cases t) (auto simp: try_from_u16_def split: if_splits)

lemma try_from_u16_code [simp]: "try_from_u16 (column_type_code t) = Ok t"
  by (simp add: try_from_u16_iff)

text \<open>The server's column definition packet.\<close>

definition column_bytes :: "column_definition \<Rightarrow> bytes" where
  "column_bytes c =
     put_bytes_lenenc [] (catalog c) @ put_bytes_lenenc [] (schema c) @ put_bytes_lenenc [] (table_alias c)
     @ put_bytes_lenenc [] (table c) @ put_bytes_lenenc [] (col_alias c) @ put_bytes_lenenc [] (col_name c)
     @ put_uint_lenenc [] 12 @ to_le_bytes (collation c) @ to_le_bytes (col_max_size c)
     @ [column_type_code (col_type c)] @ to_le_bytes (col_flags c) @ [decimals c, 0, 0]"

subsection \<open>Rows\<close>

definition range_gives :: "bytes \<Rightarrow> (nat \<times> nat) option \<Rightarrow> bytes option \<Rightarrow> bool" where
  "range_gives pkt r v =
     (case (r, v) of
        (None, None) \<Rightarrow> True
      | (Some (a, b), Some x) \<Rightarrow> a \<le> b \<and> b \<le> length pkt \<and> take (b - a) (drop a pkt) = x
      | _ \<Rightarrow> False)"

lemma range_gives_None [simp]: "range_gives pkt None None"
  by (simp add: range_gives_def)

lemma row_get_range:
  "list_all2 (range_gives (storage r)) (row_values r) vs \<Longrightarrow> i < length vs \<Longrightarrow> row_get r i = Ok (vs ! i)"
  by (frule list_all2_lengthD, drule list_all2_nthD2, assumption)
    (auto simp: row_get_def range_gives_def split: option.splits)

lemma range_gives_middle:
  "pkt = pre @ v @ r \<Longrightarrow> range_gives pkt (Some (length pkt - (length v + length r), length pkt - (length v + length r) + length v)) (Some v)"
  by (simp add: range_gives_def)

definition text_cell :: "bytes option \<Rightarrow> bytes" where
  "text_cell c = (case c of None \<Rightarrow> [0xfb] | Some v \<Rightarrow> put_bytes_lenenc [] v)"

lemma text_cell_simps [simp]: "text_cell None = [0xfb]" "text_cell (Some v) = put_bytes_lenenc [] v"
  by (simp_all add: text_cell_def)

definition short_cell :: "bytes option \<Rightarrow> bool" where
  "short_cell c = (case c of None \<Rightarrow> True | Some v \<Rightarrow> length v < 2 ^ 64)"

primrec lenenc_type :: "ColumnType \<Rightarrow> bool" where
  "lenenc_type CT_Decimal = True"
| "lenenc_type CT_Tiny = False"
| "lenenc_type CT_Short = False"
| "lenenc_type CT_Long = False"
| "lenenc_type CT_Float = False"
| "lenenc_type CT_Double = False"
| "lenenc_type CT_Null = False"
| "lenenc_type CT_Timestamp = False"
| "lenenc_type CT_LongLong = False"
| "lenenc_type CT_Int24 = False"
| "lenenc_type CT_Date = False"
| "lenenc_type CT_Time = False"
| "lenenc_type CT_Datetime = False"
| "lenenc_type CT_Year = False"
| "lenenc_type CT_VarChar = True"
| "lenenc_type CT_Bit = True"
| "lenenc_type CT_Json = True"
| "lenenc_type CT_NewDecimal = True"
| "lenenc_type CT_Enum = True"
| "lenenc_type CT_Set = True"
| "lenenc_type CT_TinyBlob = True"
| "lenenc_type CT_MediumBlob = True"
| "lenenc_type CT_LongBlob = True"
| "lenenc_type CT_Blob = True"
| "lenenc_type CT_VarString = True"
| "lenenc_type CT_String = True"
| "lenenc_type CT_Geometry = True"

text \<open>What a server may send as a non-null value of a type in the binary protocol, and how.\<close>

definition binary_value :: "ColumnType \<Rightarrow> bytes \<Rightarrow> bool" where
  "binary_value t v =
     (if lenenc_type t then length v < 2 ^ 64
      else if t \<in> {CT_Time, CT_Timestamp, CT_Date, CT_Datetime} then v \<noteq> [] \<and> length v = unat (hd v) + 1
      else (t, length v) \<in> {(CT_LongLong, 8), (CT_Long, 4), (CT_Int24, 4), (CT_Short, 2), (CT_Year, 2), (CT_Tiny, 1),
          (CT_Float, 4), (CT_Double, 8)})"

definition binary_cell :: "ColumnType \<Rightarrow> bytes option \<Rightarrow> bytes" where
  "binary_cell t c = (case c of None \<Rightarrow> [] | Some v \<Rightarrow> if lenenc_type t then put_bytes_lenenc [] v else v)"

definition valid_cell :: "ColumnType \<Rightarrow> bytes option \<Rightarrow> bool" where
  "valid_cell t c = (case c of None \<Rightarrow> True | Some v \<Rightarrow> binary_value t v)"

text \<open>Bit \<open>i + k\<close> of a bitmap is set exactly when value \<open>i\<close> is null.\<close>

definition null_bits :: "nat \<Rightarrow> bool list \<Rightarrow> bytes \<Rightarrow> bool" where
  "null_bits k flags bs \<longleftrightarrow>
     length bs = (length flags + k + 7) div 8
     \<and> (\<forall>i < length flags. bit (bs ! ((i + k) div 8)) ((i + k) mod 8) = flags ! i)"

context bytes_contract
begin

lemma advance_Cons [simp]: "advance B (Suc 0) (x # r) = Ok r"
  using advance_append [of "[x]" "Suc 0" r] by simp

lemma text_values_None:
  "text_values B off (Suc n) (0xfb # r) acc = text_values B off n r (acc @ [None])"
  by simp

lemma text_values_Some:
  assumes "length v < 2 ^ 64"
  shows "text_values B off (Suc n) (put_bytes_lenenc [] v @ r) acc =
    text_values B off n r (acc @ [Some (off - (length v + length r), off - (length v + length r) + length v)])"
proof -
  let ?l = "put_uint_lenenc [] (of_nat (length v))"
  obtain b bs where l: "?l = b # bs" and b: "b \<noteq> 0xfb"
    using hd_put_uint_lenenc [of "of_nat (length v)"] by (cases ?l) auto
  have "get_uint_lenenc B (?l @ v @ r) = Ok (of_nat (length v), v @ r)" by (rule get_put_uint_lenenc)
  then have "get_uint_lenenc B (b # bs @ v @ r) = Ok (of_nat (length v), v @ r)" by (simp add: l)
  with b assms show ?thesis
    by (simp add: put_bytes_lenenc_def l unat_of_nat Let_def)
qed

lemma text_values_cells:
  assumes "list_all short_cell vs" and "pkt = pre @ concat (map text_cell vs) @ rest"
  shows "\<exists>rs. text_values B (length pkt) (length vs) (concat (map text_cell vs) @ rest) acc = Ok (acc @ rs)
    \<and> list_all2 (range_gives pkt) rs vs"
  using assms
proof (induction vs arbitrary: pre acc)
  case Nil
  then show ?case by simp
next
  case (Cons c vs)
  let ?r = "concat (map text_cell vs) @ rest"
  show ?case
  proof (cases c)
    case None
    then have "pkt = (pre @ [0xfb]) @ ?r" using Cons.prems(2) by simp
    from Cons.IH [OF _ this, of "acc @ [None]"] Cons.prems(1) obtain rs where
      "text_values B (length pkt) (length vs) ?r (acc @ [None]) = Ok ((acc @ [None]) @ rs)"
      "list_all2 (range_gives pkt) rs vs" by auto
    with None show ?thesis
      by (intro exI [of _ "None # rs"]) (simp add: text_values_None del: text_values.simps)
  next
    case (Some v)
    let ?s = "length pkt - (length v + length ?r)"
    let ?a = "Some (?s, ?s + length v)"
    have v: "length v < 2 ^ 64" using Cons.prems(1) Some by (simp add: short_cell_def)
    have pkt: "pkt = (pre @ put_uint_lenenc [] (of_nat (length v))) @ v @ ?r"
      using Cons.prems(2) Some by (simp add: put_bytes_lenenc_def)
    then have "pkt = (pre @ put_bytes_lenenc [] v) @ ?r" by (simp add: put_bytes_lenenc_def)
    from Cons.IH [OF _ this, of "acc @ [?a]"] Cons.prems(1) obtain rs where
      "text_values B (length pkt) (length vs) ?r (acc @ [?a]) = Ok ((acc @ [?a]) @ rs)"
      "list_all2 (range_gives pkt) rs vs" by auto
    moreover have "range_gives pkt ?a (Some v)" using range_gives_middle [OF pkt] .
    ultimately show ?thesis using Some
      by (intro exI [of _ "?a # rs"]) (simp add: text_values_Some [OF v] del: text_values.simps)
  qed
qed

lemma binary_size_cell:
  assumes "binary_value t v"
  shows "binary_size B t (binary_cell t (Some v) @ r) = Ok (length v, v @ r)"
proof (cases "lenenc_type t")
  case True
  with assms have "binary_cell t (Some v) @ r = put_uint_lenenc [] (of_nat (length v)) @ v @ r" "length v < 2 ^ 64"
    by (simp_all add: binary_cell_def binary_value_def put_bytes_lenenc_def)
  with True show ?thesis
    by (cases t) (simp_all add: binary_size_def unat_of_nat)
next
  case False
  with assms show ?thesis
    by (cases t; cases v) (simp_all add: binary_value_def binary_size_def binary_cell_def)
qed

lemma binary_values_cells:
  assumes "list_all2 valid_cell ts vs"
    and "\<And>i. i < length vs \<Longrightarrow> bit_is_null bm (idx + i) \<longleftrightarrow> vs ! i = None"
    and "pkt = pre @ concat (map2 binary_cell ts vs) @ rest"
  shows "\<exists>rs. binary_values B bm (length pkt) idx ts (concat (map2 binary_cell ts vs) @ rest) acc = Ok (acc @ rs)
    \<and> list_all2 (range_gives pkt) rs vs"
  using assms
proof (induction ts vs arbitrary: pre acc idx rule: list_all2_induct)
  case Nil
  then show ?case by simp
next
  case (Cons t ts c vs)
  let ?r = "concat (map2 binary_cell ts vs) @ rest"
  have bits: "bit_is_null bm (idx + 1 + i) \<longleftrightarrow> vs ! i = None" if "i < length vs" for i
    using Cons.prems(1) [of "Suc i"] that by simp
  have bit0: "bit_is_null bm idx \<longleftrightarrow> c = None" using Cons.prems(1) [of 0] by simp
  show ?case
  proof (cases c)
    case None
    then have "pkt = pre @ ?r" using Cons.prems(2) by (simp add: binary_cell_def)
    from Cons.IH [OF bits this, of "acc @ [None]"] obtain rs where
      "binary_values B bm (length pkt) (idx + 1) ts ?r (acc @ [None]) = Ok ((acc @ [None]) @ rs)"
      "list_all2 (range_gives pkt) rs vs" by auto
    with None bit0 show ?thesis
      by (intro exI [of _ "None # rs"]) (simp add: binary_cell_def)
  next
    case (Some v)
    let ?s = "length pkt - (length v + length ?r)"
    let ?a = "Some (?s, ?s + length v)"
    have v: "binary_value t v" using Cons.hyps(1) Some by (simp add: valid_cell_def)
    obtain l where l: "binary_cell t (Some v) = l @ v"
      by (cases "lenenc_type t") (auto simp: binary_cell_def put_bytes_lenenc_def)
    have pkt: "pkt = (pre @ l) @ v @ ?r" using Cons.prems(2) Some by (simp add: l)
    then have "pkt = (pre @ l @ v) @ ?r" by simp
    from Cons.IH [OF bits this, of "acc @ [?a]"] obtain rs where
      "binary_values B bm (length pkt) (idx + 1) ts ?r (acc @ [?a]) = Ok ((acc @ [?a]) @ rs)"
      "list_all2 (range_gives pkt) rs vs" by auto
    moreover have "range_gives pkt ?a (Some v)" using range_gives_middle [OF pkt] .
    ultimately show ?thesis using Some bit0
      by (intro exI [of _ "?a # rs"]) (simp add: binary_size_cell [OF v] Let_def)
  qed
qed

lemma binary_row_cells:
  assumes "list_all2 valid_cell ts vs" and "null_bits 2 (map (\<lambda>c. c = None) vs) bm"
  shows "\<exists>r. binary_row_decode B ts (0 # bm @ concat (map2 binary_cell ts vs)) = Ok r
    \<and> (\<forall>i < length vs. row_get r i = Ok (vs ! i)) \<and> length (row_values r) = length vs"
proof -
  let ?pkt = "bm @ concat (map2 binary_cell ts vs)"
  have len: "length ts = length vs" using assms(1) by (rule list_all2_lengthD)
  have bits: "bit_is_null bm (0 + i) \<longleftrightarrow> vs ! i = None" if "i < length vs" for i
    using assms(2) that by (simp add: null_bits_def bit_is_null_def and_exp_eq_0_iff_not_bit push_bit_eq_mult Let_def)
  obtain rs where rs: "binary_values B bm (length ?pkt) 0 ts (concat (map2 binary_cell ts vs)) [] = Ok rs"
      "list_all2 (range_gives ?pkt) rs vs"
    using binary_values_cells [OF assms(1) bits, of ?pkt bm "[]" "[]"] by auto
  have "length bm = (length ts + 9) div 8" using assms(2) len by (simp add: null_bits_def)
  with rs(1) have "binary_row_decode B ts (0 # ?pkt) = Ok \<lparr>storage = ?pkt, row_values = rs\<rparr>"
    by (simp add: binary_row_decode_def)
  with rs(2) show ?thesis
    by (auto intro: row_get_range dest: list_all2_lengthD)
qed

lemma text_row_cells:
  assumes "list_all short_cell vs"
  shows "\<exists>r. text_row_decode B (length vs) (concat (map text_cell vs)) = Ok r
    \<and> (\<forall>i < length vs. row_get r i = Ok (vs ! i)) \<and> length (row_values r) = length vs"
proof -
  let ?pkt = "concat (map text_cell vs)"
  obtain rs where rs: "text_values B (length ?pkt) (length vs) ?pkt [] = Ok rs" "list_all2 (range_gives ?pkt) rs vs"
    using text_values_cells [OF assms, of ?pkt "[]" "[]" "[]"] by auto
  then have "text_row_decode B (length vs) ?pkt = Ok \<lparr>storage = ?pkt, row_values = rs\<rparr>"
    by (simp add: text_row_decode_def)
  with rs(2) show ?thesis by (auto intro: row_get_range dest: list_all2_lengthD)
qed

lemma column_decode_bytes:
  assumes "\<forall>f \<in> {catalog, schema, table_alias, table, col_alias, col_name}. length (f c) < 2 ^ 64"
  shows "column_definition_decode B (column_bytes c) = Ok (c\<lparr>col_flags := column_flags_from_bits_truncate (col_flags c)\<rparr>)"
  using assms
  by (cases c) (simp add: column_definition_decode_def column_bytes_def)

end

subsection \<open>Arguments\<close>

definition nbm_inv :: "bool list \<Rightarrow> null_bit_map \<Rightarrow> bool" where
  "nbm_inv flags m \<longleftrightarrow>
     nbm_length m = length flags \<and> length (nbm_bytes m) = (length flags + 7) div 8
     \<and> (\<forall>i < 8 * length (nbm_bytes m). bit (nbm_bytes m ! (i div 8)) (i mod 8) \<longleftrightarrow> i < length flags \<and> flags ! i)"

lemma nbm_inv_empty: "nbm_inv [] \<lparr>nbm_bytes = [], nbm_length = 0\<rparr>"
  by (simp add: nbm_inv_def)

lemma nbm_inv_bits:
  assumes "nbm_inv flags m"
  shows "null_bits 0 flags (nbm_bytes m)"
proof -
  have "i < 8 * length (nbm_bytes m)" if "i < length flags" for i
    using that assms unfolding nbm_inv_def by linarith
  with assms show ?thesis by (auto simp: nbm_inv_def null_bits_def)
qed

lemma bytes_of_bits:
  fixes k :: nat
  shows "k mod 8 = 0 \<Longrightarrow> (k + 7) div 8 = k div 8" and "k mod 8 \<noteq> 0 \<Longrightarrow> (k + 7) div 8 = k div 8 + 1"
    and "(k + 1 + 7) div 8 = k div 8 + 1"
proof -
  show "(k + 7) div 8 = k div 8" if "k mod 8 = 0"
    using that by (elim dvdE [OF mod_0_imp_dvd]) simp
  have *: "(k + 7) div 8 = q + 1" if "k = 8 * q + r" "0 < r" "r < 8" for q r
    using that by (intro div_nat_eqI) simp_all
  show "(k + 7) div 8 = k div 8 + 1" if "k mod 8 \<noteq> 0"
    using that by (intro * [of "k div 8" "k mod 8"]) (simp_all only: neq0_conv mult_div_mod_eq mod_less_divisor zero_less_numeral)
qed simp

lemma bit_set_byte:
  fixes bs :: bytes
  assumes "q < length bs" and "r < 8"
  shows "bit (bs[q := bs ! q OR push_bit k (if n then 1 else 0)] ! j) r \<longleftrightarrow> bit (bs ! j) r \<or> n \<and> j = q \<and> r = k"
  using assms by (cases "j = q") (auto simp: bit_or_iff bit_push_bit_iff bit_1_iff)

lemma div_mod_eq_iff: "i div 8 = l div 8 \<and> i mod 8 = l mod 8 \<longleftrightarrow> i = (l :: nat)"
  by (metis div_mult_mod_eq)

lemma nbm_inv_push:
  assumes "nbm_inv flags m"
  shows "nbm_inv (flags @ [n]) (null_bit_map_push n m)"
proof -
  let ?l = "length flags"
  define q k where qk: "q = ?l div 8" "k = ?l mod 8"
  define bs where "bs = (if k = 0 then nbm_bytes m @ [0] else nbm_bytes m)"
  have m: "nbm_length m = ?l" "length (nbm_bytes m) = (?l + 7) div 8"
    "\<And>i. i < 8 * length (nbm_bytes m) \<Longrightarrow> bit (nbm_bytes m ! (i div 8)) (i mod 8) \<longleftrightarrow> i < ?l \<and> flags ! i"
    using assms by (simp_all add: nbm_inv_def)
  have len: "length bs = q + 1"
    using m(2) bytes_of_bits(1,2) [of ?l, folded qk] by (cases "k = 0") (simp_all add: bs_def)
  have bits: "bit (bs ! (i div 8)) (i mod 8) \<longleftrightarrow> i < ?l \<and> flags ! i" if "i < 8 * length bs" for i
  proof (cases "i < 8 * length (nbm_bytes m)")
    case True
    then have "i div 8 < length (nbm_bytes m)" by (simp add: div_less_iff_less_mult mult.commute)
    then have "bs ! (i div 8) = nbm_bytes m ! (i div 8)" by (simp add: bs_def nth_append)
    with m(3) [OF True] show ?thesis by simp
  next
    case False
    with that have "k = 0" by (auto simp: bs_def split: if_splits)
    then have l: "length (nbm_bytes m) = q" "?l = 8 * q"
      using m(2) bytes_of_bits(1) [of ?l, folded qk] mult_div_mod_eq [of 8 ?l, folded qk] by simp_all
    have "i div 8 = q" using that False l(1) len by (intro div_nat_eqI) simp_all
    then have "bs ! (i div 8) = 0" using \<open>k = 0\<close> l(1) by (simp add: bs_def nth_append)
    moreover have "\<not> i < ?l" using False l by simp
    ultimately show ?thesis by simp
  qed
  let ?bs = "bs[q := bs ! q OR push_bit k (if n then 1 else 0)]"
  have "bit (?bs ! (i div 8)) (i mod 8) \<longleftrightarrow> i < ?l + 1 \<and> (flags @ [n]) ! i" if "i < 8 * length bs" for i
  proof -
    have "bit (?bs ! (i div 8)) (i mod 8) \<longleftrightarrow> (i < ?l \<and> flags ! i) \<or> n \<and> i div 8 = q \<and> i mod 8 = k"
      unfolding bits [OF that, symmetric] using len by (intro bit_set_byte) simp_all
    also have "\<dots> \<longleftrightarrow> (i < ?l \<and> flags ! i) \<or> n \<and> i = ?l"
      unfolding qk div_mod_eq_iff ..
    also have "\<dots> \<longleftrightarrow> i < ?l + 1 \<and> (flags @ [n]) ! i"
      by (cases i ?l rule: linorder_cases) (simp_all add: nth_append)
    finally show ?thesis .
  qed
  moreover have "null_bit_map_push n m = \<lparr>nbm_bytes = ?bs, nbm_length = ?l + 1\<rparr>"
    by (simp add: null_bit_map_push_def m(1) qk bs_def Let_def)
  moreover have "(?l + 1 + 7) div 8 = q + 1" using bytes_of_bits(3) [of ?l] qk(1) by simp
  ultimately show ?thesis using len by (simp add: nbm_inv_def)
qed

text \<open>How an argument's encoder behaves: it appends its bytes and says whether the value is null, or it
  fails, possibly after appending a part.\<close>

definition encodes :: "my_value \<Rightarrow> (bytes \<times> bool) option \<Rightarrow> bool" where
  "encodes v r =
     (case r of
        Some (out, n) \<Rightarrow> \<forall>buf. encode_value v buf = (buf @ out, Ok n)
      | None \<Rightarrow> \<forall>buf. \<exists>part e. encode_value v buf = (buf @ part, Err e))"

definition add_all :: "my_value list \<Rightarrow> my_arguments" where
  "add_all vs = foldl (\<lambda>a v. fst (my_arguments_add v a)) my_arguments_empty vs"

definition bound :: "my_value list \<Rightarrow> (bytes \<times> bool) option list \<Rightarrow> (type_info \<times> bytes \<times> bool) list" where
  "bound vs rs = concat (map2 (\<lambda>v r. case r of Some (out, n) \<Rightarrow> [(produces v, out, n)] | None \<Rightarrow> []) vs rs)"

definition args_inv :: "(type_info \<times> bytes \<times> bool) list \<Rightarrow> my_arguments \<Rightarrow> bool" where
  "args_inv bs a \<longleftrightarrow>
     arg_values a = concat (map (fst \<circ> snd) bs) \<and> my_arg_types a = map fst bs
     \<and> nbm_inv (map (snd \<circ> snd) bs) (null_bitmap a)"

lemma my_add_success:
  "encodes v (Some (out, n)) \<Longrightarrow>
   fst (my_arguments_add v a) =
     \<lparr>arg_values = arg_values a @ out, my_arg_types = my_arg_types a @ [produces v],
      null_bitmap = null_bit_map_push n (null_bitmap a)\<rparr>"
  by (simp add: encodes_def my_arguments_add_def)

lemma my_add_failure:
  assumes "encodes v None"
  shows "fst (my_arguments_add v a) = a"
proof -
  obtain part e where "encode_value v (arg_values a) = (arg_values a @ part, Err e)"
    using assms unfolding encodes_def by (simp only: option.case) blast
  then show ?thesis by (simp add: my_arguments_add_def)
qed

lemma args_inv_add:
  assumes "args_inv bs a" and "encodes v r"
  shows "args_inv (bs @ (case r of Some (out, n) \<Rightarrow> [(produces v, out, n)] | None \<Rightarrow> [])) (fst (my_arguments_add v a))"
proof (cases r)
  case None
  with assms show ?thesis by (simp add: my_add_failure)
next
  case (Some p)
  obtain out n where p: "p = (out, n)" by (cases p)
  with assms Some show ?thesis
    by (simp add: my_add_success args_inv_def nbm_inv_push)
qed

lemma args_inv_all:
  "list_all2 encodes vs rs \<Longrightarrow> args_inv bs a \<Longrightarrow>
   args_inv (bs @ bound vs rs) (foldl (\<lambda>a v. fst (my_arguments_add v a)) a vs)"
proof (induction vs rs arbitrary: bs a rule: list_all2_induct)
  case Nil
  then show ?case by (simp add: bound_def)
next
  case (Cons v vs r rs)
  from Cons.IH [OF args_inv_add [OF Cons.prems Cons.hyps(1)]] show ?case
    by (simp add: bound_def)
qed

lemma args_inv_add_all: "list_all2 encodes vs rs \<Longrightarrow> args_inv (bound vs rs) (add_all vs)"
  using args_inv_all [of vs rs "[]" my_arguments_empty]
  by (simp add: add_all_def args_inv_def my_arguments_empty_def nbm_inv_empty)

subsection \<open>Integers\<close>

lemma le_signed_eq: "le_signed bs = (if 2 * int (le_nat bs) < 256 ^ length bs then int (le_nat bs) else int (le_nat bs) - 256 ^ length bs)"
  using of_nat_less_iff [where 'a = int, of "2 * le_nat bs" "256 ^ length bs"] by (simp add: le_signed_def)

lemma le_signed_nat_le:
  assumes "- (256 ^ k) \<le> 2 * v" and "2 * v < 256 ^ k"
  shows "le_signed (nat_le k (nat (v mod 256 ^ k))) = v"
proof -
  define m :: int where "m = 256 ^ k"
  have m: "0 < m" "int (256 ^ k) = m" by (simp_all add: m_def)
  have "v mod m < m" "0 \<le> v mod m" using m by simp_all
  then have "nat (v mod m) < 256 ^ k" by (simp add: nat_less_iff m_def)
  with m \<open>0 \<le> v mod m\<close> have n: "int (le_nat (nat_le k (nat (v mod m)))) = v mod m"
    by (simp add: le_nat_nat_le)
  have "v mod m = (if 0 \<le> v then v else v + m)"
  proof (cases "0 \<le> v")
    case True
    with assms show ?thesis by (simp add: m_def)
  next
    case False
    with assms have "(v + m) mod m = v + m" by (intro mod_pos_pos_trivial) (auto simp: m_def)
    with False show ?thesis by simp
  qed
  with n assms show ?thesis
    unfolding le_signed_eq by (simp only: length_nat_le flip: m_def) auto
qed

lemma int_bits_bytes: "2 ^ int_bits w = (256 :: int) ^ (int_bits w div 8)" "0 < int_bits w div 8" "int_bits w div 8 \<le> 8"
  by (cases w; simp)+

lemma int_bits_half: "2 * 2 ^ (int_bits w - 1) = (2 :: int) ^ int_bits w"
  by (cases w) simp_all

definition in_width :: "int_width \<Rightarrow> int \<Rightarrow> bool" where
  "in_width w v \<longleftrightarrow> - (2 ^ (int_bits w - 1)) \<le> v \<and> v < 2 ^ (int_bits w - 1)"

lemma in_width_64: "in_width w v \<Longrightarrow> in_width W64 v"
  by (cases w) (auto simp: in_width_def)

context byteorder
begin

lemma int_decode_encode:
  assumes "in_width w v"
  shows "int_decode R \<lparr>vr_value = Some (fst (int_encode w v [])), vr_type = t, vr_format = BinaryFormat\<rparr> = Ok v"
proof -
  let ?bs = "nat_le (int_bits w div 8) (nat (v mod 2 ^ int_bits w))"
  have ne: "?bs \<noteq> []" "length ?bs \<le> 8"
    using int_bits_bytes(2,3) [of w] by (simp_all flip: length_0_conv)
  have "le_signed ?bs = v"
    unfolding int_bits_bytes(1)
    using assms int_bits_half [of w]
    by (intro le_signed_nat_le) (auto simp: in_width_def int_bits_bytes(1))
  with read_int_le [OF ne] ne show ?thesis
    by (simp add: int_decode_def int_encode_def as_bytes_def)
qed

end

lemma parse_signed_dec:
  assumes "in_width W64 v"
  shows "parse_signed 64 (if v < 0 then 45 # ascii (dec_string (nat (- v))) else ascii (dec_string (nat v))) = Some v"
  using assms by (auto simp: parse_signed_def in_width_def Let_def)

lemma parse_digits_other: "\<not> list_all digit_byte s \<Longrightarrow> parse_digits s = None"
  by (simp add: parse_digits_def)

definition list_byteorder :: byteorder_api where
  "list_byteorder = \<lparr>read_int = (\<lambda>bs n. le_signed (take n bs)), read_uint = (\<lambda>bs n. le_nat (take n bs))\<rparr>"

interpretation list_order: byteorder list_byteorder
  by unfold_locales (simp_all add: list_byteorder_def)

subsection \<open>Properties\<close>

text \<open>C12. A row of the binary protocol decodes to exactly the values the server put in it: for any
  column types and any values the types allow, nulls as the bitmap of the protocol marks them, every
  column reads its own bytes back.\<close>

theorem mysql_binary_row_roundtrip:
  assumes "bytes_contract B" and "list_all2 valid_cell ts vs" and "null_bits 2 (map (\<lambda>c. c = None) vs) bm"
  shows "\<exists>r. binary_row_decode B ts (0 # bm @ concat (map2 binary_cell ts vs)) = Ok r
    \<and> (\<forall>i < length vs. row_get r i = Ok (vs ! i)) \<and> length (row_values r) = length vs"
  by (rule bytes_contract.binary_row_cells [OF assms])

theorem mysql_binary_row_roundtrip_witness:
  "\<exists>r. binary_row_decode list_bytes [CT_Short, CT_VarChar, CT_Date, CT_Tiny] (0 # [32] @ [7, 1] @ [2, 65, 66] @ [0]) = Ok r
    \<and> (\<forall>i < 4. row_get r i = Ok ([Some [7, 1], Some [65, 66], Some [0], None] ! i)) \<and> length (row_values r) = 4"
proof -
  let ?ts = "[CT_Short, CT_VarChar, CT_Date, CT_Tiny]"
  let ?vs = "[Some [7, 1], Some [65, 66], Some [0], None] :: bytes option list"
  have "list_all2 valid_cell ?ts ?vs" by (simp add: valid_cell_def binary_value_def)
  moreover have "null_bits 2 (map (\<lambda>c. c = None) ?vs) [32]"
    by (simp add: null_bits_def All_less_Suc)
  moreover have "concat (map2 binary_cell ?ts ?vs) = [7, 1] @ [2, 65, 66] @ [0]"
    by (simp add: binary_cell_def put_bytes_lenenc_def put_uint_lenenc_def to_le_bytes_u64 wire_simps)
  moreover have "length ?vs = 4" by simp
  ultimately show ?thesis
    using mysql_binary_row_roundtrip [OF list_cursor.bytes_contract_axioms, of ?ts ?vs "[32]"] by (simp only:)
qed

text \<open>A row of the text protocol decodes to exactly the values the server put in it, with
  \<^verbatim>\<open>0xfb\<close> for null and every other value behind its length.\<close>

theorem mysql_text_row_roundtrip:
  assumes "bytes_contract B" and "list_all short_cell vs"
  shows "\<exists>r. text_row_decode B (length vs) (concat (map text_cell vs)) = Ok r
    \<and> (\<forall>i < length vs. row_get r i = Ok (vs ! i)) \<and> length (row_values r) = length vs"
  by (rule bytes_contract.text_row_cells [OF assms])

theorem mysql_text_row_roundtrip_witness:
  "\<exists>r. text_row_decode list_bytes 2 [0xfb, 1, 55] = Ok r
    \<and> (\<forall>i < 2. row_get r i = Ok ([None, Some [55]] ! i)) \<and> length (row_values r) = 2"
proof -
  have "concat (map text_cell [None, Some [55]]) = [0xfb, 1, 55]"
    by (simp add: put_bytes_lenenc_def put_uint_lenenc_def to_le_bytes_u64 wire_simps)
  moreover have "list_all short_cell [None, Some [55]]" by (simp add: short_cell_def)
  moreover have "length [None, Some [55 :: u8]] = 2" by simp
  ultimately show ?thesis
    using mysql_text_row_roundtrip [OF list_cursor.bytes_contract_axioms, of "[None, Some [55]]"]
    by (simp only:)
qed

text \<open>C33. Executing a prepared statement sends exactly the arguments whose encoding succeeded: after
  any sequence of adds, failing ones included, the packet has the null bitmap, the type codes with their
  sign bits, and the values of the successful ones, in order; with none of them it ends after the header.\<close>

theorem mysql_execute_arguments:
  assumes "list_all2 encodes vs rs"
  shows "\<exists>bm. null_bits 0 (map (snd \<circ> snd) (bound vs rs)) bm
    \<and> execute_encode stmt (add_all vs) buf =
        buf @ [0x17] @ to_le_bytes stmt @ [0, 1, 0, 0, 0]
        @ (if bound vs rs = [] then []
           else bm @ [1]
             @ concat (map (\<lambda>b. [column_type_code (ty (fst b)), if contains (ty_flags (fst b)) UNSIGNED then 0x80 else 0]) (bound vs rs))
             @ concat (map (fst \<circ> snd) (bound vs rs)))"
proof -
  have a: "args_inv (bound vs rs) (add_all vs)" by (rule args_inv_add_all [OF assms])
  then have "null_bits 0 (map (snd \<circ> snd) (bound vs rs)) (nbm_bytes (null_bitmap (add_all vs)))"
    by (simp add: args_inv_def nbm_inv_bits)
  moreover have "to_le_bytes (1 :: u32) = [1, 0, 0, 0]" by (simp add: to_le_bytes_def wire_simps)
  ultimately show ?thesis using a
    by (intro exI [of _ "nbm_bytes (null_bitmap (add_all vs))"])
      (simp add: execute_encode_def args_inv_def comp_def)
qed

theorem mysql_execute_arguments_witness:
  "\<exists>bm. null_bits 0 [False, True] bm
    \<and> execute_encode 9 (add_all
        [\<lparr>produces = int_type_info W16, encode_value = int_encode W16 258\<rparr>,
         \<lparr>produces = bytes_type_info, encode_value = (\<lambda>b. (b @ [1], Err (EncodeError ''x'')))\<rparr>,
         \<lparr>produces = uint_type_info CT_Tiny, encode_value = (\<lambda>b. (b, Ok True))\<rparr>]) [] =
      [0x17, 9, 0, 0, 0, 0, 1, 0, 0, 0] @ bm @ [1, 2, 0, 1, 0x80, 2, 1]"
proof -
  let ?vs = "[\<lparr>produces = int_type_info W16, encode_value = int_encode W16 258\<rparr>,
      \<lparr>produces = bytes_type_info, encode_value = (\<lambda>b. (b @ [1], Err (EncodeError ''x'')))\<rparr>,
      \<lparr>produces = uint_type_info CT_Tiny, encode_value = (\<lambda>b. (b, Ok True))\<rparr>]"
  let ?rs = "[Some ([2, 1], False), None, Some ([], True)]"
  have "list_all2 encodes ?vs ?rs" by (simp add: encodes_def int_encode_def wire_simps)
  from mysql_execute_arguments [OF this, of 9 "[]"] show ?thesis
    by (simp add: bound_def int_type_info_def type_info_binary_def uint_type_info_def contains_def
        UNSIGNED_def BINARY_def to_le_bytes_def wire_simps)
qed

definition int_text :: "int \<Rightarrow> bytes" where
  "int_text v = (if v < 0 then 45 # ascii (dec_string (nat (- v))) else ascii (dec_string (nat v)))"

lemma valid_utf8_int_text: "valid_utf8 (int_text v)"
proof (rule valid_utf8_ascii)
  have "b < 0x80" if "digit_byte b" for b
    using that unfolding digit_byte_def word_le_nat_alt word_less_nat_alt by simp
  then have "\<forall>b \<in> set (ascii (dec_string n)). b < 0x80" for n
    using digit_byte_ascii [of n] unfolding list_all_iff by blast
  then show "\<forall>b \<in> set (int_text v). b < 0x80" by (simp add: int_text_def)
qed

text \<open>Integers survive the binary and the text protocol at every width: what is encoded at one
  width decodes at any width that can hold it, and gives an error at one that cannot.\<close>

theorem mysql_int_roundtrip:
  assumes "byteorder R" and "in_width w v"
  shows "int_decode_as R w' \<lparr>vr_value = Some (fst (int_encode w v [])), vr_type = t, vr_format = BinaryFormat\<rparr> =
      (if in_width w' v then Ok v else Err (DecodeError ''out of range integral type conversion attempted''))
    \<and> int_decode_as R w' \<lparr>vr_value = Some (int_text v), vr_type = t, vr_format = TextFormat\<rparr> =
      (if in_width w' v then Ok v else Err (DecodeError ''out of range integral type conversion attempted''))"
  using byteorder.int_decode_encode [OF assms] parse_signed_dec [OF in_width_64 [OF assms(2)], folded int_text_def]
    valid_utf8_int_text [of v]
  by (simp add: int_decode_as_def in_width_def int_decode_def as_str_def as_bytes_def)

theorem mysql_int_roundtrip_witness:
  "int_decode_as list_byteorder W32 \<lparr>vr_value = Some [0xfe, 0xff], vr_type = int_type_info W16, vr_format = BinaryFormat\<rparr> = Ok (- 2)
   \<and> int_decode_as list_byteorder W8 \<lparr>vr_value = Some [45, 50, 48, 48], vr_type = int_type_info W16, vr_format = TextFormat\<rparr>
     = Err (DecodeError ''out of range integral type conversion attempted'')"
proof -
  have 1: "fst (int_encode W16 (- 2) []) = [0xfe, 0xff]" by (simp add: int_encode_def wire_simps)
  have 2: "int_text (- 200) = [45, 50, 48, 48]"
    by (simp add: int_text_def dec_string.simps digit_char_def ascii_def)
  have 3: "in_width W16 (- 2)" "in_width W16 (- 200)" "in_width W32 (- 2)" "\<not> in_width W8 (- 200)"
    by (simp_all add: in_width_def)
  show ?thesis
    using mysql_int_roundtrip [OF list_order.byteorder_axioms 3(1), of W32 "int_type_info W16"]
      mysql_int_roundtrip [OF list_order.byteorder_axioms 3(2), of W8 "int_type_info W16"]
    by (simp only: 1 2 3 if_True if_False)
qed

text \<open>C40. A \<^verbatim>\<open>BIT(1)\<close> column is compatible with \<^verbatim>\<open>bool\<close>, and its unsigned decoding reads the raw
  bytes in either protocol, but decoding it as \<^verbatim>\<open>bool\<close> from the text protocol fails: the raw byte is
  parsed as decimal text.\<close>

theorem mysql_text_bit_not_bool:
  assumes "byteorder R" and "b = 0 \<or> b = (1 :: u8)"
  shows "bool_compatible \<lparr>ty = CT_Bit, ty_flags = fl, ty_max_size = sz\<rparr>
    \<and> uint_decode R \<lparr>vr_value = Some [b], vr_type = \<lparr>ty = CT_Bit, ty_flags = fl, ty_max_size = sz\<rparr>, vr_format = f\<rparr> = Ok (ucast b)
    \<and> bool_decode R \<lparr>vr_value = Some [b], vr_type = \<lparr>ty = CT_Bit, ty_flags = fl, ty_max_size = sz\<rparr>, vr_format = BinaryFormat\<rparr> = Ok (b = 1)
    \<and> bool_decode R \<lparr>vr_value = Some [b], vr_type = \<lparr>ty = CT_Bit, ty_flags = fl, ty_max_size = sz\<rparr>, vr_format = TextFormat\<rparr>
        = Err (DecodeError ''invalid integer'')"
proof -
  have i: "read_int R [b] (Suc 0) = (if b = 1 then 1 else 0)"
    using byteorder.read_int_le [OF assms(1), of "[b]"] assms(2) by (auto simp: le_signed_def)
  have p: "parse_signed 64 [b] = None"
    using assms(2) by (elim disjE) (simp_all add: parse_signed_def parse_digits_def digit_byte_def word_le_nat_alt)
  have u: "valid_utf8 [b]" using assms(2) by (elim disjE) simp_all
  show ?thesis
  proof (intro conjI)
    show "bool_decode R \<lparr>vr_value = Some [b], vr_type = \<lparr>ty = CT_Bit, ty_flags = fl, ty_max_size = sz\<rparr>, vr_format = BinaryFormat\<rparr> = Ok (b = 1)"
      by (simp add: bool_decode_def int_decode_as_def int_decode_def as_bytes_def i)
    show "bool_decode R \<lparr>vr_value = Some [b], vr_type = \<lparr>ty = CT_Bit, ty_flags = fl, ty_max_size = sz\<rparr>, vr_format = TextFormat\<rparr>
        = Err (DecodeError ''invalid integer'')"
      using u by (simp add: bool_decode_def int_decode_as_def int_decode_def as_bytes_def as_str_def p del: valid_utf8.simps)
  qed (simp_all add: bool_compatible_def uint_decode_def as_bytes_def)
qed

theorem mysql_text_bit_not_bool_witness:
  "bool_decode list_byteorder \<lparr>vr_value = Some [1], vr_type = \<lparr>ty = CT_Bit, ty_flags = UNSIGNED, ty_max_size = Some 1\<rparr>,
     vr_format = TextFormat\<rparr> = Err (DecodeError ''invalid integer'')"
  using mysql_text_bit_not_bool [OF list_order.byteorder_axioms, of 1] by blast

text \<open>A column definition packet decodes to the definition the server sent, its flags cut to the
  known ones; the type code round trips, and an unknown code is an error.\<close>

theorem mysql_column_roundtrip:
  assumes "bytes_contract B"
    and "\<forall>f \<in> {catalog, schema, table_alias, table, col_alias, col_name}. length (f c) < 2 ^ 64"
  shows "column_definition_decode B (column_bytes c) = Ok (c\<lparr>col_flags := column_flags_from_bits_truncate (col_flags c)\<rparr>)
    \<and> (try_from_u16 code = Ok t \<longleftrightarrow> column_type_code t = code)"
  using bytes_contract.column_decode_bytes [OF assms] by (simp add: try_from_u16_iff)

definition demo_column :: column_definition where
  "demo_column = \<lparr>catalog = [100], schema = [], table_alias = [], table = [], col_alias = [97], col_name = [98],
     collation = 33, col_max_size = 4, col_type = CT_Long, col_flags = 0x4001, decimals = 0\<rparr>"

theorem mysql_column_roundtrip_witness:
  "column_definition_decode list_bytes (column_bytes demo_column) = Ok (demo_column\<lparr>col_flags := 1\<rparr>)"
  using mysql_column_roundtrip [OF list_cursor.bytes_contract_axioms, of demo_column]
  by (simp add: demo_column_def column_flags_from_bits_truncate_def)

end
