(* ===== verification/MySql_Time.thy ===== *)
theory MySql_Time
  imports Prelude
begin

section \<open>MySQL \<^verbatim>\<open>TIME\<close> values\<close>

text \<open>
  \<^verbatim>\<open>sqlx-mysql/src/types/mysql_time.rs\<close>: the type \<^verbatim>\<open>MySqlTime\<close> with its checked constructor, its order, the binary format, the
  text format and the conversions to and from \<^verbatim>\<open>Duration\<close>; and the conversions to and from the signed duration of
  the crate \<^verbatim>\<open>chrono\<close> (\<^verbatim>\<open>sqlx-mysql/src/types/chrono.rs\<close>), which is a parameter.  Texts are byte strings.
\<close>

datatype MySqlTimeSign = Negative | Positive

record TimeMagnitude =
  tm_hours :: u32
  tm_minutes :: u8
  tm_seconds :: u8
  tm_microseconds :: u32

record MySqlTime =
  sign :: MySqlTimeSign
  magnitude :: TimeMagnitude

datatype MySqlTimeError =
    FieldRange string nat nat
  | SubsecondExcess MySqlTimeSign u32 MySqlTime
  | NegativeZero

datatype ordering = Less | Equal | Greater

record duration =
  as_secs :: u64
  dur_nanos :: u32

subsection \<open>The type\<close>

definition HOURS_MAX :: u32 where "HOURS_MAX = 838"

definition MAGNITUDE_ZERO :: TimeMagnitude where
  "MAGNITUDE_ZERO = \<lparr>tm_hours = 0, tm_minutes = 0, tm_seconds = 0, tm_microseconds = 0\<rparr>"

definition MAGNITUDE_MAX :: TimeMagnitude where
  "MAGNITUDE_MAX = \<lparr>tm_hours = HOURS_MAX, tm_minutes = 59, tm_seconds = 59, tm_microseconds = 0\<rparr>"

definition TIME_ZERO :: MySqlTime where "TIME_ZERO = \<lparr>sign = Positive, magnitude = MAGNITUDE_ZERO\<rparr>"

definition TIME_MAX :: MySqlTime where "TIME_MAX = \<lparr>sign = Positive, magnitude = MAGNITUDE_MAX\<rparr>"

definition TIME_MIN :: MySqlTime where "TIME_MIN = \<lparr>sign = Negative, magnitude = MAGNITUDE_MAX\<rparr>"

definition sign_is_positive :: "MySqlTimeSign \<Rightarrow> bool" where "sign_is_positive s \<longleftrightarrow> s = Positive"

definition sign_is_negative :: "MySqlTimeSign \<Rightarrow> bool" where "sign_is_negative s \<longleftrightarrow> s = Negative"

definition signum :: "MySqlTimeSign \<Rightarrow> int" where "signum s = (case s of Negative \<Rightarrow> -1 | Positive \<Rightarrow> 1)"

definition sign_to_byte :: "MySqlTimeSign \<Rightarrow> u8" where "sign_to_byte s = (case s of Negative \<Rightarrow> 1 | Positive \<Rightarrow> 0)"

definition sign_from_byte :: "u8 \<Rightarrow> MySqlTimeSign result" where
  "sign_from_byte b =
     (if b = 0 then Ok Positive else if b = 1 then Ok Negative
      else Err (DecodeError ''expected 0 or 1 for TIME sign byte''))"

text \<open>The derived orders: the negative sign is the smaller, magnitudes compare lexicographically.\<close>

definition compare :: "'a::linorder \<Rightarrow> 'a \<Rightarrow> ordering" where
  "compare x y = (if x < y then Less else if x = y then Equal else Greater)"

definition then_with :: "ordering \<Rightarrow> ordering \<Rightarrow> ordering" where
  "then_with a b = (case a of Equal \<Rightarrow> b | _ \<Rightarrow> a)"

definition magnitude_cmp :: "TimeMagnitude \<Rightarrow> TimeMagnitude \<Rightarrow> ordering" where
  "magnitude_cmp a b =
     then_with (compare (tm_hours a) (tm_hours b))
    (then_with (compare (tm_minutes a) (tm_minutes b))
    (then_with (compare (tm_seconds a) (tm_seconds b))
               (compare (tm_microseconds a) (tm_microseconds b))))"

definition sign_cmp :: "MySqlTimeSign \<Rightarrow> MySqlTimeSign \<Rightarrow> ordering" where
  "sign_cmp a b = (if a = b then Equal else if a = Negative then Less else Greater)"

definition time_cmp :: "MySqlTime \<Rightarrow> MySqlTime \<Rightarrow> ordering" where
  "time_cmp a b =
     (if sign a \<noteq> sign b then sign_cmp (sign a) (sign b)
      else case sign a of
          Positive \<Rightarrow> magnitude_cmp (magnitude a) (magnitude b)
        | Negative \<Rightarrow> magnitude_cmp (magnitude b) (magnitude a))"

definition time_new :: "MySqlTimeSign \<Rightarrow> u32 \<Rightarrow> u8 \<Rightarrow> u8 \<Rightarrow> u32 \<Rightarrow> MySqlTimeError + MySqlTime" where
  "time_new sn hours minutes seconds microseconds =
     (if HOURS_MAX < hours then Inl (FieldRange ''hours'' (unat HOURS_MAX) (unat hours))
      else if 59 < minutes then Inl (FieldRange ''minutes'' 59 (unat minutes))
      else if 59 < seconds then Inl (FieldRange ''seconds'' 59 (unat seconds))
      else if 999999 < microseconds then Inl (FieldRange ''microseconds'' 999999 (unat microseconds))
      else
        let values = \<lparr>tm_hours = hours, tm_minutes = minutes, tm_seconds = seconds, tm_microseconds = microseconds\<rparr> in
        if sign_is_negative sn \<and> values = MAGNITUDE_ZERO then Inl NegativeZero
        else if magnitude_cmp values MAGNITUDE_MAX = Greater
        then Inl (SubsecondExcess sn microseconds (if sign_is_positive sn then TIME_MAX else TIME_MIN))
        else Inr \<lparr>sign = sn, magnitude = values\<rparr>)"

definition with_sign :: "MySqlTime \<Rightarrow> MySqlTimeSign \<Rightarrow> MySqlTime" where "with_sign t sn = t\<lparr>sign := sn\<rparr>"

definition is_zero :: "MySqlTime \<Rightarrow> bool" where "is_zero t \<longleftrightarrow> t = TIME_ZERO"

definition is_positive :: "MySqlTime \<Rightarrow> bool" where "is_positive t \<longleftrightarrow> sign_is_positive (sign t)"

definition is_negative :: "MySqlTime \<Rightarrow> bool" where "is_negative t \<longleftrightarrow> sign_is_positive (sign t)"

definition is_valid_time_of_day :: "MySqlTime \<Rightarrow> bool" where
  "is_valid_time_of_day t \<longleftrightarrow> sign_is_positive (sign t) \<and> tm_hours (magnitude t) < 24"

definition whole_seconds :: "MySqlTime \<Rightarrow> u32" where
  "whole_seconds t =
     tm_hours (magnitude t) * 3600 + ucast (tm_minutes (magnitude t)) * 60 + ucast (tm_seconds (magnitude t))"


definition subsec_nanos :: "MySqlTime \<Rightarrow> u32" where
  "subsec_nanos t = tm_microseconds (magnitude t) * 1000"

definition Duration_new :: "u64 \<Rightarrow> u32 \<Rightarrow> duration" where
  "Duration_new secs nanos =
     \<lparr>as_secs = secs + of_nat (unat nanos div 1000000000), dur_nanos = of_nat (unat nanos mod 1000000000)\<rparr>"

definition to_duration :: "MySqlTime \<Rightarrow> duration option" where
  "to_duration t = (if is_positive t then Some (Duration_new (ucast (whole_seconds t)) (subsec_nanos t)) else None)"

definition time_try_from :: "duration \<Rightarrow> MySqlTimeError + MySqlTime" where
  "time_try_from value =
     (let hours = unat (as_secs value) div 3600;
          rem_seconds = unat (as_secs value) mod 3600;
          minutes = of_nat (rem_seconds div 60);
          seconds = of_nat (rem_seconds mod 60);
          microseconds = of_nat (unat (dur_nanos value) div 1000) in
      if hours < 2 ^ 32 then time_new Positive (of_nat hours) minutes seconds microseconds
      else Inl (FieldRange ''hours'' (unat HOURS_MAX) hours))"

definition encoded_len :: "MySqlTime \<Rightarrow> u8" where
  "encoded_len t = (if is_zero t then 0 else if tm_microseconds (magnitude t) = 0 then 8 else 12)"

subsection \<open>The binary format\<close>

definition time_error :: "MySqlTimeError \<Rightarrow> error" where
  "time_error e =
     (case e of
        FieldRange f n v \<Rightarrow> DecodeError (''`MySqlTime` field `'' @ f @ ''` cannot exceed '' @ dec_string n @ '', got '' @ dec_string v)
      | SubsecondExcess s u t \<Rightarrow> DecodeError ''`MySqlTime` cannot exceed +/-838:59:59.000000''
      | NegativeZero \<Rightarrow> DecodeError ''attempted to construct a `MySqlTime` value of negative zero'')"

definition box_err :: "MySqlTimeError + 'a \<Rightarrow> 'a result" where
  "box_err r = (case r of Inl e \<Rightarrow> Err (time_error e) | Inr x \<Rightarrow> Ok x)"

definition checked_hours :: "u32 \<Rightarrow> u8 \<Rightarrow> u32 result" where
  "checked_hours days hours =
     (if unat days * 24 < 2 ^ 32 \<and> unat days * 24 + unat hours < 2 ^ 32
      then Ok (of_nat (unat days * 24 + unat hours))
      else Err (DecodeError ''overflow calculating whole hours from `days * 24 + hours`''))"

definition time_decode_binary :: "bytes \<Rightarrow> MySqlTime result" where
  "time_decode_binary buf =
     (case buf of
        [] \<Rightarrow> Err (DecodeError ''empty buffer'')
      | len # buf \<Rightarrow>
          if len = 0 then Ok TIME_ZERO
          else if length buf \<noteq> 8 \<and> length buf \<noteq> 12
          then Err (DecodeError ''expected 8 or 12 bytes for TIME value'')
          else
            rbind (sign_from_byte (buf ! 0)) (\<lambda>sn.
              let days = from_le_bytes (take 4 (drop 1 buf));
                  hours = buf ! 5; minutes = buf ! 6; seconds = buf ! 7;
                  microseconds = (if drop 8 buf \<noteq> [] then from_le_bytes (take 4 (drop 8 buf)) else 0) in
              rbind (checked_hours days hours) (\<lambda>whole_hours.
                box_err (time_new sn whole_hours minutes seconds microseconds))))"

definition time_encode :: "MySqlTime \<Rightarrow> bytes \<Rightarrow> bytes" where
  "time_encode t buf =
     (if is_zero t then buf @ [0]
      else
        let whole_hours = tm_hours (magnitude t); days = whole_hours div 24; hours = ucast (whole_hours mod 24) in
        buf @ [encoded_len t, sign_to_byte (sign t)] @ to_le_bytes days
          @ [hours, tm_minutes (magnitude t), tm_seconds (magnitude t)]
          @ (if tm_microseconds (magnitude t) \<noteq> 0 then to_le_bytes (tm_microseconds (magnitude t)) else []))"

definition time_size_hint :: "MySqlTime \<Rightarrow> nat" where
  "time_size_hint t = unat (encoded_len t) + 1"

subsection \<open>The text format\<close>

text \<open>\<^verbatim>\<open>{:02}\<close>\<close>

definition two_digits :: "nat \<Rightarrow> string" where
  "two_digits n = (if n < 10 then digit_char 0 # dec_string n else dec_string n)"

text \<open>The loop over the digits of the fraction; it divides by the power of ten, which reaches zero.\<close>

function frac_digits :: "nat \<Rightarrow> nat \<Rightarrow> nat option \<Rightarrow> (string \<times> nat option) result" where
  "frac_digits remainder power_of_10 prec =
     (if 0 < remainder \<and> prec \<noteq> Some 0 then
        if power_of_10 = 0 then Panic
        else rbind (frac_digits (remainder mod power_of_10) (power_of_10 div 10) (map_option (\<lambda>p. p - 1) prec))
               (\<lambda>(ds, rest). Ok (dec_string (remainder div power_of_10) @ ds, rest))
      else Ok ([], prec))"
  by auto
termination by (relation "measure (\<lambda>(r, p, q). p)") auto

declare frac_digits.simps [simp del]

definition sign_display :: "bool \<Rightarrow> MySqlTimeSign \<Rightarrow> string" where
  "sign_display sign_plus s = (case s of Positive \<Rightarrow> if sign_plus then ''+'' else [] | Negative \<Rightarrow> ''-'')"

definition time_display :: "bool \<Rightarrow> nat option \<Rightarrow> MySqlTime \<Rightarrow> string result" where
  "time_display sign_plus precision t =
     (let hours = unat (tm_hours (magnitude t)); minutes = unat (tm_minutes (magnitude t));
          seconds = unat (tm_seconds (magnitude t)); microseconds = unat (tm_microseconds (magnitude t));
          s = sign_display sign_plus (sign t) @ dec_string hours @ '':'' @ two_digits minutes @ '':'' @ two_digits seconds in
      if (case precision of None \<Rightarrow> microseconds \<noteq> 0 | Some it \<Rightarrow> it \<noteq> 0)
      then rbind (frac_digits microseconds 100000 precision) (\<lambda>(ds, rest).
             Ok (s @ ''.'' @ ds @ (case rest of Some p \<Rightarrow> replicate p (digit_char 0) | None \<Rightarrow> [])))
      else Ok s)"

definition parsed :: "string \<Rightarrow> 'a option \<Rightarrow> 'a result" where
  "parsed what r = (case r of Some x \<Rightarrow> Ok x | None \<Rightarrow> Err (DecodeError (''error parsing '' @ what)))"

text \<open>Slicing a string inside of a character panics.\<close>

definition parse_microseconds :: "bytes \<Rightarrow> u32 result" where
  "parse_microseconds micros =
     (if micros = [] then Err (DecodeError ''empty string'')
      else if length micros \<le> 6 then
        rbind (parsed ''microseconds'' (parse_unsigned 32 micros)) (\<lambda>n.
          rassert (n * 10 ^ (6 - length micros) < 2 ^ 32) (Ok (of_nat (n * 10 ^ (6 - length micros)))))
      else if utf8_cont (micros ! 6) then Panic
      else rmap of_nat (parsed ''microseconds'' (parse_unsigned 32 (take 6 micros))))"

definition parse_seconds :: "bytes \<Rightarrow> (u8 \<times> u32) result" where
  "parse_seconds s =
     (case split_once 46 s of
        Some (seconds, microseconds) \<Rightarrow>
          rbind (parsed ''seconds'' (parse_unsigned 8 seconds)) (\<lambda>seconds.
          rbind (parse_microseconds microseconds) (\<lambda>microseconds. Ok (of_nat seconds, microseconds)))
      | None \<Rightarrow> rbind (parsed ''seconds'' (parse_unsigned 8 s)) (\<lambda>seconds. Ok (of_nat seconds, 0)))"

definition time_parse :: "bytes \<Rightarrow> MySqlTime result" where
  "time_parse text =
     (case split_on 58 text of
        hours # minutes # seconds # _ \<Rightarrow>
          rbind (parsed ''hours'' (parse_signed 32 hours)) (\<lambda>hours.
            let sn = (if hours < 0 then Negative else Positive); hours = nat \<bar>hours\<bar> in
            rbind (parsed ''minutes'' (parse_unsigned 8 minutes)) (\<lambda>minutes.
            rbind (parse_seconds seconds) (\<lambda>(seconds, microseconds).
              box_err (time_new sn (of_nat hours) (of_nat minutes) seconds microseconds))))
      | _ \<Rightarrow> Err (DecodeError ''expected hours, minutes and seconds segments''))"

definition duration_decode :: "(bytes \<Rightarrow> MySqlTime result) \<Rightarrow> bytes \<Rightarrow> duration result" where
  "duration_decode decode_time value =
     rbind (decode_time value) (\<lambda>time.
       case to_duration time of
         Some d \<Rightarrow> Ok d
       | None \<Rightarrow> Err (DecodeError ''`std::time::Duration` can only decode positive TIME values''))"

subsection \<open>\<^verbatim>\<open>chrono::TimeDelta\<close>\<close>







subsection \<open>Valid times\<close>

definition valid_time :: "MySqlTime \<Rightarrow> bool" where
  "valid_time t \<longleftrightarrow> tm_hours (magnitude t) \<le> 838 \<and> tm_minutes (magnitude t) \<le> 59 \<and> tm_seconds (magnitude t) \<le> 59 \<and>
     tm_microseconds (magnitude t) \<le> 999999 \<and> magnitude_cmp (magnitude t) MAGNITUDE_MAX \<noteq> Greater \<and>
     t \<noteq> \<lparr>sign = Negative, magnitude = MAGNITUDE_ZERO\<rparr>"

lemma time_new_iff:
  "time_new sn h m s u = Inr t \<longleftrightarrow>
     t = \<lparr>sign = sn, magnitude = \<lparr>tm_hours = h, tm_minutes = m, tm_seconds = s, tm_microseconds = u\<rparr>\<rparr> \<and> valid_time t"
  unfolding time_new_def valid_time_def Let_def HOURS_MAX_def
  by (auto simp: not_less sign_is_negative_def)

lemma time_new_valid [simp]:
  "valid_time t \<Longrightarrow> time_new (sign t) (tm_hours (magnitude t)) (tm_minutes (magnitude t)) (tm_seconds (magnitude t))
     (tm_microseconds (magnitude t)) = Inr t"
  by (simp add: time_new_iff)

lemma zero_valid: "valid_time TIME_ZERO"
  by (simp add: valid_time_def TIME_ZERO_def MAGNITUDE_ZERO_def MAGNITUDE_MAX_def magnitude_cmp_def
      compare_def then_with_def HOURS_MAX_def)

lemma box_err_Ok [simp]: "box_err r = Ok x \<longleftrightarrow> r = Inr x"
  by (auto simp: box_err_def split: sum.splits)

subsection \<open>The binary format\<close>

lemma four_bytes: "length bs = 4 \<Longrightarrow> \<exists>a b c d. bs = [a, b, c, d]"
  by (auto simp: numeral_eq_Suc length_Suc_conv)

lemma checked_hours_split:
  "checked_hours (h div 24) (ucast (h mod 24)) = Ok h"
proof -
  have "unat (h mod 24) < 24" by (simp add: unat_mod)
  then have u: "unat (ucast (h mod 24) :: u8) = unat h mod 24"
    by (simp add: unat_ucast_mod unat_mod)
  have "unat (h div 24) * 24 + unat h mod 24 = unat h" by (simp add: unat_div)
  moreover have "unat (h div 24) * 24 \<le> unat h" by (simp add: unat_div)
  ultimately show ?thesis
    using unat_u32_less [of h] by (simp add: checked_hours_def u)
qed

lemma sign_from_to_byte [simp]: "sign_from_byte (sign_to_byte s) = Ok s"
  by (cases s) (simp_all add: sign_from_byte_def sign_to_byte_def)

lemma time_decode_encode:
  assumes "valid_time t"
  shows "time_decode_binary (time_encode t []) = Ok t"
proof (cases "is_zero t")
  case True
  then show ?thesis by (simp add: time_encode_def time_decode_binary_def is_zero_def)
next
  case False
  let ?h = "tm_hours (magnitude t)" and ?u = "tm_microseconds (magnitude t)"
  obtain a b c d where d: "to_le_bytes (?h div 24) = [a, b, c, d]" using four_bytes [of "to_le_bytes (?h div 24)"] by auto
  obtain a' b' c' d' where u: "to_le_bytes ?u = [a', b', c', d']" using four_bytes [of "to_le_bytes ?u"] by auto
  have fd: "from_le_bytes [a, b, c, d] = ?h div 24" using from_to_le_bytes [of "?h div 24"] d by simp
  have fu: "from_le_bytes [a', b', c', d'] = ?u" using from_to_le_bytes [of ?u] u by simp
  show ?thesis
    using False time_new_valid [OF assms]
    by (cases "?u = 0") (simp_all add: time_encode_def time_decode_binary_def encoded_len_def Let_def d u fd fu checked_hours_split)
qed

lemma time_decode_valid: "time_decode_binary buf = Ok t \<Longrightarrow> valid_time t"
  by (auto simp: time_decode_binary_def Let_def time_new_iff TIME_ZERO_def valid_time_def MAGNITUDE_ZERO_def MAGNITUDE_MAX_def
      magnitude_cmp_def compare_def then_with_def HOURS_MAX_def split: list.splits if_splits)

lemma time_parse_valid: "time_parse text = Ok t \<Longrightarrow> valid_time t"
  by (auto simp: time_parse_def Let_def time_new_iff split: list.splits)

lemma time_try_from_valid: "time_try_from d = Inr t \<Longrightarrow> valid_time t"
  by (auto simp: time_try_from_def Let_def time_new_iff split: if_splits)

subsection \<open>The order\<close>

definition magnitude_micros :: "TimeMagnitude \<Rightarrow> nat" where
  "magnitude_micros m =
     ((unat (tm_hours m) * 60 + unat (tm_minutes m)) * 60 + unat (tm_seconds m)) * 1000000 + unat (tm_microseconds m)"

definition time_micros :: "MySqlTime \<Rightarrow> int" where
  "time_micros t = signum (sign t) * int (magnitude_micros (magnitude t))"

lemma compare_word: "compare (a :: 'a::len word) b = compare (unat a) (unat b)"
  by (simp add: compare_def word_less_nat_alt word_unat_eq_iff)

lemma compare_lex:
  assumes "r < k" and "s < k"
  shows "then_with (compare x y) (compare r s) = compare (x * k + r) (y * k + s :: nat)"
proof -
  have "x * k + r < y * k + s" if "x < y" and "r < k" for x y r s :: nat
  proof -
    have "Suc x * k \<le> y * k" using that(1) by (intro mult_le_mono1) simp
    with that(2) show ?thesis by simp
  qed
  from this [of x y r s] this [of y x s r] assms show ?thesis
    by (cases x y rule: linorder_cases) (auto simp: compare_def then_with_def)
qed

lemma then_with_assoc: "then_with (then_with a b) c = then_with a (then_with b c)"
  by (cases a) (simp_all add: then_with_def)

lemma magnitude_cmp_micros:
  assumes "valid_time a" and "valid_time b"
  shows "magnitude_cmp (magnitude a) (magnitude b) = compare (magnitude_micros (magnitude a)) (magnitude_micros (magnitude b))"
proof -
  have r: "unat (tm_minutes (magnitude t)) < 60" "unat (tm_seconds (magnitude t)) < 60" "unat (tm_microseconds (magnitude t)) < 1000000"
    if "valid_time t" for t using that by (simp_all add: valid_time_def word_le_nat_alt)
  note l = compare_lex [OF r(1) [OF assms(1)] r(1) [OF assms(2)]] compare_lex [OF r(2) [OF assms(1)] r(2) [OF assms(2)]]
    compare_lex [OF r(3) [OF assms(1)] r(3) [OF assms(2)]]
  show ?thesis
    unfolding magnitude_cmp_def magnitude_micros_def compare_word then_with_assoc [symmetric] by (simp only: l)
qed

lemma magnitude_micros_0: "magnitude_micros m = 0 \<longleftrightarrow> m = MAGNITUDE_ZERO"
  by (cases m) (simp add: magnitude_micros_def MAGNITUDE_ZERO_def unat_eq_zero)

lemma time_cmp_micros:
  assumes "valid_time a" and "valid_time b"
  shows "time_cmp a b = compare (time_micros a) (time_micros b)"
proof -
  have nz: "0 < magnitude_micros (magnitude t)" if "valid_time t" "sign t = Negative" for t
    using that magnitude_micros_0 [of "magnitude t"] by (cases t) (auto simp: valid_time_def)
  show ?thesis
    using magnitude_cmp_micros [OF assms] magnitude_cmp_micros [OF assms(2,1)] nz [OF assms(1)] nz [OF assms(2)]
    by (cases "sign a"; cases "sign b") (auto simp: time_cmp_def sign_cmp_def time_micros_def signum_def compare_def)
qed

subsection \<open>The text format\<close>

lemma foldl_dec: "foldl (\<lambda>a c. 10 * a + digit_val c) n cs = n * 10 ^ length cs + dec_value cs"
proof (induction cs arbitrary: n)
  case (Cons c cs)
  have "dec_value (c # cs) = digit_val c * 10 ^ length cs + dec_value cs"
    unfolding dec_value_def foldl_Cons using Cons [of "digit_val c"] by (simp add: dec_value_def)
  with Cons [of "10 * n + digit_val c"] show ?case by (simp add: algebra_simps)
qed (simp add: dec_value_def)

lemma dec_value_Cons: "dec_value (c # cs) = digit_val c * 10 ^ length cs + dec_value cs"
  using foldl_dec [of "digit_val c" cs] by (simp add: dec_value_def)

definition all_digits :: "string \<Rightarrow> bool" where
  "all_digits s \<longleftrightarrow> list_all digit_byte (ascii s)"

lemma all_digits_simps [simp]:
  "all_digits []" "all_digits (dec_string n)" "all_digits (s @ t) \<longleftrightarrow> all_digits s \<and> all_digits t"
  by (simp_all add: all_digits_def digit_byte_ascii) (simp add: ascii_def)

lemma all_digits_Cons [simp]: "d < 10 \<Longrightarrow> all_digits (digit_char d # s) \<longleftrightarrow> all_digits s"
  using all_digits_simps(3) [of "dec_string d" s] all_digits_simps(2) [of d] by (simp add: dec_string.simps [of d])

lemma parse_unsigned_digits:
  assumes "all_digits s" and "s \<noteq> []" and "dec_value s < 2 ^ w"
  shows "parse_unsigned w (ascii s) = Some (dec_value s)"
proof -
  have "parse_digits (ascii s) = Some (dec_value s)" using assms by (simp add: parse_digits_def all_digits_def ascii_def [of s])
      (metis ascii_def chars_of_ascii list.map_comp)
  moreover have "take 1 (ascii s) \<noteq> [43]" using assms(1) by (cases "ascii s") (auto simp: all_digits_def digit_byte_def)
  ultimately show ?thesis using assms(3) by (simp add: parse_unsigned_def)
qed

lemma all_digits_no: "all_digits s \<Longrightarrow> b \<in> {43, 45, 46, 58} \<Longrightarrow> b \<notin> set (ascii s)"
  by (auto simp: all_digits_def list_all_iff digit_byte_def)

lemma frac_digits_value:
  "0 < m \<Longrightarrow> m < 10 ^ Suc k \<Longrightarrow> \<exists>ds. frac_digits m (10 ^ k) None = Ok (ds, None) \<and> all_digits ds \<and> ds \<noteq> [] \<and>
     length ds \<le> Suc k \<and> dec_value ds * 10 ^ (Suc k - length ds) = m"
proof (induction k arbitrary: m)
  case 0
  then have "frac_digits m 1 None = Ok (dec_string m, None)" "length (dec_string m) = 1"
    by (simp_all add: frac_digits.simps [of m] frac_digits.simps [of 0] dec_string.simps [of m])
  then show ?case by auto
next
  case (Suc k)
  let ?d = "m div 10 ^ Suc k" and ?r = "m mod 10 ^ Suc k"
  have d: "?d < 10" using Suc.prems(2) by (simp add: less_mult_imp_div_less)
  have c: "dec_string ?d = [digit_char ?d]" using d by (subst dec_string.simps) simp
  have step: "frac_digits m (10 ^ Suc k) None = rbind (frac_digits ?r (10 ^ k) None) (\<lambda>(ds, rest). Ok (dec_string ?d @ ds, rest))"
    using Suc.prems(1) by (subst frac_digits.simps) simp
  show ?case
  proof (cases "?r = 0")
    case True
    then have "frac_digits m (10 ^ Suc k) None = Ok (dec_string ?d, None)"
      unfolding step by (simp add: frac_digits.simps [of 0])
    moreover have "?d * 10 ^ Suc k = m" using True by (metis div_mult_mod_eq add.right_neutral)
    ultimately show ?thesis using c d by (intro exI [of _ "dec_string ?d"]) (simp add: dec_value_Cons dec_value_def [of "[]"])
  next
    case False
    have "?r < 10 ^ Suc k" by simp
    with Suc.IH [of ?r] False obtain ds where ds: "frac_digits ?r (10 ^ k) None = Ok (ds, None)" "all_digits ds"
      "length ds \<le> Suc k" "dec_value ds * 10 ^ (Suc k - length ds) = ?r" by auto
    have "digit_val (digit_char ?d) * 10 ^ length ds * 10 ^ (Suc k - length ds) = ?d * 10 ^ Suc k"
      using ds(3) d by (simp add: mult.assoc flip: power_add)
    then have "dec_value (digit_char ?d # ds) * 10 ^ (Suc k - length ds) = ?d * 10 ^ Suc k + ?r"
      using ds(4) by (simp add: dec_value_Cons add_mult_distrib)
    then have "dec_value (digit_char ?d # ds) * 10 ^ (Suc k - length ds) = m" by (metis div_mult_mod_eq)
    moreover have "frac_digits m (10 ^ Suc k) None = Ok (dec_string ?d @ ds, None)" unfolding step ds(1) by simp
    ultimately show ?thesis using ds c d by (intro exI [of _ "dec_string ?d @ ds"]) simp
  qed
qed

lemma two_digits_value [simp]: "dec_value (two_digits n) = n" "all_digits (two_digits n)" "two_digits n \<noteq> []"
  using ascii_dec_ne [of n] by (auto simp: two_digits_def dec_value_Cons ascii_def)

lemma ascii_Cons [simp]:
  "ascii (CHR '':'' # s) = 58 # ascii s" "ascii (CHR ''.'' # s) = 46 # ascii s" "ascii (CHR ''-'' # s) = 45 # ascii s"
  by (simp_all add: ascii_def)

lemma parse_two_digits: "n < 60 \<Longrightarrow> parse_unsigned 8 (ascii (two_digits n)) = Some n"
  by (simp add: parse_unsigned_digits)

lemma parse_micros:
  assumes "0 < m" and "m < 1000000" and "frac_digits m 100000 None = Ok (ds, r)"
  shows "all_digits ds \<and> parse_microseconds (ascii ds) = Ok (of_nat m) \<and> r = None"
proof -
  from frac_digits_value [of m 5] assms have ds: "all_digits ds" "ds \<noteq> []" "length ds \<le> 6"
    "dec_value ds * 10 ^ (6 - length ds) = m" "r = None" by auto
  have "dec_value ds * 1 \<le> dec_value ds * 10 ^ (6 - length ds)" by (intro mult_le_mono) simp_all
  with ds assms(2) have v: "dec_value ds < 2 ^ 32" by simp
  have "ascii ds \<noteq> []" using ds(2) by (simp add: ascii_def)
  moreover have "of_nat (dec_value ds) * 10 ^ (6 - length ds) = (of_nat m :: u32)"
    using ds(4) by (metis of_nat_mult of_nat_power of_nat_numeral)
  ultimately show ?thesis using ds assms(2) parse_unsigned_digits [OF ds(1,2) v]
    by (simp add: parse_microseconds_def parsed_def)
qed

lemma parse_hours:
  assumes "h \<le> 838"
  shows "parse_signed 32 (ascii (sign_display False sn @ dec_string h)) = Some (signum sn * int h)"
    "58 \<notin> set (ascii (sign_display False sn @ dec_string h))"
proof -
  have "58 \<notin> set (ascii (dec_string h))" using all_digits_no [of "dec_string h" 58] by simp
  then show "parse_signed 32 (ascii (sign_display False sn @ dec_string h)) = Some (signum sn * int h)"
    "58 \<notin> set (ascii (sign_display False sn @ dec_string h))"
    using assms by (cases sn; simp add: sign_display_def parse_signed_def signum_def Let_def)+
qed

text \<open>What is shown of a time is read back, up to the sign: that of the hours as a number.\<close>

lemma time_parse_display:
  assumes "valid_time t"
  shows "\<exists>s. time_display False None t = Ok s \<and>
    time_parse (ascii s) = Ok (if tm_hours (magnitude t) = 0 then with_sign t Positive else t)"
proof -
  let ?h = "unat (tm_hours (magnitude t))" and ?m = "unat (tm_minutes (magnitude t))"
  let ?s = "unat (tm_seconds (magnitude t))" and ?u = "unat (tm_microseconds (magnitude t))"
  let ?H = "sign_display False (sign t) @ dec_string ?h"
  have r: "?h \<le> 838" "?m < 60" "?s < 60" "?u < 1000000" using assms by (simp_all add: valid_time_def word_le_nat_alt)
  obtain S where S: "time_display False None t = Ok (?H @ '':'' @ two_digits ?m @ '':'' @ S)"
    "parse_seconds (ascii S) = Ok (tm_seconds (magnitude t), tm_microseconds (magnitude t))" "58 \<notin> set (ascii S)"
  proof (cases "?u = 0")
    case True
    have "split_once 46 (ascii (two_digits ?s)) = None" using all_digits_no [of "two_digits ?s" 46] by (intro split_once_none) simp
    then have "parse_seconds (ascii (two_digits ?s)) = Ok (tm_seconds (magnitude t), 0)"
      using parse_two_digits [OF r(3)] by (simp add: parse_seconds_def parsed_def)
    with True show ?thesis using all_digits_no [of "two_digits ?s" 58]
      by (intro that [of "two_digits ?s"]) (simp_all add: time_display_def Let_def unat_eq_zero)
  next
    case False
    obtain ds rest where f: "frac_digits ?u 100000 None = Ok (ds, rest)"
      using frac_digits_value [of ?u 5] False r(4) by auto
    note p = parse_micros [OF _ r(4) f]
    have "split_once 46 (ascii (two_digits ?s) @ 46 # ascii ds) = Some (ascii (two_digits ?s), ascii ds)"
      using all_digits_no [of "two_digits ?s" 46] by (intro split_once_first) simp
    then have "parse_seconds (ascii (two_digits ?s @ ''.'' @ ds)) = Ok (tm_seconds (magnitude t), tm_microseconds (magnitude t))"
      using parse_two_digits [OF r(3)] p False by (simp add: parse_seconds_def parsed_def)
    then show ?thesis using all_digits_no [of "two_digits ?s" 58] all_digits_no [of ds 58] False p f
      by (intro that [of "two_digits ?s @ ''.'' @ ds"]) (simp_all add: time_display_def Let_def)
  qed
  have "split_on 58 (ascii (?H @ '':'' @ two_digits ?m @ '':'' @ S)) = [ascii ?H, ascii (two_digits ?m), ascii S]"
    using parse_hours(2) [OF r(1), of "sign t"] all_digits_no [of "two_digits ?m" 58] S(3)
    using split_on_first [of 58 "ascii ?H"] split_on_first [of 58 "ascii (two_digits ?m)"] split_on_none [of 58 "ascii S"]
    by simp
  then have "time_parse (ascii (?H @ '':'' @ two_digits ?m @ '':'' @ S)) =
      box_err (time_new (if signum (sign t) * int ?h < 0 then Negative else Positive) (tm_hours (magnitude t))
        (tm_minutes (magnitude t)) (tm_seconds (magnitude t)) (tm_microseconds (magnitude t)))"
    using parse_hours(1) [OF r(1), of "sign t"] parse_two_digits [OF r(2)] S(2)
    by (cases "sign t") (simp_all add: time_parse_def parsed_def Let_def signum_def abs_mult)
  moreover have "time_new Positive (tm_hours (magnitude t)) (tm_minutes (magnitude t)) (tm_seconds (magnitude t)) (tm_microseconds (magnitude t))
      = Inr (with_sign t Positive)"
    using assms by (cases t) (simp add: time_new_iff with_sign_def valid_time_def)
  moreover have "0 < uint (tm_hours (magnitude t))" if "tm_hours (magnitude t) \<noteq> 0"
    using that unsigned_eq_0_iff [of "tm_hours (magnitude t)", where ?'a = int] by (simp add: order.strict_iff_order)
  ultimately show ?thesis using S(1) time_new_valid [OF assms]
    by (cases "sign t") (auto simp: signum_def with_sign_def zero_less_mult_iff)
qed

lemma whole_seconds_exact:
  assumes "valid_time t"
  shows "unat (whole_seconds t) =
    unat (tm_hours (magnitude t)) * 3600 + unat (tm_minutes (magnitude t)) * 60 + unat (tm_seconds (magnitude t))"
proof -
  have r: "unat (tm_hours (magnitude t)) \<le> 838" "unat (tm_minutes (magnitude t)) < 60" "unat (tm_seconds (magnitude t)) < 60"
    using assms by (simp_all add: valid_time_def word_le_nat_alt)
  then show ?thesis by (simp add: whole_seconds_def unat_word_ariths unat_ucast_mod)
qed

lemma duration_parts:
  assumes "valid_time t" and "to_duration t = Some d"
  shows "unat (as_secs d) = unat (tm_hours (magnitude t)) * 3600 + unat (tm_minutes (magnitude t)) * 60 + unat (tm_seconds (magnitude t))"
    "unat (dur_nanos d) = unat (tm_microseconds (magnitude t)) * 1000" "sign t = Positive"
    "unat (tm_hours (magnitude t)) \<le> 838" "unat (tm_minutes (magnitude t)) < 60" "unat (tm_seconds (magnitude t)) < 60"
    "unat (tm_microseconds (magnitude t)) < 1000000"
proof -
  show r: "unat (tm_hours (magnitude t)) \<le> 838" "unat (tm_minutes (magnitude t)) < 60" "unat (tm_seconds (magnitude t)) < 60"
    "unat (tm_microseconds (magnitude t)) < 1000000" using assms(1) by (simp_all add: valid_time_def word_le_nat_alt)
  have n: "unat (subsec_nanos t) = unat (tm_microseconds (magnitude t)) * 1000"
    using r(4) by (simp add: subsec_nanos_def unat_word_ariths)
  have d: "sign t = Positive" "d = \<lparr>as_secs = ucast (whole_seconds t), dur_nanos = subsec_nanos t\<rparr>"
    using assms(2) n r(4) by (auto simp: to_duration_def Duration_new_def subsec_nanos_def is_positive_def sign_is_positive_def split: if_splits)
  show "unat (as_secs d) = unat (tm_hours (magnitude t)) * 3600 + unat (tm_minutes (magnitude t)) * 60 + unat (tm_seconds (magnitude t))"
    using whole_seconds_exact [OF assms(1)] r d(2) by (simp add: unat_ucast_mod)
  show "unat (dur_nanos d) = unat (tm_microseconds (magnitude t)) * 1000" "sign t = Positive" using d n by simp_all
qed

lemma duration_roundtrip:
  assumes "valid_time t" and "to_duration t = Some d"
  shows "time_try_from d = Inr t"
proof -
  note d = duration_parts [OF assms]
  let ?h = "unat (tm_hours (magnitude t))" and ?m = "unat (tm_minutes (magnitude t))" and ?s = "unat (tm_seconds (magnitude t))"
  have q: "(?h * 3600 + ?m * 60 + ?s) div 3600 = ?h" "(?h * 3600 + ?m * 60 + ?s) mod 3600 = ?m * 60 + ?s"
    "(?m * 60 + ?s) div 60 = ?m" "(?m * 60 + ?s) mod 60 = ?s"
    using d(4-6) div_mult_self3 [of 3600 "?m * 60 + ?s" ?h] mod_mult_self3 [of ?h 3600 "?m * 60 + ?s"] by (simp_all add: add.assoc)
  show ?thesis
    using time_new_valid [OF assms(1)] d(3-6) by (simp add: time_try_from_def Let_def d(1,2) q)
qed

lemma with_sign_valid:
  "valid_time t \<Longrightarrow> valid_time (with_sign t sn) \<longleftrightarrow> \<not> (sn = Negative \<and> is_zero t)"
  by (cases t) (auto simp: valid_time_def with_sign_def is_zero_def TIME_ZERO_def intro: MySqlTimeSign.exhaust)


lemma magnitude_cmp_Equal: "magnitude_cmp a b = Equal \<longleftrightarrow> a = b"
  by (cases a; cases b) (simp add: magnitude_cmp_def compare_def then_with_def)

subsection \<open>Properties\<close>

definition example_time :: MySqlTime where
  "example_time = \<lparr>sign = Negative, magnitude = \<lparr>tm_hours = 12, tm_minutes = 34, tm_seconds = 56, tm_microseconds = 70000\<rparr>\<rparr>"

definition half_hour_before :: MySqlTime where
  "half_hour_before = \<lparr>sign = Negative, magnitude = \<lparr>tm_hours = 0, tm_minutes = 30, tm_seconds = 0, tm_microseconds = 0\<rparr>\<rparr>"

lemma example_times_valid: "valid_time example_time" "valid_time half_hour_before" "valid_time TIME_MAX" "valid_time TIME_MIN"
  by (simp_all add: valid_time_def example_time_def half_hour_before_def TIME_MAX_def TIME_MIN_def magnitude_cmp_def compare_def
      then_with_def MAGNITUDE_MAX_def MAGNITUDE_ZERO_def HOURS_MAX_def)

text \<open>
  C19. The constructor, the binary and the text decoder and the conversion of a \<^verbatim>\<open>Duration\<close> yield only times in
  range: at most 838:59:59 in magnitude, every field below its limit, and no negative zero; and the constructor
  accepts every such time.  \<^verbatim>\<open>with_sign\<close>, which checks nothing, keeps a time in range with one exception: it makes
  a negative zero of zero.
\<close>

theorem mysql_time_in_range:
  "(time_decode_binary buf = Ok t \<or> time_parse s' = Ok t \<or> time_try_from d = Inr t \<or> time_new sn h m s u = Inr t \<longrightarrow>
     valid_time t \<and> \<bar>time_micros t\<bar> \<le> time_micros TIME_MAX) \<and>
   (valid_time t \<longrightarrow> time_new (sign t) (tm_hours (magnitude t)) (tm_minutes (magnitude t)) (tm_seconds (magnitude t))
     (tm_microseconds (magnitude t)) = Inr t) \<and>
   (valid_time t \<longrightarrow> (valid_time (with_sign t sn) \<longleftrightarrow> \<not> (sn = Negative \<and> is_zero t)))"
proof -
  have "\<bar>time_micros t\<bar> \<le> time_micros TIME_MAX" if "valid_time t"
  proof -
    have "magnitude_cmp (magnitude t) (magnitude TIME_MAX) \<noteq> Greater" using that by (simp add: valid_time_def TIME_MAX_def)
    then have "magnitude_micros (magnitude t) \<le> magnitude_micros (magnitude TIME_MAX)"
      using magnitude_cmp_micros [OF that example_times_valid(3)] by (simp add: compare_def split: if_splits)
    then show ?thesis by (cases "sign t") (simp_all add: time_micros_def signum_def TIME_MAX_def)
  qed
  then show ?thesis
    using time_decode_valid [of buf t] time_parse_valid [of s' t] time_try_from_valid [of d t] time_new_iff [of sn h m s u t]
      time_new_valid [of t] with_sign_valid [of t sn]
    by blast
qed

theorem mysql_time_in_range_witness:
  "time_new Negative 12 34 56 70000 = Inr example_time \<and> valid_time example_time \<and> \<not> valid_time (with_sign TIME_ZERO Negative)"
proof -
  have "time_new Negative 12 34 56 70000 = Inr example_time"
    using example_times_valid(1) by (simp add: time_new_iff example_time_def)
  with mysql_time_in_range [of "[]" example_time "[]" undefined Negative 12 34 56 70000]
    mysql_time_in_range [of "[]" TIME_ZERO "[]" undefined Negative 0 0 0 0] zero_valid
  show ?thesis by (simp add: is_zero_def)
qed

text \<open>
  The binary format loses nothing: decoding what the encoder wrote for a time in range gives the time back.
\<close>

theorem mysql_time_binary_roundtrip:
  "valid_time t \<Longrightarrow> time_decode_binary (time_encode t []) = Ok t \<and> length (time_encode t []) = time_size_hint t"
  by (rule conjI, erule time_decode_encode)
    (auto simp: time_encode_def time_size_hint_def encoded_len_def Let_def)

theorem mysql_time_binary_roundtrip_witness:
  "time_decode_binary (time_encode example_time []) = Ok example_time"
  using mysql_time_binary_roundtrip [OF example_times_valid(1)] by blast

text \<open>
  C35. The order of times is the order of the intervals they stand for, as signed numbers of microseconds;
  times compare equal only if they are the same.
\<close>

theorem mysql_time_order:
  "valid_time a \<Longrightarrow> valid_time b \<Longrightarrow>
   time_cmp a b = compare (time_micros a) (time_micros b) \<and> (time_cmp a b = Equal \<longleftrightarrow> a = b)"
proof (rule conjI)
  assume v: "valid_time a" "valid_time b"
  show "time_cmp a b = compare (time_micros a) (time_micros b)" by (rule time_cmp_micros [OF v])
  show "time_cmp a b = Equal \<longleftrightarrow> a = b"
    using magnitude_cmp_Equal [of "magnitude a" "magnitude b"] magnitude_cmp_Equal [of "magnitude b" "magnitude a"]
    by (cases a; cases b) (auto simp: time_cmp_def sign_cmp_def split: MySqlTimeSign.splits)
qed

theorem mysql_time_order_witness:
  "time_cmp TIME_MIN example_time = Less"
  using mysql_time_order [OF example_times_valid(4,1)]
  by (simp add: TIME_MIN_def example_time_def time_micros_def magnitude_micros_def signum_def compare_def MAGNITUDE_MAX_def HOURS_MAX_def)

text \<open>
  C20. The text format loses the sign of short times.  \<^verbatim>\<open>parse\<close> takes the sign from the
  hours as a number, and \<^verbatim>\<open>-00\<close> is zero: whatever time in range is shown, it reads back as itself
  if it has at least one hour, and otherwise as the positive time of the same length.
\<close>

theorem mysql_time_text_loses_sign:
  "valid_time t \<Longrightarrow> \<exists>s. time_display False None t = Ok s \<and>
     time_parse (ascii s) = Ok (if tm_hours (magnitude t) = 0 then with_sign t Positive else t)"
  by (rule time_parse_display)

theorem mysql_time_text_loses_sign_witness:
  "(\<exists>s. time_display False None half_hour_before = Ok s \<and> time_parse (ascii s) = Ok (with_sign half_hour_before Positive))
   \<and> (\<exists>s. time_display False None example_time = Ok s \<and> time_parse (ascii s) = Ok example_time)"
  using mysql_time_text_loses_sign [OF example_times_valid(1)] mysql_time_text_loses_sign [OF example_times_valid(2)]
  by (simp add: half_hour_before_def example_time_def)

text \<open>
  \<^verbatim>\<open>is_negative\<close> is true of the positive times: it asks whether the sign is positive.
\<close>

theorem mysql_is_negative_inverted: "is_negative t \<longleftrightarrow> sign t = Positive"
  by (simp add: is_negative_def sign_is_positive_def)



text \<open>
  A time that converts to a duration is recovered from it, and the seconds are computed without overflow.
\<close>

theorem mysql_time_duration_roundtrip:
  "valid_time t \<Longrightarrow> to_duration t = Some d \<Longrightarrow>
   time_try_from d = Inr t \<and> int (unat (as_secs d)) * 1000000 + int (unat (dur_nanos d) div 1000) = time_micros t"
proof (rule conjI)
  assume a: "valid_time t" "to_duration t = Some d"
  note d = duration_parts [OF a]
  show "time_try_from d = Inr t" by (rule duration_roundtrip [OF a])
  have "unat (as_secs d) * 1000000 + unat (dur_nanos d) div 1000 = magnitude_micros (magnitude t)"
    by (simp add: d(1,2) magnitude_micros_def)
  then have "int (unat (as_secs d)) * 1000000 + int (unat (dur_nanos d) div 1000) = int (magnitude_micros (magnitude t))"
    by (metis of_nat_add of_nat_mult of_nat_numeral)
  then show "int (unat (as_secs d)) * 1000000 + int (unat (dur_nanos d) div 1000) = time_micros t"
    by (simp add: time_micros_def signum_def d(3))
qed

theorem mysql_time_duration_roundtrip_witness:
  "\<exists>d. to_duration TIME_MAX = Some d \<and> time_try_from d = Inr TIME_MAX"
proof -
  obtain d where "to_duration TIME_MAX = Some d"
    by (simp add: to_duration_def is_positive_def sign_is_positive_def TIME_MAX_def)
  with mysql_time_duration_roundtrip [OF example_times_valid(3) this] show ?thesis by blast
qed

end
