(* ===== verification/Pool_Iface.thy ===== *)
theory Pool_Iface
  imports Prelude
begin

section \<open>The concurrent containers the pool is built on\<close>

text \<open>
  \<^verbatim>\<open>sqlx-core/src/pool\<close> keeps its idle connections in a bounded
  \<^verbatim>\<open>crossbeam_queue::ArrayQueue\<close> and counts the checked-out ones with an
  \<^verbatim>\<open>AsyncSemaphore\<close> (\<^verbatim>\<open>sqlx-core/src/sync.rs\<close>), a wrapper around the semaphore of the
  async runtime.  Queue and runtime semaphore come from other crates: here they are
  parameters, records of the operations the pool calls, and the locales state what their
  documentation promises.  \<open>sq_new 0 = None\<close> is \<^verbatim>\<open>ArrayQueue::new\<close>'s panic on a zero
  capacity; \<open>sq_push\<close> returns \<open>None\<close> when the queue is full; an \<^verbatim>\<open>acquire(n)\<close> future
  resolves by taking \<open>n\<close> permits at once.
\<close>

record 's sem_api =
  rt_new :: "nat \<Rightarrow> 's"
  rt_permits :: "'s \<Rightarrow> nat"
  rt_try_acquire :: "nat \<Rightarrow> 's \<Rightarrow> 's option"
  rt_add_permits :: "nat \<Rightarrow> 's \<Rightarrow> 's"

record ('a, 'q) queue_api =
  sq_new :: "nat \<Rightarrow> 'q option"
  sq_push :: "'a \<Rightarrow> 'q \<Rightarrow> 'q option"
  sq_pop :: "'q \<Rightarrow> ('a \<times> 'q) option"

locale runtime_semaphore =
  fixes S :: "'s sem_api"
  assumes permits_new: "rt_permits S (rt_new S n) = n"
    and try_acquire_ok:
      "n \<le> rt_permits S s \<Longrightarrow>
       \<exists>s'. rt_try_acquire S n s = Some s' \<and> rt_permits S s' = rt_permits S s - n"
    and try_acquire_none: "rt_permits S s < n \<Longrightarrow> rt_try_acquire S n s = None"
    and permits_add: "rt_permits S (rt_add_permits S n s) = rt_permits S s + n"

locale array_queue =
  fixes Q :: "('a, 'q) queue_api" and contents :: "'q \<Rightarrow> 'a list" and capacity :: "'q \<Rightarrow> nat"
  assumes new_zero: "sq_new Q 0 = None"
    and new_pos: "0 < n \<Longrightarrow> \<exists>q. sq_new Q n = Some q \<and> contents q = [] \<and> capacity q = n"
    and push_room:
      "length (contents q) < capacity q \<Longrightarrow>
       \<exists>q'. sq_push Q x q = Some q' \<and> contents q' = contents q @ [x] \<and> capacity q' = capacity q"
    and push_full: "capacity q \<le> length (contents q) \<Longrightarrow> sq_push Q x q = None"
    and pop_Nil: "contents q = [] \<Longrightarrow> sq_pop Q q = None"
    and pop_Cons:
      "contents q = x # xs \<Longrightarrow>
       \<exists>q'. sq_pop Q q = Some (x, q') \<and> contents q' = xs \<and> capacity q' = capacity q"

subsection \<open>\<^verbatim>\<open>AsyncSemaphore\<close> (\<^verbatim>\<open>sqlx-core/src/sync.rs\<close>)\<close>

text \<open>
  The wrapper's methods, for a build with a runtime.  A releaser returns its permits when
  dropped unless it was disarmed (\<^verbatim>\<open>forget\<close>); the pool's program points record
  whether they hold an armed one.
\<close>

definition AsyncSemaphore_new :: "'s sem_api \<Rightarrow> bool \<Rightarrow> nat \<Rightarrow> 's" where
  "AsyncSemaphore_new S fair permits = rt_new S permits"

definition permits :: "'s sem_api \<Rightarrow> 's \<Rightarrow> nat" where
  "permits S s = rt_permits S s"

definition poll_acquire :: "'s sem_api \<Rightarrow> u32 \<Rightarrow> 's \<Rightarrow> 's option" where
  "poll_acquire S n s = rt_try_acquire S (unat n) s"

definition sem_try_acquire :: "'s sem_api \<Rightarrow> u32 \<Rightarrow> 's \<Rightarrow> 's option" where
  "sem_try_acquire S n s = rt_try_acquire S (unat n) s"

definition sem_release :: "'s sem_api \<Rightarrow> nat \<Rightarrow> 's \<Rightarrow> 's" where
  "sem_release S n s = rt_add_permits S n s"

context runtime_semaphore
begin

lemma permits_AsyncSemaphore_new [simp]: "permits S (AsyncSemaphore_new S fair n) = n"
  by (simp add: permits_def AsyncSemaphore_new_def permits_new)

lemma try_acquire_SomeD:
  "sem_try_acquire S n s = Some s' \<Longrightarrow> permits S s = permits S s' + unat n"
  using try_acquire_ok [of "unat n" s] try_acquire_none [of s "unat n"]
  by (cases "unat n \<le> rt_permits S s") (auto simp: sem_try_acquire_def permits_def)

lemma poll_acquire_SomeD:
  "poll_acquire S n s = Some s' \<Longrightarrow> permits S s = permits S s' + unat n"
  using try_acquire_SomeD by (simp add: poll_acquire_def sem_try_acquire_def)

lemma poll_acquire_ready: "unat n \<le> permits S s \<Longrightarrow> \<exists>s'. poll_acquire S n s = Some s'"
  using try_acquire_ok [of "unat n" s] by (auto simp: poll_acquire_def permits_def)

lemma permits_release [simp]: "permits S (sem_release S n s) = permits S s + n"
  by (simp add: sem_release_def permits_def permits_add)

end

context array_queue
begin

lemma sq_push_SomeD:
  "sq_push Q x q = Some q' \<Longrightarrow>
   contents q' = contents q @ [x] \<and> capacity q' = capacity q \<and> length (contents q) < capacity q"
  using push_room [of q x] push_full [of q x]
  by (cases "length (contents q) < capacity q") auto

lemma sq_pop_SomeD:
  "sq_pop Q q = Some (x, q') \<Longrightarrow> contents q = x # contents q' \<and> capacity q' = capacity q"
  using pop_Nil [of q] pop_Cons [of q] by (cases "contents q") fastforce+

lemma sq_pop_None_iff: "sq_pop Q q = None \<longleftrightarrow> contents q = []"
  using pop_Nil [of q] pop_Cons [of q] by (cases "contents q") fastforce+

lemma sq_new_SomeD: "sq_new Q n = Some q \<Longrightarrow> 0 < n \<and> contents q = [] \<and> capacity q = n"
  using new_zero new_pos [of n] by (cases "n = 0") auto

end

subsection \<open>Reference containers\<close>

text \<open>A counter and a bounded list satisfy the two contracts.\<close>

definition counter_sem :: "nat sem_api" where
  "counter_sem =
     \<lparr>rt_new = (\<lambda>n. n), rt_permits = (\<lambda>s. s),
      rt_try_acquire = (\<lambda>n s. if n \<le> s then Some (s - n) else None),
      rt_add_permits = (\<lambda>n s. s + n)\<rparr>"

definition list_queue :: "('a, 'a list \<times> nat) queue_api" where
  "list_queue =
     \<lparr>sq_new = (\<lambda>n. if n = 0 then None else Some ([], n)),
      sq_push = (\<lambda>x (xs, n). if length xs < n then Some (xs @ [x], n) else None),
      sq_pop = (\<lambda>(xs, n). case xs of [] \<Rightarrow> None | x # ys \<Rightarrow> Some (x, (ys, n)))\<rparr>"

interpretation counter: runtime_semaphore counter_sem
  by unfold_locales (auto simp: counter_sem_def)

interpretation bounded_list: array_queue list_queue fst snd
  by unfold_locales (auto simp: list_queue_def)

end
