(* ===== verification/Pool_Model.thy ===== *)
theory Pool_Model
  imports Pool_Iface
begin

section \<open>The connection pool (\<^verbatim>\<open>sqlx-core/src/pool\<close>): state and handlers\<close>

text \<open>
  A pool is shared by tasks that run concurrently.  Every task is at a program point
  (\<open>task\<close>): the constructors follow the code between two accesses to the pool's shared
  atomics, queue or semaphore, or between two \<^verbatim>\<open>await\<close>s.  A handler takes the pool, a
  task at one of its points, the clock and the environment's answer (the result of a ping,
  of a hook, of a connection attempt, a cancellation, a call of the connection's user) and
  returns the pool and the tasks that take the task's place; \<open>None\<close> means that the point
  is not the handler's, is waiting, or does not take that answer.  RAII guards are explicit:
  dropping a \<^verbatim>\<open>DecrementSizeGuard\<close> is \<open>drop_guard\<close>, dropping a semaphore
  releaser is \<open>PermitDrop\<close>.  A task argument of a constructor is the continuation.
  Connections are identified by a number; durations and instants are nanoseconds.
\<close>

subsection \<open>Options and state\<close>

record pool_options =
  test_before_acquire :: bool
  after_connect :: bool
  before_acquire :: bool
  after_release :: bool
  max_connections :: u32
  acquire_timeout :: nat
  min_connections :: u32
  max_lifetime :: "nat option"
  idle_timeout :: "nat option"
  fair :: bool

definition secs :: "nat \<Rightarrow> nat" where
  "secs n = n * 1000000000"

definition PoolOptions_new :: pool_options where
  "PoolOptions_new =
     \<lparr>test_before_acquire = True, after_connect = False, before_acquire = False,
      after_release = False, max_connections = 10, acquire_timeout = secs 30,
      min_connections = 0, max_lifetime = Some (secs (30 * 60)),
      idle_timeout = Some (secs (10 * 60)), fair = True\<rparr>"

record live_conn =
  raw :: nat
  created_at :: nat

record idle_conn =
  idle_live :: live_conn
  idle_since :: nat

record 's parent_pool =
  par_max_connections :: u32
  par_fair :: bool
  par_semaphore :: 's
  par_closed :: bool

record ('s, 'q) pool_inner =
  idle_conns :: 'q
  semaphore :: 's
  pool_size :: u32
  num_idle :: u64
  is_closed :: bool
  parent :: "'s parent_pool option"

record ('s, 'q) pool_env =
  sem :: "'s sem_api"
  queue :: "(idle_conn, 'q) queue_api"
  opts :: pool_options

definition new_arc ::
  "('s, 'q) pool_env \<Rightarrow> 's parent_pool option \<Rightarrow> ('s, 'q) pool_inner result" where
  "new_arc E par =
     (let capacity = unat (max_connections (opts E)) in
      rbind
        (case par of
           Some p \<Rightarrow>
             rassert (max_connections (opts E) \<le> par_max_connections p)
               (rassert (fair (opts E) = par_fair p) (Ok 0))
         | None \<Rightarrow> Ok capacity)
        (\<lambda>semaphore_capacity.
           case sq_new (queue E) capacity of
             None \<Rightarrow> Panic
           | Some q \<Rightarrow>
               Ok \<lparr>idle_conns = q,
                   semaphore = AsyncSemaphore_new (sem E) (fair (opts E)) semaphore_capacity,
                   pool_size = 0, num_idle = 0, is_closed = False, parent = par\<rparr>))"

definition mark_closed :: "('s, 'q) pool_inner \<Rightarrow> ('s, 'q) pool_inner" where
  "mark_closed p = p\<lparr>is_closed := True\<rparr>"

definition is_beyond_max_lifetime :: "nat \<Rightarrow> live_conn \<Rightarrow> pool_options \<Rightarrow> bool" where
  "is_beyond_max_lifetime now l os =
     (case max_lifetime os of None \<Rightarrow> False | Some m \<Rightarrow> m < now - created_at l)"

definition is_beyond_idle_timeout :: "nat \<Rightarrow> idle_conn \<Rightarrow> pool_options \<Rightarrow> bool" where
  "is_beyond_idle_timeout now c os =
     (case idle_timeout os of None \<Rightarrow> False | Some t \<Rightarrow> t < now - idle_since c)"

definition into_idle :: "nat \<Rightarrow> live_conn \<Rightarrow> idle_conn" where
  "into_idle now l = \<lparr>idle_live = l, idle_since = now\<rparr>"

definition deadline_as_timeout :: "nat \<Rightarrow> nat \<Rightarrow> nat result" where
  "deadline_as_timeout now deadline =
     (if now \<le> deadline then Ok (deadline - now) else Err PoolTimedOut)"

subsection \<open>Program points\<close>

datatype permit = OwnPermit | ParentPermit

text \<open>Who asked for a connection, and where it goes: \<^verbatim>\<open>Pool::acquire\<close> hands it to the
  user, \<^verbatim>\<open>PoolOptions::connect_with\<close> and \<^verbatim>\<open>try_min_connections\<close> release it into the
  pool.  The flag of \<open>ByMin\<close> is set when \<^verbatim>\<open>min_connections_maintenance\<close> logs the error
  instead of returning it.\<close>

datatype sink = ToUser | ToPool

datatype caller = ByAcquire sink | ByMin bool

datatype guard_pt = GDecrement | GRelease

datatype release_pt = RPush live_conn | RPermit | RCount

datatype acquire_pt =
    AStart
  | AWait
  | APoll bool bool
  | APop permit
  | APopped idle_conn
  | APing idle_conn
  | AHook idle_conn
  | AClose
  | AYield permit

datatype increment_pt = ILoad | ICas u32

datatype connect_pt =
    CStart
  | CLoop nat nat
  | CAwait nat nat
  | CHook nat nat nat
  | CSleep nat nat

datatype min_pt =
    MMaint "nat option"
  | MLoop bool nat
  | MTry bool nat

text \<open>\<^verbatim>\<open>try_acquire\<close> is called by the user or by the reaper; the reaper's arguments are
  its period, the time of its next run and the idle connections it has left to look at.\<close>

datatype try_sink = TryUser | TryReap nat nat nat

datatype try_pt = TStart | TPermit | TPop | TPopped idle_conn

datatype return_pt = RetStart | RetHook | RetPing | RetClose | RetTakeClose | RetUserClose bool

datatype reap_pt = ReapStart | ReapCount | ReapLoop | ReapJudge idle_conn | ReapClose | ReapSleep

datatype close_pt = ClStart | ClLoop | ClPop | ClClosing | ClSize | ClWait | ClHold

text \<open>The last two constructors are other pools whose parent is this one: \<open>ChildT k\<close> holds \<open>k\<close> of
  this pool's permits, \<open>ChildGone k n\<close> held \<open>k\<close> of them when it was dropped and released \<open>n\<close>.\<close>

datatype task =
    Done
  | Failed error
  | Panicked
  | GuardT guard_pt task
  | PermitDrop permit task
  | ReleaseT release_pt task
  | AcquireT sink nat acquire_pt
  | IncrementT caller permit nat increment_pt task
  | ConnectT caller nat connect_pt task
  | MinT min_pt task
  | TryT try_sink try_pt
  | CheckedOut live_conn bool
  | Leaked live_conn
  | ReturnT live_conn return_pt
  | ReapT nat nat nat reap_pt
  | CloseT nat close_pt
  | ChildT nat
  | ChildGone nat nat

abbreviation drop_guard :: "task \<Rightarrow> task" where
  "drop_guard k \<equiv> GuardT GDecrement k"

text \<open>What the environment answers at a program point.\<close>

datatype answer =
    Go
  | Cancelled
  | TimedOut
  | PingOk
  | PingErr
  | HookOk bool
  | HookErr
  | ConnOk nat
  | ConnErr error bool
  | ConnTimedOut
  | UserDrop
  | UserClose
  | UserCloseOnDrop
  | UserDetach
  | UserLeak
  | ChildTakes
  | ChildGives
  | ChildDropped nat

type_synonym ('s, 'q) step_result = "(('s, 'q) pool_inner \<times> task list) option"

subsection \<open>\<^verbatim>\<open>DecrementSizeGuard\<close> and \<^verbatim>\<open>release\<close>\<close>

fun guard_step ::
  "('s, 'q) pool_env \<Rightarrow> answer \<Rightarrow> ('s, 'q) pool_inner \<Rightarrow> guard_pt \<Rightarrow> task \<Rightarrow> ('s, 'q) step_result"
where
  "guard_step E ans p GDecrement k =
     (if ans = Go then Some (p\<lparr>pool_size := pool_size p - 1\<rparr>, [GuardT GRelease k]) else None)"
| "guard_step E ans p GRelease k =
     (if ans = Go
      then Some (p\<lparr>semaphore := sem_release (sem E) 1 (semaphore p)\<rparr>, [k]) else None)"

definition permit_drop_step ::
  "('s, 'q) pool_env \<Rightarrow> answer \<Rightarrow> ('s, 'q) pool_inner \<Rightarrow> permit \<Rightarrow> task \<Rightarrow> ('s, 'q) step_result"
where
  "permit_drop_step E ans p pm k =
     (if ans \<noteq> Go then None
      else case pm of
        OwnPermit \<Rightarrow> Some (p\<lparr>semaphore := sem_release (sem E) 1 (semaphore p)\<rparr>, [k])
      | ParentPermit \<Rightarrow>
          (case parent p of
             None \<Rightarrow> None
           | Some par \<Rightarrow>
               Some (p\<lparr>parent :=
                 Some (par\<lparr>par_semaphore := sem_release (sem E) 1 (par_semaphore par)\<rparr>)\<rparr>, [k])))"

fun release_step ::
  "('s, 'q) pool_env \<Rightarrow> nat \<Rightarrow> answer \<Rightarrow> ('s, 'q) pool_inner \<Rightarrow> release_pt \<Rightarrow> task \<Rightarrow> ('s, 'q) step_result"
where
  "release_step E now ans p (RPush l) k =
     (if ans \<noteq> Go then None
      else case sq_push (queue E) (into_idle now l) (idle_conns p) of
        None \<Rightarrow> Some (p, [Panicked])
      | Some q \<Rightarrow> Some (p\<lparr>idle_conns := q\<rparr>, [ReleaseT RPermit k]))"
| "release_step E now ans p RPermit k =
     (if ans = Go
      then Some (p\<lparr>semaphore := sem_release (sem E) 1 (semaphore p)\<rparr>, [ReleaseT RCount k])
      else None)"
| "release_step E now ans p RCount k =
     (if ans = Go then Some (p\<lparr>num_idle := num_idle p + 1\<rparr>, [k]) else None)"

subsection \<open>\<^verbatim>\<open>acquire\<close>, \<^verbatim>\<open>connect\<close>, \<^verbatim>\<open>try_increment_size\<close>\<close>

text \<open>What becomes of a connection, an error or a cancellation inside \<^verbatim>\<open>acquire\<close> or
  \<^verbatim>\<open>try_min_connections\<close>.\<close>

fun on_live :: "caller \<Rightarrow> nat \<Rightarrow> live_conn \<Rightarrow> task \<Rightarrow> task" where
  "on_live (ByAcquire ToUser) d l k = CheckedOut l False"
| "on_live (ByAcquire ToPool) d l k = ReleaseT (RPush l) Done"
| "on_live (ByMin logged) d l k = ReleaseT (RPush l) (MinT (MLoop logged d) k)"

fun on_error :: "caller \<Rightarrow> error \<Rightarrow> task \<Rightarrow> task" where
  "on_error (ByAcquire s) e k = Failed e"
| "on_error (ByMin logged) e k = (if logged then k else Failed e)"

definition abandoned :: "caller \<Rightarrow> answer \<Rightarrow> task" where
  "abandoned c ans =
     (case c of
        ByAcquire s \<Rightarrow> if ans = TimedOut then Failed PoolTimedOut else Done
      | ByMin logged \<Rightarrow> Done)"

datatype 'a poll = Pending | Ready 'a

definition acquire_permit_from_parent :: "('s, 'q) pool_env \<Rightarrow> ('s, 'q) pool_inner \<Rightarrow> bool" where
  "acquire_permit_from_parent E p \<longleftrightarrow>
     parent p \<noteq> None \<and> pool_size p < max_connections (opts E)"

definition acquire_permit ::
  "('s, 'q) pool_env \<Rightarrow> ('s, 'q) pool_inner \<Rightarrow> bool \<Rightarrow> bool
    \<Rightarrow> ('s, 'q) pool_inner \<times> bool \<times> permit result poll"
where
  "acquire_permit E p from_parent poll_parent =
     (case (from_parent, parent p) of
        (True, Some par) \<Rightarrow>
          if is_closed p then (p, poll_parent, Ready (Err PoolClosed))
          else if par_closed par then (mark_closed p, poll_parent, Ready (Err PoolClosed))
          else (case poll_acquire (sem E) 1 (semaphore p) of
              Some s \<Rightarrow> (p\<lparr>semaphore := s\<rparr>, poll_parent, Ready (Ok OwnPermit))
            | None \<Rightarrow>
                if poll_parent then
                  (case poll_acquire (sem E) 1 (par_semaphore par) of
                     Some s \<Rightarrow> (p\<lparr>parent := Some (par\<lparr>par_semaphore := s\<rparr>)\<rparr>, poll_parent,
                                Ready (Ok ParentPermit))
                   | None \<Rightarrow> (p, poll_parent, Pending))
                else (p, True, Pending))
      | _ \<Rightarrow>
          (case poll_acquire (sem E) 1 (semaphore p) of
             Some s \<Rightarrow> (p\<lparr>semaphore := s\<rparr>, poll_parent, Ready (Ok OwnPermit))
           | None \<Rightarrow>
               if is_closed p then (p, poll_parent, Ready (Err PoolClosed))
               else (p, poll_parent, Pending)))"

definition pop_idle :: "('s, 'q) pool_env \<Rightarrow> ('s, 'q) pool_inner \<Rightarrow> (idle_conn \<times> ('s, 'q) pool_inner) option" where
  "pop_idle E p =
     (case sq_pop (queue E) (idle_conns p) of
        Some (c, q) \<Rightarrow> Some (c, p\<lparr>idle_conns := q\<rparr>)
      | None \<Rightarrow> None)"

definition pop_idle_count :: "('s, 'q) pool_inner \<Rightarrow> ('s, 'q) pool_inner" where
  "pop_idle_count p = p\<lparr>num_idle := num_idle p - 1\<rparr>"

fun check_idle_conn ::
  "('s, 'q) pool_env \<Rightarrow> answer \<Rightarrow> sink \<Rightarrow> nat \<Rightarrow> acquire_pt \<Rightarrow> task option"
where
  "check_idle_conn E ans s d (APing c) =
     (if test_before_acquire (opts E) then
        (case ans of
           PingOk \<Rightarrow> Some (AcquireT s d (AHook c))
         | PingErr \<Rightarrow> Some (AcquireT s d AClose)
         | TimedOut \<Rightarrow> Some (drop_guard (abandoned (ByAcquire s) ans))
         | Cancelled \<Rightarrow> Some (drop_guard (abandoned (ByAcquire s) ans))
         | _ \<Rightarrow> None)
      else if ans = Go then Some (AcquireT s d (AHook c)) else None)"
| "check_idle_conn E ans s d (AHook c) =
     (if before_acquire (opts E) then
        (case ans of
           HookOk True \<Rightarrow> Some (on_live (ByAcquire s) d (idle_live c) Done)
         | HookOk False \<Rightarrow> Some (AcquireT s d AClose)
         | HookErr \<Rightarrow> Some (AcquireT s d AClose)
         | TimedOut \<Rightarrow> Some (drop_guard (abandoned (ByAcquire s) ans))
         | Cancelled \<Rightarrow> Some (drop_guard (abandoned (ByAcquire s) ans))
         | _ \<Rightarrow> None)
      else if ans = Go then Some (on_live (ByAcquire s) d (idle_live c) Done) else None)"
| "check_idle_conn E ans s d AClose =
     (case ans of
        Go \<Rightarrow> Some (ConnectT (ByAcquire s) d CStart Done)
      | TimedOut \<Rightarrow> Some (drop_guard (abandoned (ByAcquire s) ans))
      | Cancelled \<Rightarrow> Some (drop_guard (abandoned (ByAcquire s) ans))
      | _ \<Rightarrow> None)"
| "check_idle_conn E ans s d pt = None"

fun acquire_step ::
  "('s, 'q) pool_env \<Rightarrow> nat \<Rightarrow> answer \<Rightarrow> ('s, 'q) pool_inner \<Rightarrow> sink \<Rightarrow> nat \<Rightarrow> acquire_pt \<Rightarrow> ('s, 'q) step_result"
where
  "acquire_step E now ans p s d AStart =
     (if ans \<noteq> Go then None
      else if is_closed p then Some (p, [Failed PoolClosed])
      else Some (p, [AcquireT s (now + acquire_timeout (opts E)) AWait]))"
| "acquire_step E now ans p s d AWait =
     (if ans \<noteq> Go then None
      else let from_parent = acquire_permit_from_parent E p in
        if \<not> from_parent \<and> is_closed p then Some (p, [Failed PoolClosed])
        else Some (p, [AcquireT s d (APoll from_parent False)]))"
| "acquire_step E now ans p s d (APoll from_parent poll_parent) =
     (case ans of
        Go \<Rightarrow>
          (case acquire_permit E p from_parent poll_parent of
             (p', pp, Pending) \<Rightarrow> Some (p', [AcquireT s d (APoll from_parent pp)])
           | (p', pp, Ready (Ok pm)) \<Rightarrow> Some (p', [AcquireT s d (APop pm)])
           | (p', pp, Ready (Err e)) \<Rightarrow> Some (p', [Failed e])
           | (p', pp, Ready Panic) \<Rightarrow> Some (p', [Panicked]))
      | TimedOut \<Rightarrow> Some (p, [abandoned (ByAcquire s) ans])
      | Cancelled \<Rightarrow> Some (p, [abandoned (ByAcquire s) ans])
      | _ \<Rightarrow> None)"
| "acquire_step E now ans p s d (APop pm) =
     (if ans \<noteq> Go then None
      else case pop_idle E p of
        Some (c, p') \<Rightarrow> Some (p', [AcquireT s d (APopped c)])
      | None \<Rightarrow> Some (p, [IncrementT (ByAcquire s) pm d ILoad Done]))"
| "acquire_step E now ans p s d (APopped c) =
     (if ans = Go then Some (pop_idle_count p, [AcquireT s d (APing c)]) else None)"
| "acquire_step E now ans p s d (APing c) =
     map_option (\<lambda>t. (p, [t])) (check_idle_conn E ans s d (APing c))"
| "acquire_step E now ans p s d (AHook c) =
     map_option (\<lambda>t. (p, [t])) (check_idle_conn E ans s d (AHook c))"
| "acquire_step E now ans p s d AClose =
     map_option (\<lambda>t. (p, [t])) (check_idle_conn E ans s d AClose)"
| "acquire_step E now ans p s d (AYield pm) =
     (case ans of
        Go \<Rightarrow> Some (p, [PermitDrop pm (AcquireT s d AWait)])
      | TimedOut \<Rightarrow> Some (p, [PermitDrop pm (abandoned (ByAcquire s) ans)])
      | Cancelled \<Rightarrow> Some (p, [PermitDrop pm (abandoned (ByAcquire s) ans)])
      | _ \<Rightarrow> None)"

fun increment_failed :: "caller \<Rightarrow> permit \<Rightarrow> nat \<Rightarrow> task \<Rightarrow> task" where
  "increment_failed (ByAcquire s) pm d k = AcquireT s d (AYield pm)"
| "increment_failed (ByMin logged) pm d k = PermitDrop pm k"

fun try_increment_size ::
  "('s, 'q) pool_env \<Rightarrow> answer \<Rightarrow> ('s, 'q) pool_inner \<Rightarrow> caller \<Rightarrow> permit \<Rightarrow> nat \<Rightarrow> increment_pt \<Rightarrow> task
    \<Rightarrow> ('s, 'q) step_result"
where
  "try_increment_size E ans p c pm d ILoad k =
     (if ans \<noteq> Go then None
      else if is_closed p then Some (p, [increment_failed c pm d k])
      else if unat (pool_size p) + 1 < 2 ^ 32 \<and> pool_size p + 1 \<le> max_connections (opts E)
        then Some (p, [IncrementT c pm d (ICas (pool_size p)) k])
        else Some (p, [increment_failed c pm d k]))"
| "try_increment_size E ans p c pm d (ICas seen) k =
     (if ans \<noteq> Go then None
      else if pool_size p = seen
        then Some (p\<lparr>pool_size := seen + 1\<rparr>, [ConnectT c d CStart k])
        else Some (p, [IncrementT c pm d ILoad k]))"

fun connect_step ::
  "('s, 'q) pool_env \<Rightarrow> nat \<Rightarrow> answer \<Rightarrow> ('s, 'q) pool_inner \<Rightarrow> caller \<Rightarrow> nat \<Rightarrow> connect_pt \<Rightarrow> task
    \<Rightarrow> ('s, 'q) step_result"
where
  "connect_step E now ans p c d CStart k =
     (if ans \<noteq> Go then None
      else if is_closed p then Some (p, [drop_guard (on_error c PoolClosed k)])
      else case deadline_as_timeout now d of
          Ok t \<Rightarrow> Some (p, [ConnectT c d (CLoop 10000000 (t div 5)) k])
        | _ \<Rightarrow> Some (p, [drop_guard (on_error c PoolTimedOut k)]))"
| "connect_step E now ans p c d (CLoop backoff max_backoff) k =
     (if ans \<noteq> Go then None
      else case deadline_as_timeout now d of
          Ok t \<Rightarrow> Some (p, [ConnectT c d (CAwait backoff max_backoff) k])
        | _ \<Rightarrow> Some (p, [drop_guard (on_error c PoolTimedOut k)]))"
| "connect_step E now ans p c d (CAwait backoff max_backoff) k =
     (case ans of
        ConnOk r \<Rightarrow> Some (p, [ConnectT c d (CHook r backoff max_backoff) k])
      | ConnErr e transient \<Rightarrow>
          (if e = Io ConnectionRefused
              \<or> (case e of Database code msg \<Rightarrow> transient | _ \<Rightarrow> False)
           then Some (p, [ConnectT c d (CSleep backoff max_backoff) k])
           else Some (p, [drop_guard (on_error c e k)]))
      | ConnTimedOut \<Rightarrow> Some (p, [drop_guard (on_error c PoolTimedOut k)])
      | TimedOut \<Rightarrow> Some (p, [drop_guard (abandoned c ans)])
      | Cancelled \<Rightarrow> Some (p, [drop_guard (abandoned c ans)])
      | _ \<Rightarrow> None)"
| "connect_step E now ans p c d (CHook r backoff max_backoff) k =
     (if after_connect (opts E) then
        (case ans of
           HookOk b \<Rightarrow> Some (p, [on_live c d \<lparr>raw = r, created_at = now\<rparr> k])
         | HookErr \<Rightarrow> Some (p, [ConnectT c d (CSleep backoff max_backoff) k])
         | TimedOut \<Rightarrow> Some (p, [drop_guard (abandoned c ans)])
         | Cancelled \<Rightarrow> Some (p, [drop_guard (abandoned c ans)])
         | _ \<Rightarrow> None)
      else if ans = Go then Some (p, [on_live c d \<lparr>raw = r, created_at = now\<rparr> k]) else None)"
| "connect_step E now ans p c d (CSleep backoff max_backoff) k =
     (case ans of
        Go \<Rightarrow> Some (p, [ConnectT c d (CLoop (min (backoff * 2) max_backoff) max_backoff) k])
      | TimedOut \<Rightarrow> Some (p, [drop_guard (abandoned c ans)])
      | Cancelled \<Rightarrow> Some (p, [drop_guard (abandoned c ans)])
      | _ \<Rightarrow> None)"

subsection \<open>\<^verbatim>\<open>try_min_connections\<close>, \<^verbatim>\<open>try_acquire\<close>, maintenance\<close>

fun min_step ::
  "('s, 'q) pool_env \<Rightarrow> nat \<Rightarrow> answer \<Rightarrow> ('s, 'q) pool_inner \<Rightarrow> min_pt \<Rightarrow> task \<Rightarrow> ('s, 'q) step_result"
where
  "min_step E now ans p (MMaint deadline) k =
     (if ans = Go
      then Some (p, [MinT (MLoop True (case deadline of None \<Rightarrow> now + secs 300 | Some d \<Rightarrow> d)) k])
      else None)"
| "min_step E now ans p (MLoop logged d) k =
     (if ans \<noteq> Go then None
      else if pool_size p < min_connections (opts E) then Some (p, [MinT (MTry logged d) k])
      else Some (p, [k]))"
| "min_step E now ans p (MTry logged d) k =
     (if ans \<noteq> Go then None
      else case sem_try_acquire (sem E) 1 (semaphore p) of
        None \<Rightarrow> Some (p, [k])
      | Some s \<Rightarrow> Some (p\<lparr>semaphore := s\<rparr>, [IncrementT (ByMin logged) OwnPermit d ILoad k]))"

fun try_none :: "try_sink \<Rightarrow> task" where
  "try_none TryUser = Done"
| "try_none (TryReap period next_run n) = ReapT period next_run (n - 1) ReapLoop"

fun try_some :: "try_sink \<Rightarrow> idle_conn \<Rightarrow> task" where
  "try_some TryUser c = CheckedOut (idle_live c) False"
| "try_some (TryReap period next_run n) c = ReapT period next_run n (ReapJudge c)"

fun try_acquire ::
  "('s, 'q) pool_env \<Rightarrow> answer \<Rightarrow> ('s, 'q) pool_inner \<Rightarrow> try_sink \<Rightarrow> try_pt \<Rightarrow> ('s, 'q) step_result"
where
  "try_acquire E ans p ts TStart =
     (if ans \<noteq> Go then None
      else if is_closed p then Some (p, [try_none ts]) else Some (p, [TryT ts TPermit]))"
| "try_acquire E ans p ts TPermit =
     (if ans \<noteq> Go then None
      else case sem_try_acquire (sem E) 1 (semaphore p) of
        None \<Rightarrow> Some (p, [try_none ts])
      | Some s \<Rightarrow> Some (p\<lparr>semaphore := s\<rparr>, [TryT ts TPop]))"
| "try_acquire E ans p ts TPop =
     (if ans \<noteq> Go then None
      else case pop_idle E p of
        Some (c, p') \<Rightarrow> Some (p', [TryT ts (TPopped c)])
      | None \<Rightarrow> Some (p, [PermitDrop OwnPermit (try_none ts)]))"
| "try_acquire E ans p ts (TPopped c) =
     (if ans = Go then Some (pop_idle_count p, [try_some ts c]) else None)"

fun reap_step ::
  "('s, 'q) pool_env \<Rightarrow> nat \<Rightarrow> answer \<Rightarrow> ('s, 'q) pool_inner \<Rightarrow> nat \<Rightarrow> nat \<Rightarrow> nat \<Rightarrow> reap_pt
    \<Rightarrow> ('s, 'q) step_result"
where
  "reap_step E now ans p period next_run n ReapStart =
     (if ans \<noteq> Go then None
      else if is_closed p then Some (p, [Done])
      else Some (p, [ReapT period (now + period) n ReapCount]))"
| "reap_step E now ans p period next_run n ReapCount =
     (if ans = Go then Some (p, [ReapT period next_run (unat (num_idle p)) ReapLoop]) else None)"
| "reap_step E now ans p period next_run n ReapLoop =
     (if ans \<noteq> Go then None
      else if n = 0 then Some (p, [ReapT period next_run 0 ReapSleep])
      else Some (p, [TryT (TryReap period next_run n) TStart]))"
| "reap_step E now ans p period next_run n (ReapJudge c) =
     (if ans \<noteq> Go then None
      else if is_beyond_idle_timeout now c (opts E)
              \<or> is_beyond_max_lifetime now (idle_live c) (opts E)
        then Some (p, [ReapT period next_run n ReapClose])
        else Some (p, [ReleaseT (RPush (idle_live c)) (ReapT period next_run (n - 1) ReapLoop)]))"
| "reap_step E now ans p period next_run n ReapClose =
     (case ans of
        Go \<Rightarrow> Some (p, [drop_guard (MinT (MMaint (Some next_run))
                         (ReapT period next_run (n - 1) ReapLoop))])
      | Cancelled \<Rightarrow> Some (p, [drop_guard Done])
      | _ \<Rightarrow> None)"
| "reap_step E now ans p period next_run n ReapSleep =
     (case ans of
        Go \<Rightarrow> Some (p, [ReapT period next_run n ReapStart])
      | Cancelled \<Rightarrow> Some (p, [Done])
      | _ \<Rightarrow> None)"

definition spawn_maintenance_tasks :: "pool_options \<Rightarrow> task list" where
  "spawn_maintenance_tasks os =
     (case (max_lifetime os, idle_timeout os) of
        (Some a, None) \<Rightarrow> [ReapT a 0 0 ReapStart]
      | (None, Some b) \<Rightarrow> [ReapT b 0 0 ReapStart]
      | (Some a, Some b) \<Rightarrow> [ReapT (min a b) 0 0 ReapStart]
      | (None, None) \<Rightarrow> if 0 < min_connections os then [MinT (MMaint None) Done] else [])"

subsection \<open>The user's connection (\<^verbatim>\<open>pool/connection.rs\<close>)\<close>

abbreviation maintenance :: task where
  "maintenance \<equiv> MinT (MMaint None) Done"

text \<open>\<^verbatim>\<open>Drop for PoolConnection\<close> when the inner connection has been taken.\<close>

definition drop_taken :: "('s, 'q) pool_env \<Rightarrow> bool \<Rightarrow> task" where
  "drop_taken E close_on_drop =
     (if close_on_drop \<or> 0 < min_connections (opts E) then maintenance else Done)"

definition user_step ::
  "('s, 'q) pool_env \<Rightarrow> answer \<Rightarrow> ('s, 'q) pool_inner \<Rightarrow> live_conn \<Rightarrow> bool \<Rightarrow> ('s, 'q) step_result"
where
  "user_step E ans p l close_on_drop =
     (case ans of
        UserDrop \<Rightarrow>
          Some (p, [if close_on_drop then ReturnT l RetTakeClose else ReturnT l RetStart])
      | UserClose \<Rightarrow> Some (p, [ReturnT l (RetUserClose close_on_drop)])
      | UserCloseOnDrop \<Rightarrow> Some (p, [CheckedOut l True])
      | UserDetach \<Rightarrow> Some (p, [drop_guard (drop_taken E close_on_drop)])
      | UserLeak \<Rightarrow> Some (p, [Leaked l, drop_taken E close_on_drop])
      | _ \<Rightarrow> None)"

fun return_to_pool ::
  "('s, 'q) pool_env \<Rightarrow> nat \<Rightarrow> answer \<Rightarrow> ('s, 'q) pool_inner \<Rightarrow> live_conn \<Rightarrow> return_pt \<Rightarrow> ('s, 'q) step_result"
where
  "return_to_pool E now ans p l RetStart =
     (if ans = Cancelled then Some (p, [drop_guard Done])
      else if ans \<noteq> Go then None
      else if is_closed p \<or> is_beyond_max_lifetime now l (opts E)
        then Some (p, [ReturnT l RetClose]) else Some (p, [ReturnT l RetHook]))"
| "return_to_pool E now ans p l RetHook =
     (if after_release (opts E) then
        (case ans of
           HookOk True \<Rightarrow> Some (p, [ReturnT l RetPing])
         | HookOk False \<Rightarrow> Some (p, [ReturnT l RetClose])
         | HookErr \<Rightarrow> Some (p, [ReturnT l RetClose])
         | Cancelled \<Rightarrow> Some (p, [drop_guard Done])
         | _ \<Rightarrow> None)
      else if ans = Go then Some (p, [ReturnT l RetPing]) else None)"
| "return_to_pool E now ans p l RetPing =
     (case ans of
        PingOk \<Rightarrow> Some (p, [ReleaseT (RPush l) Done])
      | PingErr \<Rightarrow> Some (p, [ReturnT l RetClose])
      | Cancelled \<Rightarrow> Some (p, [drop_guard Done])
      | _ \<Rightarrow> None)"
| "return_to_pool E now ans p l RetClose =
     (case ans of
        Go \<Rightarrow> Some (p, [drop_guard maintenance])
      | Cancelled \<Rightarrow> Some (p, [drop_guard Done])
      | _ \<Rightarrow> None)"
| "return_to_pool E now ans p l RetTakeClose =
     (case ans of
        Go \<Rightarrow> Some (p, [drop_guard maintenance])
      | TimedOut \<Rightarrow> Some (p, [drop_guard maintenance])
      | Cancelled \<Rightarrow> Some (p, [drop_guard Done])
      | _ \<Rightarrow> None)"
| "return_to_pool E now ans p l (RetUserClose close_on_drop) =
     (case ans of
        Go \<Rightarrow> Some (p, [drop_guard (drop_taken E close_on_drop)])
      | Cancelled \<Rightarrow> Some (p, [drop_guard (drop_taken E close_on_drop)])
      | _ \<Rightarrow> None)"

subsection \<open>\<^verbatim>\<open>close\<close> and the whole system\<close>

fun close_step ::
  "('s, 'q) pool_env \<Rightarrow> answer \<Rightarrow> ('s, 'q) pool_inner \<Rightarrow> nat \<Rightarrow> close_pt \<Rightarrow> ('s, 'q) step_result"
where
  "close_step E ans p n ClStart =
     (if ans = Go then Some (mark_closed p, [CloseT 1 ClLoop]) else None)"
| "close_step E ans p n ClLoop =
     (if ans \<noteq> Go then None
      else if n \<le> unat (max_connections (opts E)) then Some (p, [CloseT n ClPop])
      else Some (p, [Done]))"
| "close_step E ans p n ClPop =
     (if ans \<noteq> Go then None
      else case sq_pop (queue E) (idle_conns p) of
        Some (c, q) \<Rightarrow> Some (p\<lparr>idle_conns := q\<rparr>, [CloseT n ClClosing])
      | None \<Rightarrow> Some (p, [CloseT n ClSize]))"
| "close_step E ans p n ClClosing =
     (case ans of
        Go \<Rightarrow> Some (p, [drop_guard (CloseT n ClPop)])
      | Cancelled \<Rightarrow> Some (p, [drop_guard Done])
      | _ \<Rightarrow> None)"
| "close_step E ans p n ClSize =
     (if ans \<noteq> Go then None
      else if pool_size p = 0 then Some (p, [Done]) else Some (p, [CloseT n ClWait]))"
| "close_step E ans p n ClWait =
     (if ans = Cancelled then Some (p, [Done])
      else if ans \<noteq> Go then None
      else case poll_acquire (sem E) (of_nat n) (semaphore p) of
        Some s \<Rightarrow> Some (p\<lparr>semaphore := s\<rparr>, [CloseT n ClHold])
      | None \<Rightarrow> None)"
| "close_step E ans p n ClHold =
     (if ans = Go
      then Some (p\<lparr>semaphore := sem_release (sem E) n (semaphore p)\<rparr>, [CloseT (n + 1) ClLoop])
      else None)"

text \<open>What a child pool does to the semaphore of its parent: its \<^verbatim>\<open>acquire_permit\<close> takes a permit unless
  the parent is closed, dropping that permit without opening a connection gives it back, and dropping
  the child pool releases as many permits as the child's own semaphore then has.\<close>

definition child_step ::
  "('s, 'q) pool_env \<Rightarrow> answer \<Rightarrow> ('s, 'q) pool_inner \<Rightarrow> nat \<Rightarrow> ('s, 'q) step_result"
where
  "child_step E ans p k =
     (case ans of
        ChildTakes \<Rightarrow>
          if is_closed p then None
          else (case poll_acquire (sem E) 1 (semaphore p) of
              Some s \<Rightarrow> Some (p\<lparr>semaphore := s\<rparr>, [ChildT (k + 1)])
            | None \<Rightarrow> None)
      | ChildGives \<Rightarrow>
          if 0 < k then Some (p\<lparr>semaphore := sem_release (sem E) 1 (semaphore p)\<rparr>, [ChildT (k - 1)])
          else None
      | ChildDropped n \<Rightarrow>
          Some (p\<lparr>semaphore := sem_release (sem E) n (semaphore p)\<rparr>, [ChildGone k n])
      | _ \<Rightarrow> None)"

fun task_step ::
  "('s, 'q) pool_env \<Rightarrow> nat \<Rightarrow> answer \<Rightarrow> ('s, 'q) pool_inner \<Rightarrow> task \<Rightarrow> ('s, 'q) step_result"
where
  "task_step E now ans p Done = None"
| "task_step E now ans p (Failed e) = None"
| "task_step E now ans p Panicked = None"
| "task_step E now ans p (GuardT pt k) = guard_step E ans p pt k"
| "task_step E now ans p (PermitDrop pm k) = permit_drop_step E ans p pm k"
| "task_step E now ans p (ReleaseT pt k) = release_step E now ans p pt k"
| "task_step E now ans p (AcquireT s d pt) = acquire_step E now ans p s d pt"
| "task_step E now ans p (IncrementT c pm d pt k) = try_increment_size E ans p c pm d pt k"
| "task_step E now ans p (ConnectT c d pt k) = connect_step E now ans p c d pt k"
| "task_step E now ans p (MinT pt k) = min_step E now ans p pt k"
| "task_step E now ans p (TryT ts pt) = try_acquire E ans p ts pt"
| "task_step E now ans p (CheckedOut l cod) = user_step E ans p l cod"
| "task_step E now ans p (Leaked l) = None"
| "task_step E now ans p (ReturnT l pt) = return_to_pool E now ans p l pt"
| "task_step E now ans p (ReapT period next_run n pt) =
     reap_step E now ans p period next_run n pt"
| "task_step E now ans p (CloseT n pt) = close_step E ans p n pt"
| "task_step E now ans p (ChildT k) = child_step E ans p k"
| "task_step E now ans p (ChildGone k n) = None"

text \<open>Entry points a caller can start at any time.\<close>

definition connect_with :: "pool_options \<Rightarrow> nat \<Rightarrow> task" where
  "connect_with os now =
     (if 0 < min_connections os
      then MinT (MLoop False (now + acquire_timeout os)) (AcquireT ToPool 0 AStart)
      else AcquireT ToPool 0 AStart)"

definition pool_drop :: "('s, 'q) pool_env \<Rightarrow> ('s, 'q) pool_inner \<Rightarrow> ('s, 'q) pool_inner" where
  "pool_drop E p =
     (let p' = mark_closed p in
      case parent p' of
        None \<Rightarrow> p'
      | Some par \<Rightarrow>
          p'\<lparr>parent := Some (par\<lparr>par_semaphore :=
             sem_release (sem E) (permits (sem E) (semaphore p')) (par_semaphore par)\<rparr>)\<rparr>)"

type_synonym ('s, 'q) system = "('s, 'q) pool_inner \<times> task list"

inductive pool_step ::
  "('s, 'q) pool_env \<Rightarrow> ('s, 'q) system \<Rightarrow> ('s, 'q) system \<Rightarrow> bool"
  for E :: "('s, 'q) pool_env"
where
  run: "task_step E now ans p t = Some (p', new) \<Longrightarrow>
        pool_step E (p, ts @ t # us) (p', ts @ new @ us)"
| start_acquire: "pool_step E (p, ts) (p, AcquireT ToUser 0 AStart # ts)"
| start_try_acquire: "pool_step E (p, ts) (p, TryT TryUser TStart # ts)"
| start_close: "pool_step E (p, ts) (p, CloseT 0 ClStart # ts)"
| start_maintenance: "pool_step E (p, ts) (p, maintenance # ts)"
| start_child: "pool_step E (p, ts) (p, ChildT 0 # ts)"
| parent_moves: "parent p = Some par \<Longrightarrow>
        pool_step E (p, ts)
          (p\<lparr>parent := Some (par\<lparr>par_semaphore := s, par_closed := par_closed par \<or> c\<rparr>)\<rparr>, ts)"

inductive pool_reachable ::
  "('s, 'q) pool_env \<Rightarrow> 's parent_pool option \<Rightarrow> ('s, 'q) system \<Rightarrow> bool"
  for E :: "('s, 'q) pool_env" and par :: "'s parent_pool option"
where
  lazy: "new_arc E par = Ok p \<Longrightarrow>
        pool_reachable E par (p, spawn_maintenance_tasks (opts E))"
| connected: "new_arc E par = Ok p \<Longrightarrow>
        pool_reachable E par (p, connect_with (opts E) now # spawn_maintenance_tasks (opts E))"
| step: "pool_reachable E par s \<Longrightarrow> pool_step E s s' \<Longrightarrow> pool_reachable E par s'"

end
