(* ===== verification/Pool_Safety.thy ===== *)
theory Pool_Safety
  imports Pool_Model
begin

section \<open>The pool never exceeds its bounds\<close>

text \<open>
  Every program point owns a number of units of the pool's size (it holds a connection or
  the right to open one), of semaphore permits, and of pending updates of the idle counter.
  Each handler conserves them: the size is the idle connections plus the units owned by the
  tasks, the permits are those in the semaphore plus those owned, and the idle counter is
  the queue's length corrected by the pending updates.
\<close>

subsection \<open>What a program point owns\<close>

primrec size_tok :: "task \<Rightarrow> nat" where
  "size_tok Done = 0"
| "size_tok (Failed e) = 0"
| "size_tok Panicked = 0"
| "size_tok (GuardT pt k) = (case pt of GDecrement \<Rightarrow> 1 | GRelease \<Rightarrow> 0)"
| "size_tok (PermitDrop pm k) = 0"
| "size_tok (ReleaseT pt k) = (case pt of RPush l \<Rightarrow> 1 | _ \<Rightarrow> 0)"
| "size_tok (AcquireT s d pt) =
     (case pt of APopped c \<Rightarrow> 1 | APing c \<Rightarrow> 1 | AHook c \<Rightarrow> 1 | AClose \<Rightarrow> 1 | _ \<Rightarrow> 0)"
| "size_tok (IncrementT c pm d pt k) = 0"
| "size_tok (ConnectT c d pt k) = 1"
| "size_tok (MinT pt k) = 0"
| "size_tok (TryT ts pt) = (case pt of TPopped c \<Rightarrow> 1 | _ \<Rightarrow> 0)"
| "size_tok (CheckedOut l cod) = 1"
| "size_tok (Leaked l) = 1"
| "size_tok (ReturnT l pt) = 1"
| "size_tok (ReapT a b n pt) = (case pt of ReapJudge c \<Rightarrow> 1 | ReapClose \<Rightarrow> 1 | _ \<Rightarrow> 0)"
| "size_tok (CloseT n pt) = (case pt of ClClosing \<Rightarrow> 1 | _ \<Rightarrow> 0)"
| "size_tok (ChildT k) = 0"
| "size_tok (ChildGone k n) = 0"

primrec permit_tok :: "task \<Rightarrow> nat" where
  "permit_tok Done = 0"
| "permit_tok (Failed e) = 0"
| "permit_tok Panicked = 0"
| "permit_tok (GuardT pt k) = 1"
| "permit_tok (PermitDrop pm k) = 1"
| "permit_tok (ReleaseT pt k) = (case pt of RCount \<Rightarrow> 0 | _ \<Rightarrow> 1)"
| "permit_tok (AcquireT s d pt) =
     (case pt of AStart \<Rightarrow> 0 | AWait \<Rightarrow> 0 | APoll fp pp \<Rightarrow> 0 | _ \<Rightarrow> 1)"
| "permit_tok (IncrementT c pm d pt k) = 1"
| "permit_tok (ConnectT c d pt k) = 1"
| "permit_tok (MinT pt k) = 0"
| "permit_tok (TryT ts pt) = (case pt of TPop \<Rightarrow> 1 | TPopped c \<Rightarrow> 1 | _ \<Rightarrow> 0)"
| "permit_tok (CheckedOut l cod) = 1"
| "permit_tok (Leaked l) = 1"
| "permit_tok (ReturnT l pt) = 1"
| "permit_tok (ReapT a b n pt) = (case pt of ReapJudge c \<Rightarrow> 1 | ReapClose \<Rightarrow> 1 | _ \<Rightarrow> 0)"
| "permit_tok (CloseT n pt) = (case pt of ClClosing \<Rightarrow> 1 | ClHold \<Rightarrow> n | _ \<Rightarrow> 0)"
| "permit_tok (ChildT k) = k"
| "permit_tok (ChildGone k n) = k - n"

text \<open>Permits that a dropped child pool released beyond those it had taken.\<close>

fun surplus_tok :: "task \<Rightarrow> nat" where
  "surplus_tok (ChildGone k n) = n - k"
| "surplus_tok _ = 0"

text \<open>Connections popped but not yet subtracted from the idle counter, and pushed but not
  yet added to it.\<close>

primrec popped_tok :: "task \<Rightarrow> nat" where
  "popped_tok Done = 0"
| "popped_tok (Failed e) = 0"
| "popped_tok Panicked = 0"
| "popped_tok (GuardT pt k) = 0"
| "popped_tok (PermitDrop pm k) = 0"
| "popped_tok (ReleaseT pt k) = 0"
| "popped_tok (AcquireT s d pt) = (case pt of APopped c \<Rightarrow> 1 | _ \<Rightarrow> 0)"
| "popped_tok (IncrementT c pm d pt k) = 0"
| "popped_tok (ConnectT c d pt k) = 0"
| "popped_tok (MinT pt k) = 0"
| "popped_tok (TryT ts pt) = (case pt of TPopped c \<Rightarrow> 1 | _ \<Rightarrow> 0)"
| "popped_tok (CheckedOut l cod) = 0"
| "popped_tok (Leaked l) = 0"
| "popped_tok (ReturnT l pt) = 0"
| "popped_tok (ReapT a b n pt) = 0"
| "popped_tok (CloseT n pt) = 0"
| "popped_tok (ChildT k) = 0"
| "popped_tok (ChildGone k n) = 0"

primrec pushed_tok :: "task \<Rightarrow> nat" where
  "pushed_tok Done = 0"
| "pushed_tok (Failed e) = 0"
| "pushed_tok Panicked = 0"
| "pushed_tok (GuardT pt k) = 0"
| "pushed_tok (PermitDrop pm k) = 0"
| "pushed_tok (ReleaseT pt k) = (case pt of RPush l \<Rightarrow> 0 | _ \<Rightarrow> 1)"
| "pushed_tok (AcquireT s d pt) = 0"
| "pushed_tok (IncrementT c pm d pt k) = 0"
| "pushed_tok (ConnectT c d pt k) = 0"
| "pushed_tok (MinT pt k) = 0"
| "pushed_tok (TryT ts pt) = 0"
| "pushed_tok (CheckedOut l cod) = 0"
| "pushed_tok (Leaked l) = 0"
| "pushed_tok (ReturnT l pt) = 0"
| "pushed_tok (ReapT a b n pt) = 0"
| "pushed_tok (CloseT n pt) = 0"
| "pushed_tok (ChildT k) = 0"
| "pushed_tok (ChildGone k n) = 0"

abbreviation total :: "(task \<Rightarrow> nat) \<Rightarrow> task list \<Rightarrow> nat" where
  "total f ts \<equiv> sum_list (map f ts)"

text \<open>Continuations own nothing yet, nothing has panicked, and what a point remembers of an
  earlier check against \<^verbatim>\<open>max_connections\<close> (\<open>m\<close>) still holds.\<close>

definition owns_nothing :: "task \<Rightarrow> bool" where
  "owns_nothing t \<longleftrightarrow>
     size_tok t = 0 \<and> permit_tok t = 0 \<and> popped_tok t = 0 \<and> pushed_tok t = 0 \<and> surplus_tok t = 0"

primrec wf_task :: "nat \<Rightarrow> task \<Rightarrow> bool" where
  "wf_task m Done = True"
| "wf_task m (Failed e) = True"
| "wf_task m Panicked = False"
| "wf_task m (GuardT pt k) = (owns_nothing k \<and> wf_task m k)"
| "wf_task m (PermitDrop pm k) = (owns_nothing k \<and> wf_task m k)"
| "wf_task m (ReleaseT pt k) = (owns_nothing k \<and> wf_task m k)"
| "wf_task m (AcquireT s d pt) = True"
| "wf_task m (IncrementT c pm d pt k) =
     ((case pt of ICas seen \<Rightarrow> unat seen < m | ILoad \<Rightarrow> True) \<and> owns_nothing k \<and> wf_task m k)"
| "wf_task m (ConnectT c d pt k) = (owns_nothing k \<and> wf_task m k)"
| "wf_task m (MinT pt k) = (owns_nothing k \<and> wf_task m k)"
| "wf_task m (TryT ts pt) = True"
| "wf_task m (CheckedOut l cod) = True"
| "wf_task m (Leaked l) = True"
| "wf_task m (ReturnT l pt) = True"
| "wf_task m (ReapT a b n pt) = True"
| "wf_task m (CloseT n pt) = (pt = ClStart \<or> pt = ClLoop \<or> n \<le> m)"
| "wf_task m (ChildT k) = True"
| "wf_task m (ChildGone k n) = True"

lemma on_live_toks [simp]:
  "size_tok (on_live c d l k) = 1" "permit_tok (on_live c d l k) = 1"
  "popped_tok (on_live c d l k) = 0" "pushed_tok (on_live c d l k) = 0" "surplus_tok (on_live c d l k) = 0"
  by (induction c d l k rule: on_live.induct) auto

lemma wf_on_live [simp]: "owns_nothing k \<Longrightarrow> wf_task m k \<Longrightarrow> wf_task m (on_live c d l k)"
  by (induction c d l k rule: on_live.induct) (auto simp: owns_nothing_def)

lemma owns_nothing_simps [simp]:
  "owns_nothing Done" "owns_nothing (Failed e)" "owns_nothing (AcquireT s d AStart)"
  "owns_nothing (AcquireT s d AWait)" "owns_nothing (MinT pt k)" "owns_nothing (ReapT a b n ReapLoop)"
  "owns_nothing (CloseT n ClPop)" "owns_nothing (abandoned c ans)"
  by (auto simp: owns_nothing_def abandoned_def split: caller.splits)

lemma wf_abandoned [simp]: "wf_task m (abandoned c ans)"
  by (auto simp: abandoned_def split: caller.splits)

lemma on_error_simps [simp]:
  "owns_nothing k \<Longrightarrow> owns_nothing (on_error c e k)" "wf_task m k \<Longrightarrow> wf_task m (on_error c e k)"
  by (cases c; simp)+

lemma increment_failed_toks [simp]:
  "size_tok (increment_failed c pm d k) = 0" "permit_tok (increment_failed c pm d k) = 1"
  "popped_tok (increment_failed c pm d k) = 0" "pushed_tok (increment_failed c pm d k) = 0"
  "surplus_tok (increment_failed c pm d k) = 0"
  "owns_nothing k \<Longrightarrow> wf_task m k \<Longrightarrow> wf_task m (increment_failed c pm d k)"
  by (cases c; simp)+

lemma try_none_toks [simp]: "owns_nothing (try_none ts)" "wf_task m (try_none ts)"
  by (cases ts; simp)+

lemma try_some_toks [simp]:
  "size_tok (try_some ts c) = 1" "permit_tok (try_some ts c) = 1"
  "popped_tok (try_some ts c) = 0" "pushed_tok (try_some ts c) = 0" "surplus_tok (try_some ts c) = 0" "wf_task m (try_some ts c)"
  by (cases ts; simp)+

lemma drop_taken_toks [simp]: "owns_nothing (drop_taken E b)" "wf_task m (drop_taken E b)"
  by (auto simp: drop_taken_def)

text \<open>The point of \<^verbatim>\<open>close\<close> a task is at, or comes back to.\<close>

primrec close_pc :: "task \<Rightarrow> (nat \<times> close_pt) option" where
  "close_pc Done = None"
| "close_pc (Failed e) = None"
| "close_pc Panicked = None"
| "close_pc (GuardT pt k) = close_pc k"
| "close_pc (PermitDrop pm k) = close_pc k"
| "close_pc (ReleaseT pt k) = close_pc k"
| "close_pc (AcquireT s d pt) = None"
| "close_pc (IncrementT c pm d pt k) = close_pc k"
| "close_pc (ConnectT c d pt k) = close_pc k"
| "close_pc (MinT pt k) = close_pc k"
| "close_pc (TryT ts pt) = None"
| "close_pc (CheckedOut l cod) = None"
| "close_pc (Leaked l) = None"
| "close_pc (ReturnT l pt) = None"
| "close_pc (ReapT a b n pt) = None"
| "close_pc (CloseT n pt) = Some (n, pt)"
| "close_pc (ChildT k) = None"
| "close_pc (ChildGone k n) = None"

definition close_ok :: "('s, 'q) pool_inner \<Rightarrow> task \<Rightarrow> bool" where
  "close_ok p t =
     (case close_pc t of None \<Rightarrow> True | Some (n, pt) \<Rightarrow> pt \<noteq> ClStart \<longrightarrow> is_closed p)"

lemma close_pc_simps [simp]:
  "close_pc (abandoned c ans) = None" "close_pc (try_none ts) = None" "close_pc (try_some ts ic) = None"
  "close_pc (drop_taken E b) = None"
  by (auto simp: abandoned_def drop_taken_def split: caller.splits) (cases ts; simp)+

lemma close_pc_continuations:
  "close_pc (on_live c d l k) = None \<or> close_pc (on_live c d l k) = close_pc k"
  "close_pc (on_error c e k) = None \<or> close_pc (on_error c e k) = close_pc k"
  "close_pc (increment_failed c pm d k) = None \<or> close_pc (increment_failed c pm d k) = close_pc k"
  by (induction c d l k rule: on_live.induct; simp) (cases c; simp)+

lemma owns_nothingD [simp]:
  assumes "owns_nothing t"
  shows "size_tok t = 0" "permit_tok t = 0" "popped_tok t = 0" "pushed_tok t = 0"
    "surplus_tok t = 0"
  using assms by (simp_all add: owns_nothing_def)

subsection \<open>Every handler conserves what the tasks own\<close>

text \<open>
  The invariant of the shared state against the units owned by all tasks: \<open>sz\<close> units of
  size, \<open>pm\<close> permits, \<open>po\<close> popped and \<open>pu\<close> pushed connections not yet counted, and \<open>su\<close> permits
  that child pools released too many.  Permits are accounted for in a pool without a parent; once the
  pool is closed there may be more of them than \<^verbatim>\<open>max_connections\<close>, and the idle counter is no
  longer maintained.
\<close>

locale pool_containers =
  runtime_semaphore "sem E" + array_queue "queue E" contents capacity
  for E :: "('s, 'q) pool_env" and contents :: "'q \<Rightarrow> idle_conn list" and capacity :: "'q \<Rightarrow> nat"
begin

definition pool_inv :: "('s, 'q) pool_inner \<Rightarrow> nat \<Rightarrow> nat \<Rightarrow> nat \<Rightarrow> nat \<Rightarrow> nat \<Rightarrow> bool" where
  "pool_inv p sz pm po pu su \<longleftrightarrow>
     unat (pool_size p) = length (contents (idle_conns p)) + sz
     \<and> pool_size p \<le> max_connections (opts E)
     \<and> capacity (idle_conns p) = unat (max_connections (opts E))
     \<and> (parent p = None \<longrightarrow> unat (max_connections (opts E)) + su \<le> permits (sem E) (semaphore p) + pm)
     \<and> (parent p = None \<longrightarrow> \<not> is_closed p \<longrightarrow>
          permits (sem E) (semaphore p) + pm = unat (max_connections (opts E)) + su)
     \<and> (\<not> is_closed p \<longrightarrow>
          num_idle p + of_nat pu = of_nat (length (contents (idle_conns p))) + of_nat po)"


abbreviation maxc :: nat where
  "maxc \<equiv> unat (max_connections (opts E))"

abbreviation step_inv ::
  "('s, 'q) pool_inner \<Rightarrow> task \<Rightarrow> ('s, 'q) pool_inner \<times> task list \<Rightarrow> bool"
where
  "step_inv p t r \<equiv>
     (\<forall>sz pm po pu su.
        pool_inv p (size_tok t + sz) (permit_tok t + pm) (popped_tok t + po) (pushed_tok t + pu)
          (surplus_tok t + su) \<longrightarrow>
        pool_inv (fst r) (total size_tok (snd r) + sz) (total permit_tok (snd r) + pm)
          (total popped_tok (snd r) + po) (total pushed_tok (snd r) + pu) (total surplus_tok (snd r) + su)
        \<and> (\<forall>t' \<in> set (snd r). wf_task maxc t'))"

lemma unat_dec: "0 < unat (w :: u32) \<Longrightarrow> unat (w - 1) = unat w - 1"
  by (simp add: unat_sub word_le_nat_alt)

lemma guard_step_inv:
  assumes "guard_step E ans p pt k = Some r" and "wf_task maxc (GuardT pt k)"
  shows "step_inv p (GuardT pt k) r"
proof (cases pt)
  case GDecrement
  with assms show ?thesis
    by (auto simp: pool_inv_def word_le_nat_alt unat_dec split: if_splits)
next
  case GRelease
  with assms show ?thesis
    by (auto simp: pool_inv_def split: if_splits)
qed

lemma permit_drop_step_inv:
  assumes "permit_drop_step E ans p pm k = Some r" and "wf_task maxc (PermitDrop pm k)"
  shows "step_inv p (PermitDrop pm k) r"
  using assms
  by (auto simp: pool_inv_def permit_drop_step_def split: if_splits permit.splits option.splits)

lemma release_step_inv:
  assumes "release_step E now ans p pt k = Some r" and "wf_task maxc (ReleaseT pt k)"
  shows "step_inv p (ReleaseT pt k) r"
proof (cases pt)
  case (RPush l)
  show ?thesis
  proof (cases "sq_push (queue E) (into_idle now l) (idle_conns p)")
    case None
    then have "capacity (idle_conns p) \<le> length (contents (idle_conns p))"
      using push_room by (metis leI option.distinct(1))
    with RPush None assms show ?thesis
      by (auto simp: pool_inv_def word_le_nat_alt split: if_splits)
  next
    case (Some q)
    with RPush assms show ?thesis
      by (auto simp: pool_inv_def add_ac dest!: sq_push_SomeD split: if_splits)
  qed
next
  case RPermit
  with assms show ?thesis by (auto simp: pool_inv_def split: if_splits)
next
  case RCount
  with assms show ?thesis by (auto simp: pool_inv_def add_ac split: if_splits)
qed

lemma pop_idle_SomeD:
  assumes "pop_idle E p = Some (c, p')"
  obtains q where "p' = p\<lparr>idle_conns := q\<rparr>" "contents (idle_conns p) = c # contents q"
    "capacity q = capacity (idle_conns p)"
  using assms by (auto simp: pop_idle_def dest!: sq_pop_SomeD split: option.splits prod.splits)

lemma acquire_permit_inv:
  assumes "acquire_permit E p fp pp = (p', pp', res)"
    and "pool_inv p sz pm po pu su"
  shows "pool_inv p' sz ((case res of Ready (Ok _) \<Rightarrow> 1 | _ \<Rightarrow> 0) + pm) po pu su"
  using assms
  by (auto simp: acquire_permit_def pool_inv_def mark_closed_def dest!: poll_acquire_SomeD
      split: option.splits if_splits bool.splits)

lemma acquire_permit_no_panic:
  "acquire_permit E p fp pp = (p', pp', res) \<Longrightarrow> res \<noteq> Ready Panic"
  by (auto simp: acquire_permit_def mark_closed_def split: option.splits if_splits bool.splits)

lemma check_idle_conn_toks:
  assumes "check_idle_conn E ans s d pt = Some t'"
  shows "size_tok t' = size_tok (AcquireT s d pt) \<and> permit_tok t' = permit_tok (AcquireT s d pt)
    \<and> popped_tok t' = popped_tok (AcquireT s d pt) \<and> pushed_tok t' = 0 \<and> surplus_tok t' = 0 \<and> wf_task maxc t'"
  using assms
  by (cases pt) (auto split: if_splits answer.splits bool.splits)

lemma acquire_step_inv:
  assumes "acquire_step E now ans p s d pt = Some r"
  shows "step_inv p (AcquireT s d pt) r"
proof (cases pt)
  case (APoll fp pp)
  obtain p' pp' res where ap: "acquire_permit E p fp pp = (p', pp', res)"
    by (metis prod_cases3)
  show ?thesis
    using APoll assms ap acquire_permit_inv [OF ap] acquire_permit_no_panic [OF ap]
    by (auto split: answer.splits poll.splits result.splits)
next
  case (APop pm)
  with assms show ?thesis
    by (auto simp: pool_inv_def add_ac elim!: pop_idle_SomeD split: if_splits option.splits)
next
  case (APopped c)
  with assms show ?thesis
    by (auto simp: pool_inv_def pop_idle_count_def algebra_simps split: if_splits)
next
  case (APing c)
  with assms show ?thesis by (auto simp del: check_idle_conn.simps dest!: check_idle_conn_toks)
next
  case (AHook c)
  with assms show ?thesis by (auto simp del: check_idle_conn.simps dest!: check_idle_conn_toks)
next
  case AClose
  with assms show ?thesis by (auto simp del: check_idle_conn.simps dest!: check_idle_conn_toks)
next
  case (AYield pm)
  with assms show ?thesis by (auto split: answer.splits)
qed (use assms in \<open>auto simp: Let_def split: if_splits\<close>)

lemma try_increment_size_inv:
  assumes "try_increment_size E ans p c pm d pt k = Some r" and "wf_task maxc (IncrementT c pm d pt k)"
  shows "step_inv p (IncrementT c pm d pt k) r"
proof (cases pt)
  case ILoad
  have "unat w + 1 < 2 ^ 32 \<Longrightarrow> w + 1 \<le> v \<Longrightarrow> unat w < unat v" for w v :: u32
    by (simp add: word_le_nat_alt unat_word_ariths)
  with ILoad assms show ?thesis by (auto split: if_splits)
next
  case (ICas seen)
  with assms have "unat seen < maxc" by simp
  then have "unat (seen + 1) = unat seen + 1"
    using unat_u32_less [of "max_connections (opts E)"] by (simp add: unat_word_ariths)
  with ICas assms \<open>unat seen < maxc\<close> show ?thesis
    by (cases "pool_size p = seen"; cases r; simp split: if_splits)
       (clarsimp simp: pool_inv_def word_le_nat_alt)+
qed

lemma connect_step_inv:
  assumes "connect_step E now ans p c d pt k = Some r" and "wf_task maxc (ConnectT c d pt k)"
  shows "step_inv p (ConnectT c d pt k) r"
  using assms
  by (cases pt) (auto split: if_splits answer.splits result.splits error.splits)

lemma min_step_inv:
  assumes "min_step E now ans p pt k = Some r" and "wf_task maxc (MinT pt k)"
  shows "step_inv p (MinT pt k) r"
proof (cases pt)
  case (MTry logged d)
  show ?thesis
  proof (cases "sem_try_acquire (sem E) 1 (semaphore p)")
    case None
    with MTry assms show ?thesis by (auto split: if_splits)
  next
    case (Some s)
    with MTry assms try_acquire_SomeD [OF Some] show ?thesis
      by (auto simp: pool_inv_def split: if_splits)
  qed
qed (use assms in \<open>auto split: if_splits\<close>)

lemma try_acquire_inv:
  assumes "try_acquire E ans p ts pt = Some r"
  shows "step_inv p (TryT ts pt) r"
proof (cases pt)
  case TStart
  with assms show ?thesis by (auto split: if_splits)
next
  case TPermit
  show ?thesis
  proof (cases "sem_try_acquire (sem E) 1 (semaphore p)")
    case None
    with TPermit assms show ?thesis by (auto split: if_splits)
  next
    case (Some s)
    with TPermit assms try_acquire_SomeD [OF Some] show ?thesis
      by (auto simp: pool_inv_def split: if_splits)
  qed
next
  case TPop
  with assms show ?thesis
    by (auto simp: pool_inv_def add_ac elim!: pop_idle_SomeD split: if_splits option.splits)
next
  case (TPopped c)
  with assms show ?thesis
    by (auto simp: pool_inv_def pop_idle_count_def algebra_simps split: if_splits)
qed

lemma reap_step_inv:
  assumes "reap_step E now ans p period next_run n pt = Some r"
  shows "step_inv p (ReapT period next_run n pt) r"
  using assms by (cases pt) (auto split: if_splits answer.splits)

lemma user_step_inv:
  assumes "user_step E ans p l cod = Some r"
  shows "step_inv p (CheckedOut l cod) r"
  using assms by (auto simp: user_step_def split: if_splits answer.splits)

lemma return_to_pool_inv:
  assumes "return_to_pool E now ans p l pt = Some r"
  shows "step_inv p (ReturnT l pt) r"
  using assms by (cases pt) (auto split: if_splits answer.splits bool.splits)

lemma close_step_inv:
  assumes "close_step E ans p n pt = Some r" and "wf_task maxc (CloseT n pt)"
    and "close_ok p (CloseT n pt)"
  shows "step_inv p (CloseT n pt) r"
proof (cases pt)
  case ClStart
  with assms show ?thesis by (auto simp: pool_inv_def mark_closed_def split: if_splits)
next
  case ClPop
  with assms show ?thesis
    by (auto simp: pool_inv_def close_ok_def dest!: sq_pop_SomeD split: if_splits option.splits)
next
  case ClWait
  have small: "unat (of_nat n :: u32) = n"
    using assms(2) ClWait unat_u32_less [of "max_connections (opts E)"] by (simp add: unat_of_nat)
  show ?thesis
  proof (cases "poll_acquire (sem E) (of_nat n) (semaphore p)")
    case None
    with ClWait assms show ?thesis by (auto split: if_splits)
  next
    case (Some s)
    with ClWait assms poll_acquire_SomeD [OF Some] small show ?thesis
      by (auto simp: pool_inv_def split: if_splits)
  qed
next
  case ClClosing
  with assms show ?thesis by (auto simp: owns_nothing_def split: answer.splits)
next
  case ClHold
  with assms show ?thesis by (auto simp: pool_inv_def split: if_splits)
qed (use assms in \<open>auto split: if_splits\<close>)

lemma child_step_inv:
  assumes "child_step E ans p k = Some r"
  shows "step_inv p (ChildT k) r"
  using assms
  by (auto simp: child_step_def pool_inv_def dest!: poll_acquire_SomeD
      split: answer.splits if_splits option.splits)

theorem task_step_inv:
  assumes "task_step E now ans p t = Some r" and "wf_task maxc t" and "close_ok p t"
  shows "step_inv p t r"
proof (cases t)
  case (GuardT pt k)
  with assms guard_step_inv show ?thesis by simp
next
  case (PermitDrop pm k)
  with assms permit_drop_step_inv show ?thesis by simp
next
  case (ReleaseT pt k)
  with assms release_step_inv show ?thesis by simp
next
  case (AcquireT s d pt)
  with assms acquire_step_inv show ?thesis by simp
next
  case (IncrementT c pm d pt k)
  with assms try_increment_size_inv show ?thesis by simp
next
  case (ConnectT c d pt k)
  with assms connect_step_inv show ?thesis by simp
next
  case (MinT pt k)
  with assms min_step_inv show ?thesis by simp
next
  case (TryT ts pt)
  with assms try_acquire_inv show ?thesis by simp
next
  case (CheckedOut l cod)
  with assms user_step_inv show ?thesis by simp
next
  case (ReturnT l pt)
  with assms return_to_pool_inv show ?thesis by simp
next
  case (ReapT a b n pt)
  with assms reap_step_inv show ?thesis by simp
next
  case (CloseT n pt)
  with assms close_step_inv show ?thesis by simp
next
  case (ChildT k)
  with assms child_step_inv show ?thesis by simp
qed (use assms in simp_all)


end

subsection \<open>Closing is permanent\<close>

lemma on_live_close_ok [simp]: "close_ok p k \<Longrightarrow> close_ok p (on_live c d l k)"
  using close_pc_continuations(1) [of c d l k] by (auto simp: close_ok_def)

lemma on_error_close_ok [simp]: "close_ok p k \<Longrightarrow> close_ok p (on_error c e k)"
  using close_pc_continuations(2) [of c e k] by (auto simp: close_ok_def)

lemma increment_failed_close_ok [simp]: "close_ok p k \<Longrightarrow> close_ok p (increment_failed c pm d k)"
  using close_pc_continuations(3) [of c pm d k] by (auto simp: close_ok_def)

lemma close_ok_simps [simp]:
  "close_ok p Done" "close_ok p (Failed e)" "close_ok p Panicked"
  "close_ok p (GuardT gp k) = close_ok p k" "close_ok p (PermitDrop pm k) = close_ok p k"
  "close_ok p (ReleaseT rp k) = close_ok p k" "close_ok p (AcquireT s d ap)"
  "close_ok p (IncrementT c pm d ip k) = close_ok p k" "close_ok p (ConnectT c d cp k) = close_ok p k"
  "close_ok p (MinT mp k) = close_ok p k" "close_ok p (TryT ts tp)" "close_ok p (CheckedOut l b)"
  "close_ok p (Leaked l)" "close_ok p (ReturnT l rt)" "close_ok p (ReapT a b' n rp')"
  "close_ok p (CloseT n pt) = (pt \<noteq> ClStart \<longrightarrow> is_closed p)"
  "close_ok p (ChildT m)" "close_ok p (ChildGone m m')"
  "close_ok p (abandoned c ans)" "close_ok p (try_none ts)" "close_ok p (try_some ts ic)"
  "close_ok p (drop_taken E b)"
  by (simp_all add: close_ok_def)

lemma close_ok_mono: "close_ok p t \<Longrightarrow> (is_closed p \<Longrightarrow> is_closed p') \<Longrightarrow> close_ok p' t"
  by (auto simp: close_ok_def split: option.splits)

lemma task_step_closed:
  assumes "task_step E now ans p t = Some (p', new)" and "is_closed p"
  shows "is_closed p'"
  using assms
  by (cases "(E, now, ans, p, t)" rule: task_step.cases; simp)
    (auto elim!: guard_step.elims release_step.elims acquire_step.elims try_increment_size.elims
       connect_step.elims min_step.elims try_acquire.elims reap_step.elims return_to_pool.elims
       close_step.elims
     simp: permit_drop_step_def user_step_def child_step_def Let_def acquire_permit_def pop_idle_def
       pop_idle_count_def mark_closed_def deadline_as_timeout_def
     split: if_splits option.splits answer.splits permit.splits poll.splits result.splits
       bool.splits prod.splits)

lemma task_step_close_ok:
  assumes "task_step E now ans p t = Some (p', new)" and "close_ok p t" and "t' \<in> set new"
  shows "close_ok p t' \<or> is_closed p'"
  using assms
  by (cases "(E, now, ans, p, t)" rule: task_step.cases; simp)
    (auto elim!: guard_step.elims release_step.elims acquire_step.elims try_increment_size.elims
       connect_step.elims min_step.elims try_acquire.elims reap_step.elims return_to_pool.elims
       close_step.elims
     simp: permit_drop_step_def user_step_def child_step_def Let_def pop_idle_def mark_closed_def
       deadline_as_timeout_def
     split: if_splits option.splits answer.splits permit.splits poll.splits result.splits
       bool.splits prod.splits)

end
