(* ===== verification/Pool_System.thy ===== *)
theory Pool_System
  imports Pool_Safety
begin

section \<open>The running pool: bounds, closing, waiting, refinement\<close>

text \<open>
  The handlers' conservation laws, lifted to every interleaving of tasks that starts from
  \<^verbatim>\<open>PoolInner::new_arc\<close>, and what follows for users of the pool.
\<close>

lemma new_arc_OkD:
  assumes "new_arc E par = Ok p"
  shows "\<exists>q. sq_new (queue E) (unat (max_connections (opts E))) = Some q
    \<and> p = \<lparr>idle_conns = q, semaphore = AsyncSemaphore_new (sem E) (fair (opts E))
             (if par = None then unat (max_connections (opts E)) else 0),
           pool_size = 0, num_idle = 0, is_closed = False, parent = par\<rparr>"
  using assms
  by (cases "sq_new (queue E) (unat (max_connections (opts E)))"; cases par)
    (auto simp: new_arc_def rassert_def split: if_splits)

context pool_containers
begin

definition system_inv :: "('s, 'q) system \<Rightarrow> bool" where
  "system_inv s \<longleftrightarrow>
     pool_inv (fst s) (total size_tok (snd s)) (total permit_tok (snd s))
       (total popped_tok (snd s)) (total pushed_tok (snd s)) (total surplus_tok (snd s))
     \<and> (\<forall>t \<in> set (snd s). wf_task maxc t \<and> close_ok (fst s) t)"

lemma new_arc_inv:
  assumes "new_arc E par = Ok p"
  shows "pool_inv p 0 0 0 0 0 \<and> \<not> is_closed p \<and> parent p = par"
  using assms
  by (auto simp: pool_inv_def dest!: new_arc_OkD sq_new_SomeD)

lemma entry_points_idle:
  "t \<in> set (spawn_maintenance_tasks os) \<or> t = connect_with os now \<Longrightarrow>
     owns_nothing t \<and> wf_task maxc t \<and> close_ok p t"
  by (auto simp: spawn_maintenance_tasks_def connect_with_def split: option.splits if_splits)
    (auto simp: owns_nothing_def)

lemma system_inv_start:
  assumes "new_arc E par = Ok p" and "\<forall>t \<in> set ts. owns_nothing t \<and> wf_task maxc t \<and> close_ok p t"
  shows "system_inv (p, ts)"
proof -
  have zero: "total f ts = 0" if "\<And>t. owns_nothing t \<Longrightarrow> f t = 0" for f
    using assms(2) that by (simp add: sum_list_eq_0_iff)
  have "total size_tok ts = 0" "total permit_tok ts = 0" "total popped_tok ts = 0"
    "total pushed_tok ts = 0" "total surplus_tok ts = 0"
    by (rule zero; simp)+
  show ?thesis
    unfolding system_inv_def fst_conv snd_conv
      \<open>total size_tok ts = 0\<close> \<open>total permit_tok ts = 0\<close> \<open>total popped_tok ts = 0\<close>
      \<open>total pushed_tok ts = 0\<close> \<open>total surplus_tok ts = 0\<close>
    using assms new_arc_inv [of par p] by blast
qed

lemma system_inv_spawn:
  "system_inv (p, ts) \<Longrightarrow> owns_nothing t \<Longrightarrow> wf_task maxc t \<Longrightarrow> close_ok p t \<Longrightarrow>
   system_inv (p, t # ts)"
  by (simp add: system_inv_def)

lemma system_inv_run:
  assumes "system_inv (p, ts @ t # us)" and step: "task_step E now ans p t = Some (p', new)"
  shows "system_inv (p', ts @ new @ us)"
proof -
  have wf: "wf_task maxc t" "close_ok p t"
    using assms(1) by (auto simp: system_inv_def)
  have closed: "is_closed p \<Longrightarrow> is_closed p'"
    using task_step_closed [OF step] .
  have "close_ok p' t'" if "t' \<in> set new" for t'
    using task_step_close_ok [OF step wf(2) that] closed
    by (auto simp: close_ok_def split: option.splits)
  moreover have "close_ok p' t'" if "close_ok p t'" for t'
    using close_ok_mono [OF that closed] .
  moreover have "pool_inv p (size_tok t + total size_tok (ts @ us))
      (permit_tok t + total permit_tok (ts @ us)) (popped_tok t + total popped_tok (ts @ us))
      (pushed_tok t + total pushed_tok (ts @ us)) (surplus_tok t + total surplus_tok (ts @ us))"
    using assms(1) by (simp add: system_inv_def algebra_simps)
  note task_step_inv [OF step wf, rule_format, OF this]
  ultimately show ?thesis
    using assms(1) by (auto simp: system_inv_def algebra_simps)
qed

lemma pool_inv_parent:
  "pool_inv p sz pm po pu su \<Longrightarrow> parent p \<noteq> None \<Longrightarrow> par' \<noteq> None \<Longrightarrow>
   pool_inv (p\<lparr>parent := par'\<rparr>) sz pm po pu su"
  by (auto simp: pool_inv_def)

lemma system_inv_step:
  assumes "pool_step E s s'" and "system_inv s"
  shows "system_inv s'"
  using assms
proof (induction rule: pool_step.induct)
  case (run now ans p t p' new ts us)
  then show ?case using system_inv_run by blast
next
  case (parent_moves p par ts c s)
  have "close_ok (p\<lparr>parent := q\<rparr>) t = close_ok p t" for q t
    by (auto simp: close_ok_def split: option.splits)
  with parent_moves show ?case
    by (auto simp: system_inv_def intro!: pool_inv_parent)
qed (auto intro!: system_inv_spawn simp: owns_nothing_def)

lemma reachable_inv: "pool_reachable E par s \<Longrightarrow> system_inv s"
proof (induction rule: pool_reachable.induct)
  case (lazy p)
  then show ?case using entry_points_idle by (intro system_inv_start) auto
next
  case (connected p now)
  then show ?case
    using entry_points_idle [of _ "opts E" now p] by (intro system_inv_start) auto
next
  case (step s s')
  then show ?case using system_inv_step by blast
qed

end

lemma task_step_parent:
  assumes "task_step E now ans p t = Some (p', new)"
  shows "(parent p' = None) = (parent p = None)"
  using assms
  by (cases "(E, now, ans, p, t)" rule: task_step.cases; simp)
    (auto elim!: guard_step.elims release_step.elims acquire_step.elims try_increment_size.elims
       connect_step.elims min_step.elims try_acquire.elims reap_step.elims return_to_pool.elims
       close_step.elims
     simp: permit_drop_step_def user_step_def child_step_def Let_def acquire_permit_def pop_idle_def
       pop_idle_count_def mark_closed_def deadline_as_timeout_def
     split: if_splits option.splits answer.splits permit.splits poll.splits result.splits
       bool.splits prod.splits)

lemma pool_step_parent:
  "pool_step E s s' \<Longrightarrow> (parent (fst s') = None) = (parent (fst s) = None)"
  by (induction rule: pool_step.induct) (auto dest!: task_step_parent)

lemma pool_step_closed: "pool_step E s s' \<Longrightarrow> is_closed (fst s) \<Longrightarrow> is_closed (fst s')"
  by (induction rule: pool_step.induct) (auto dest: task_step_closed)

lemma new_arc_parent: "new_arc E par = Ok p \<Longrightarrow> parent p = par"
  by (auto dest!: new_arc_OkD)

lemma reachable_parent:
  "pool_reachable E par s \<Longrightarrow> (parent (fst s) = None) = (par = None)"
  by (induction rule: pool_reachable.induct) (auto dest: pool_step_parent new_arc_parent)

subsection \<open>Refinement of a bounded counter\<close>

text \<open>
  What the pool promises, without any of its machinery: some connections are idle, some are
  held, and there are never more than \<open>m\<close>.
\<close>

inductive counter_step :: "nat \<Rightarrow> nat \<times> nat \<Rightarrow> nat \<times> nat \<Rightarrow> bool" for m :: nat where
  open_conn: "idle + held < m \<Longrightarrow> counter_step m (idle, held) (idle, Suc held)"
| close_conn: "counter_step m (idle, Suc held) (idle, held)"
| take_idle: "counter_step m (Suc idle, held) (idle, Suc held)"
| put_idle: "counter_step m (idle, Suc held) (Suc idle, held)"

definition abs_pool :: "('q \<Rightarrow> idle_conn list) \<Rightarrow> ('s, 'q) system \<Rightarrow> nat \<times> nat" where
  "abs_pool contents s = (length (contents (idle_conns (fst s))), total size_tok (snd s))"

text \<open>The permits left in the parent's semaphore, and what a task has of connections that are open
  or being opened: an attempt counts once \<^verbatim>\<open>connect\<close> has seen an open pool, and a connection until
  its guard is dropped.\<close>

definition parent_permits :: "('s, 'q) pool_env \<Rightarrow> ('s, 'q) pool_inner \<Rightarrow> nat" where
  "parent_permits E p =
     (case parent p of None \<Rightarrow> 0 | Some par \<Rightarrow> permits (sem E) (par_semaphore par))"

fun open_tok :: "task \<Rightarrow> nat" where
  "open_tok (GuardT pt k) = 0"
| "open_tok (ConnectT c d CStart k) = 0"
| "open_tok t = size_tok t"

definition conns_open :: "('q \<Rightarrow> idle_conn list) \<Rightarrow> ('s, 'q) system \<Rightarrow> nat" where
  "conns_open contents s = length (contents (idle_conns (fst s))) + total open_tok (snd s)"

lemma open_tok_owned: "size_tok t = 0 \<Longrightarrow> open_tok t = 0"
  by (cases t rule: open_tok.cases) auto

lemma open_tok_one: "size_tok t = 1 \<Longrightarrow> open_tok t \<le> Suc 0"
  by (cases t rule: open_tok.cases) auto

context pool_containers
begin

lemma task_step_deltas:
  assumes "task_step E now ans p t = Some (p', new)"
  shows "(pool_size p' = pool_size p \<and>
            (length (contents (idle_conns p')) = length (contents (idle_conns p))
             \<or> length (contents (idle_conns p')) = Suc (length (contents (idle_conns p)))
             \<or> length (contents (idle_conns p)) = Suc (length (contents (idle_conns p')))))
       \<or> (\<exists>k. t = GuardT GDecrement k \<and> p' = p\<lparr>pool_size := pool_size p - 1\<rparr>)
       \<or> (\<exists>c pm d k. t = IncrementT c pm d (ICas (pool_size p)) k \<and>
            p' = p\<lparr>pool_size := pool_size p + 1\<rparr>)"
  using assms
  by (cases "(E, now, ans, p, t)" rule: task_step.cases; simp)
    (auto elim!: guard_step.elims release_step.elims acquire_step.elims try_increment_size.elims
       connect_step.elims min_step.elims try_acquire.elims reap_step.elims return_to_pool.elims
       close_step.elims
     simp: permit_drop_step_def user_step_def child_step_def Let_def acquire_permit_def pop_idle_def
       pop_idle_count_def mark_closed_def deadline_as_timeout_def
     dest!: sq_push_SomeD sq_pop_SomeD
     split: if_splits option.splits answer.splits permit.splits poll.splits result.splits
       bool.splits prod.splits)

lemma system_inv_size:
  "system_inv (p, ts) \<Longrightarrow>
     unat (pool_size p) = length (contents (idle_conns p)) + total size_tok ts
     \<and> unat (pool_size p) \<le> maxc"
  by (simp add: system_inv_def pool_inv_def word_le_nat_alt)

lemma run_refines:
  assumes inv: "system_inv (p, ts @ t # us)" and step: "task_step E now ans p t = Some (p', new)"
  shows "(counter_step maxc)\<^sup>=\<^sup>=
    (abs_pool contents (p, ts @ t # us)) (abs_pool contents (p', ts @ new @ us))"
proof -
  let ?h = "total size_tok (ts @ t # us)" and ?h' = "total size_tok (ts @ new @ us)"
  note old = system_inv_size [OF inv] and new = system_inv_size [OF system_inv_run [OF inv step]]
  have wf: "wf_task maxc t" using inv by (simp add: system_inv_def)
  consider (same) "pool_size p' = pool_size p"
      "length (contents (idle_conns p')) = length (contents (idle_conns p))"
    | (put) "pool_size p' = pool_size p"
      "length (contents (idle_conns p')) = Suc (length (contents (idle_conns p)))"
    | (pop) "pool_size p' = pool_size p"
      "length (contents (idle_conns p)) = Suc (length (contents (idle_conns p')))"
    | (dec) k where "t = GuardT GDecrement k" "p' = p\<lparr>pool_size := pool_size p - 1\<rparr>"
    | (inc) c pm d k where "t = IncrementT c pm d (ICas (pool_size p)) k"
      "p' = p\<lparr>pool_size := pool_size p + 1\<rparr>"
    using task_step_deltas [OF step] by blast
  then show ?thesis
  proof cases
    case same
    with old new show ?thesis by (simp add: abs_pool_def)
  next
    case put
    with old new have "?h = Suc ?h'" by simp
    with put show ?thesis by (simp only: abs_pool_def fst_conv snd_conv) (auto intro: put_idle)
  next
    case pop
    with old new have "?h' = Suc ?h" by simp
    with pop show ?thesis by (simp only: abs_pool_def fst_conv snd_conv) (auto intro: take_idle)
  next
    case dec
    with old have "0 < unat (pool_size p)" by simp
    with dec old new have "?h = Suc ?h'" by (simp add: unat_dec)
    with dec show ?thesis
      by (simp only: abs_pool_def fst_conv snd_conv) (auto intro: close_conn)
  next
    case inc
    with wf have less: "unat (pool_size p) < maxc" by simp
    then have "unat (pool_size p + 1) = unat (pool_size p) + 1"
      using unat_u32_less [of "max_connections (opts E)"] by (simp add: unat_word_ariths)
    with inc old new have "?h' = Suc ?h" by simp
    moreover have "length (contents (idle_conns p)) + ?h < maxc" using old less by simp
    ultimately show ?thesis using inc
      by (simp only: abs_pool_def fst_conv snd_conv) (auto intro: open_conn)
  qed
qed

lemma step_refines:
  assumes "pool_step E s s'" and "system_inv s"
  shows "(counter_step maxc)\<^sup>=\<^sup>= (abs_pool contents s) (abs_pool contents s')"
  using assms
proof (induction rule: pool_step.induct)
  case (run now ans p t p' new ts us)
  then show ?case using run_refines by blast
qed (simp_all add: abs_pool_def)

lemma poll_acquire_None: "poll_acquire (sem E) 1 s = None \<Longrightarrow> permits (sem E) s = 0"
  using poll_acquire_ready [of 1 s] by fastforce

lemma pending_cases:
  assumes "acquire_permit E p fp pp = (p', pp', Pending)"
  shows "permits (sem E) (semaphore p) = 0
    \<and> (fp \<and> parent p \<noteq> None \<longrightarrow> (\<not> pp \<and> pp') \<or> parent_permits E p = 0)"
  using assms
  by (auto simp: acquire_permit_def parent_permits_def dest!: poll_acquire_None
      split: option.splits bool.splits if_splits)

lemma waiting_inv:
  assumes "system_inv (p, ts @ AcquireT s d (APoll fp pp) # us)" and "\<not> is_closed p"
    and "acquire_permit E p fp pp = (p', pp', Pending)"
  shows "permits (sem E) (semaphore p) = 0
    \<and> (parent p = None \<longrightarrow> total permit_tok (ts @ us) = maxc + total surplus_tok (ts @ us))
    \<and> (fp \<and> parent p \<noteq> None \<longrightarrow> (\<not> pp \<and> pp') \<or> parent_permits E p = 0)"
  using pending_cases [OF assms(3)] assms(1,2) by (simp add: system_inv_def pool_inv_def)

lemma idle_counter_inv:
  assumes "system_inv (p, ts)" "\<not> is_closed p" "total popped_tok ts = 0" "total pushed_tok ts = 0"
  shows "unat (num_idle p) = length (contents (idle_conns p))"
proof -
  have "length (contents (idle_conns p)) < 2 ^ 64"
    using system_inv_size [OF assms(1)] unat_u32_less [of "max_connections (opts E)"] by simp
  moreover have "num_idle p = of_nat (length (contents (idle_conns p)))"
    using assms by (simp add: system_inv_def pool_inv_def del: sum_list_eq_0_iff)
  ultimately show ?thesis by (simp add: unat_of_nat)
qed

subsection \<open>Permits that move between a pool and its parent\<close>

lemma task_step_flow:
  assumes "task_step E now ans p t = Some (p', new)" "wf_task maxc t" "close_ok p t" "\<not> is_closed p"
    and "Panicked \<notin> set new"
  shows "permits (sem E) (semaphore p') + parent_permits E p' + total permit_tok new + surplus_tok t =
    permits (sem E) (semaphore p) + parent_permits E p + permit_tok t + total surplus_tok new"
  using assms
  by (cases "(E, now, ans, p, t)" rule: task_step.cases; simp)
    (auto elim!: guard_step.elims release_step.elims acquire_step.elims try_increment_size.elims
       connect_step.elims min_step.elims try_acquire.elims reap_step.elims return_to_pool.elims
       close_step.elims
     simp: permit_drop_step_def user_step_def child_step_def Let_def acquire_permit_def pop_idle_def
       pop_idle_count_def mark_closed_def deadline_as_timeout_def parent_permits_def
     dest!: try_acquire_SomeD poll_acquire_SomeD
     split: if_splits option.splits answer.splits permit.splits poll.splits result.splits
       bool.splits prod.splits)

lemma run_flow:
  assumes inv: "system_inv (p, ts @ t # us)" and step: "task_step E now ans p t = Some (p', new)"
    and "\<not> is_closed p"
  shows "permits (sem E) (semaphore p') + parent_permits E p' + total permit_tok new + surplus_tok t =
    permits (sem E) (semaphore p) + parent_permits E p + permit_tok t + total surplus_tok new"
proof -
  have "wf_task maxc t" "close_ok p t" using inv by (auto simp: system_inv_def)
  moreover have "\<forall>t' \<in> set new. wf_task maxc t'"
    using system_inv_run [OF inv step] by (auto simp: system_inv_def)
  then have "Panicked \<notin> set new" by force
  ultimately show ?thesis using task_step_flow [OF step] assms(3) by simp
qed

subsection \<open>A closed pool begins no connection\<close>

lemma task_step_opens:
  assumes "task_step E now ans p t = Some (p', new)" "wf_task maxc t" "is_closed p"
  shows "length (contents (idle_conns p')) + total open_tok new
    \<le> length (contents (idle_conns p)) + open_tok t"
  using assms
  by (cases "(E, now, ans, p, t)" rule: task_step.cases; simp)
    (auto elim!: guard_step.elims release_step.elims acquire_step.elims try_increment_size.elims
       connect_step.elims min_step.elims try_acquire.elims reap_step.elims return_to_pool.elims
       close_step.elims
     simp: permit_drop_step_def user_step_def child_step_def Let_def acquire_permit_def pop_idle_def
       pop_idle_count_def mark_closed_def deadline_as_timeout_def open_tok_owned open_tok_one
     dest!: sq_push_SomeD sq_pop_SomeD
     split: if_splits option.splits answer.splits permit.splits poll.splits result.splits
       bool.splits prod.splits)

lemma step_opens:
  assumes "pool_step E s s'" and "system_inv s" and "is_closed (fst s)"
  shows "conns_open contents s' \<le> conns_open contents s"
  using assms
proof (induction rule: pool_step.induct)
  case (run now ans p t p' new ts us)
  then have "wf_task maxc t" by (simp add: system_inv_def)
  with run task_step_opens [OF run(1)] show ?case by (simp add: conns_open_def)
qed (simp_all add: conns_open_def)

lemma steps_open:
  assumes "(pool_step E)\<^sup>*\<^sup>* s s'" and "system_inv s" and "is_closed (fst s)"
  shows "system_inv s' \<and> is_closed (fst s') \<and> conns_open contents s' \<le> conns_open contents s"
  using assms
proof (induction rule: rtranclp_induct)
  case (step y z)
  then show ?case
    using step_opens [of y z] system_inv_step [of y z] pool_step_closed [of E y z] by simp
qed simp

end

end
