(* ===== verification/Pool_Correct.thy ===== *)
theory Pool_Correct
  imports Pool_System
begin

section \<open>What the pool guarantees, and where it does not\<close>

text \<open>
  The properties of \<^verbatim>\<open>sqlx-core/src/pool\<close> over every interleaving of its tasks, for any
  semaphore and queue that keep their contracts, and runs of single operations to their end.
\<close>

subsection \<open>Schedules\<close>

text \<open>A schedule names the task that moves, the clock and the environment's answer.\<close>

fun run_schedule ::
  "('s, 'q) pool_env \<Rightarrow> (nat \<times> nat \<times> answer) list \<Rightarrow> ('s, 'q) system \<Rightarrow> ('s, 'q) system option"
where
  "run_schedule E [] s = Some s"
| "run_schedule E ((i, now, ans) # rest) s =
     (if i < length (snd s) then
        (case task_step E now ans (fst s) (snd s ! i) of
           None \<Rightarrow> None
         | Some (p', new) \<Rightarrow>
             run_schedule E rest (p', take i (snd s) @ new @ drop (Suc i) (snd s)))
      else None)"

lemma run_schedule_steps:
  "run_schedule E sch s = Some s' \<Longrightarrow> (pool_step E)\<^sup>*\<^sup>* s s'"
proof (induction E sch s rule: run_schedule.induct)
  case (2 E i now ans rest s)
  then obtain p' new where i: "i < length (snd s)"
    and step: "task_step E now ans (fst s) (snd s ! i) = Some (p', new)"
    and rest: "run_schedule E rest (p', take i (snd s) @ new @ drop (Suc i) (snd s)) = Some s'"
    by (auto split: if_splits option.splits)
  have "pool_step E (fst s, take i (snd s) @ snd s ! i # drop (Suc i) (snd s))
      (p', take i (snd s) @ new @ drop (Suc i) (snd s))"
    using step by (rule pool_step.run)
  then have "pool_step E s (p', take i (snd s) @ new @ drop (Suc i) (snd s))"
    using i by (simp add: id_take_nth_drop [symmetric])
  with 2(1) [OF i step refl rest] show ?case
    by (meson converse_rtranclp_into_rtranclp)
qed simp

lemma reachable_steps:
  "(pool_step E)\<^sup>*\<^sup>* s s' \<Longrightarrow> pool_reachable E par s \<Longrightarrow> pool_reachable E par s'"
  by (induction rule: rtranclp_induct) (auto intro: pool_reachable.step)

lemmas reachable_schedule = reachable_steps [OF run_schedule_steps]

lemma closed_steps: "(pool_step E)\<^sup>*\<^sup>* s s' \<Longrightarrow> is_closed (fst s) \<Longrightarrow> is_closed (fst s')"
  by (induction rule: rtranclp_induct) (auto dest: pool_step_closed)

subsection \<open>A reference pool\<close>

definition ref_env :: "pool_options \<Rightarrow> (nat, idle_conn list \<times> nat) pool_env" where
  "ref_env os = \<lparr>sem = counter_sem, queue = list_queue, opts = os\<rparr>"

interpretation ref_pool: pool_containers "ref_env os" fst snd for os
  by (simp add: ref_env_def pool_containers_def counter.runtime_semaphore_axioms
      bounded_list.array_queue_axioms)

text \<open>At most two connections, no reaper; and the pool it creates.\<close>

definition small_options :: pool_options where
  "small_options =
     PoolOptions_new\<lparr>max_connections := 2, max_lifetime := None, idle_timeout := None\<rparr>"

definition small_pool :: "(nat, idle_conn list \<times> nat) pool_inner" where
  "small_pool = \<lparr>idle_conns = ([], 2), semaphore = 2, pool_size = 0, num_idle = 0,
     is_closed = False, parent = None\<rparr>"

lemmas ref_simps =
  ref_env_def small_options_def small_pool_def PoolOptions_new_def counter_sem_def list_queue_def
  poll_acquire_def sem_try_acquire_def sem_release_def permits_def AsyncSemaphore_new_def

lemma small_pool_reachable: "pool_reachable (ref_env small_options) None (small_pool, [])"
proof -
  have "new_arc (ref_env small_options) None = Ok small_pool"
    by (simp add: new_arc_def ref_simps)
  moreover have "spawn_maintenance_tasks (opts (ref_env small_options)) = []"
    by (simp add: spawn_maintenance_tasks_def ref_simps)
  ultimately show ?thesis
    using pool_reachable.lazy by metis
qed

text \<open>The answers that let \<^verbatim>\<open>acquire\<close> (task \<open>i\<close>, at time \<open>now\<close>) open connection \<open>r\<close>, take
  the oldest idle connection, and let the user's drop return a connection.\<close>

definition open_schedule :: "nat \<Rightarrow> nat \<Rightarrow> nat \<Rightarrow> (nat \<times> nat \<times> answer) list" where
  "open_schedule i now r =
     map (\<lambda>a. (i, now, a)) [Go, Go, Go, Go, Go, Go, Go, Go, ConnOk r, Go]"

definition reuse_schedule :: "nat \<Rightarrow> nat \<Rightarrow> (nat \<times> nat \<times> answer) list" where
  "reuse_schedule i now = map (\<lambda>a. (i, now, a)) [Go, Go, Go, Go, Go, PingOk, Go]"

definition return_schedule :: "nat \<Rightarrow> nat \<Rightarrow> (nat \<times> nat \<times> answer) list" where
  "return_schedule i now = map (\<lambda>a. (i, now, a)) [UserDrop, Go, Go, PingOk, Go, Go, Go]"

lemmas schedule_simps = open_schedule_def reuse_schedule_def return_schedule_def

lemma two_out_reachable:
  "pool_reachable (ref_env small_options) None
     (small_pool\<lparr>semaphore := 0, pool_size := 2\<rparr>,
      [CheckedOut \<lparr>raw = 8, created_at = 5\<rparr> False, CheckedOut \<lparr>raw = 7, created_at = 5\<rparr> False])"
proof -
  have "run_schedule (ref_env small_options) (open_schedule 1 5 7 @ open_schedule 0 5 8)
      (small_pool, [AcquireT ToUser 0 AStart, AcquireT ToUser 0 AStart]) =
      Some (small_pool\<lparr>semaphore := 0, pool_size := 2\<rparr>,
        [CheckedOut \<lparr>raw = 8, created_at = 5\<rparr> False, CheckedOut \<lparr>raw = 7, created_at = 5\<rparr> False])"
    by (simp add: schedule_simps ref_simps acquire_permit_from_parent_def acquire_permit_def
        pop_idle_def deadline_as_timeout_def secs_def)
  moreover have "pool_reachable (ref_env small_options) None
      (small_pool, [AcquireT ToUser 0 AStart, AcquireT ToUser 0 AStart])"
    by (intro pool_reachable.step [OF _ start_acquire] small_pool_reachable)
  ultimately show ?thesis using reachable_schedule by blast
qed

text \<open>A child pool of a pool of two: its own semaphore is empty, the parent's has \<open>n\<close> permits.\<close>

definition child_pool :: "nat \<Rightarrow> (nat, idle_conn list \<times> nat) pool_inner" where
  "child_pool n = small_pool\<lparr>semaphore := 0, parent :=
     Some \<lparr>par_max_connections = 2, par_fair = True, par_semaphore = n, par_closed = False\<rparr>\<rparr>"

lemma child_pool_reachable:
  "pool_reachable (ref_env small_options) (parent (child_pool 2)) (child_pool 2, [])"
proof -
  have "new_arc (ref_env small_options) (parent (child_pool 2)) = Ok (child_pool 2)"
    by (simp add: new_arc_def child_pool_def ref_simps rassert_def)
  moreover have "spawn_maintenance_tasks (opts (ref_env small_options)) = []"
    by (simp add: spawn_maintenance_tasks_def ref_simps)
  ultimately show ?thesis
    using pool_reachable.lazy by metis
qed

lemma child_waits_reachable:
  "pool_reachable (ref_env small_options) (parent (child_pool 2))
     (child_pool 2, [AcquireT ToUser (5 + secs 30) (APoll True True)])"
proof -
  have "run_schedule (ref_env small_options) [(0, 5, Go), (0, 5, Go), (0, 5, Go)]
      (child_pool 2, [AcquireT ToUser 0 AStart]) =
      Some (child_pool 2, [AcquireT ToUser (5 + secs 30) (APoll True True)])"
    by (simp add: ref_simps child_pool_def acquire_permit_from_parent_def acquire_permit_def)
  from reachable_schedule [OF this pool_reachable.step [OF child_pool_reachable start_acquire]]
  show ?thesis .
qed

subsection \<open>Safety\<close>

context pool_containers
begin

lemma bounded_inv:
  assumes "system_inv (p, ts)"
  shows "unat (pool_size p) = length (contents (idle_conns p)) + total size_tok ts
    \<and> pool_size p \<le> max_connections (opts E) \<and> Panicked \<notin> set ts"
proof -
  have "\<forall>t \<in> set ts. wf_task maxc t" using assms by (simp add: system_inv_def)
  then have "Panicked \<notin> set ts" by force
  then show ?thesis using system_inv_size [OF assms] by (simp add: word_le_nat_alt)
qed

lemma permits_inv:
  assumes "system_inv (p, ts)" and "parent p = None"
  shows "(if is_closed p
          then maxc + total surplus_tok ts \<le> permits (sem E) (semaphore p) + total permit_tok ts
          else permits (sem E) (semaphore p) + total permit_tok ts = maxc + total surplus_tok ts)"
  using assms by (simp add: system_inv_def pool_inv_def)

end

text \<open>C1. In every reachable state of the pool, for every interleaving of acquires,
  releases, maintenance, user calls, cancellations and closes: the size counter is the
  number of idle connections plus the connections (or rights to open one) held by tasks, it
  never exceeds \<^verbatim>\<open>max_connections\<close>, and no task has panicked, so \<^verbatim>\<open>release\<close> never finds
  the idle queue full.\<close>

theorem pool_bounded:
  assumes "pool_containers E contents capacity" and "pool_reachable E par (p, ts)"
  shows "unat (pool_size p) = length (contents (idle_conns p)) + total size_tok ts
    \<and> pool_size p \<le> max_connections (opts E) \<and> Panicked \<notin> set ts"
  by (rule pool_containers.bounded_inv [OF assms(1) pool_containers.reachable_inv [OF assms]])

theorem pool_bounded_witness:
  "unat (2 :: u32) = 0 + total size_tok
     [CheckedOut \<lparr>raw = 8, created_at = 5\<rparr> False, CheckedOut \<lparr>raw = 7, created_at = 5\<rparr> False]"
  using pool_bounded [OF ref_pool.pool_containers_axioms two_out_reachable]
  by (simp add: small_pool_def)

text \<open>C2. Permits are neither lost nor invented while a pool is open.  In a pool without a parent, those
  in the semaphore and those held by its tasks and its child pools add up to \<^verbatim>\<open>max_connections\<close>, plus what
  dropped child pools released beyond what they had taken; closing can only add permits.  A pool with a
  parent starts without permits and takes them from the parent: for such a pool, as for any other, every
  step of a task leaves the sum of its own permits, its parent's and those its tasks hold as it is.\<close>

theorem permits_conserved:
  assumes "pool_containers E contents capacity" and "pool_reachable E par (p, ts)"
  shows "(par = None \<longrightarrow>
       (if is_closed p
        then unat (max_connections (opts E)) + total surplus_tok ts
               \<le> permits (sem E) (semaphore p) + total permit_tok ts
        else permits (sem E) (semaphore p) + total permit_tok ts =
               unat (max_connections (opts E)) + total surplus_tok ts))
    \<and> (\<forall>us t vs now ans p' new.
       ts = us @ t # vs \<and> \<not> is_closed p \<and> task_step E now ans p t = Some (p', new) \<longrightarrow>
       permits (sem E) (semaphore p') + parent_permits E p' + total permit_tok (us @ new @ vs)
         + total surplus_tok ts =
       permits (sem E) (semaphore p) + parent_permits E p + total permit_tok ts
         + total surplus_tok (us @ new @ vs))"
proof -
  note inv = pool_containers.reachable_inv [OF assms]
  show ?thesis
    using reachable_parent [OF assms(2)] pool_containers.permits_inv [OF assms(1) inv]
      pool_containers.run_flow [OF assms(1)] inv by fastforce
qed

text \<open>The root pool with both connections checked out; and a child pool whose \<^verbatim>\<open>acquire\<close> takes one of
  the two permits its parent has.\<close>

theorem permits_conserved_witness:
  "permits (sem (ref_env small_options)) 0 + total permit_tok
     [CheckedOut \<lparr>raw = 8, created_at = 5\<rparr> False, CheckedOut \<lparr>raw = 7, created_at = 5\<rparr> False] = 2
   \<and> parent_permits (ref_env small_options) (child_pool 1) + permit_tok (AcquireT ToUser 9 (APop ParentPermit))
     = parent_permits (ref_env small_options) (child_pool 2)"
proof
  show "permits (sem (ref_env small_options)) 0 + total permit_tok
     [CheckedOut \<lparr>raw = 8, created_at = 5\<rparr> False, CheckedOut \<lparr>raw = 7, created_at = 5\<rparr> False] = 2"
    using permits_conserved [OF ref_pool.pool_containers_axioms two_out_reachable]
    by (simp add: ref_simps)
  have "[AcquireT ToUser (5 + secs 30) (APoll True True)] = [] @ AcquireT ToUser (5 + secs 30) (APoll True True) # []
    \<and> \<not> is_closed (child_pool 2)
    \<and> task_step (ref_env small_options) 5 Go (child_pool 2) (AcquireT ToUser (5 + secs 30) (APoll True True)) =
      Some (child_pool 1, [AcquireT ToUser (5 + secs 30) (APop ParentPermit)])"
    by (simp add: acquire_permit_def child_pool_def ref_simps)
  from permits_conserved [OF ref_pool.pool_containers_axioms child_waits_reachable, THEN conjunct2,
      rule_format, OF this]
  show "parent_permits (ref_env small_options) (child_pool 1)
        + permit_tok (AcquireT ToUser 9 (APop ParentPermit))
      = parent_permits (ref_env small_options) (child_pool 2)"
    by (simp add: child_pool_def)
qed

text \<open>C16. A caller of \<^verbatim>\<open>acquire\<close> on an open pool is left waiting only when the pool's semaphore is
  empty.  Without a parent that means that the other tasks and the child pools hold all
  \<^verbatim>\<open>max_connections\<close> permits and whatever dropped child pools released too many; a pool with a parent that is
  below its own limit also finds the parent's semaphore empty, except at the first poll, which leaves
  the parent alone and asks to be polled again.\<close>

theorem waits_only_when_exhausted:
  assumes "pool_containers E contents capacity"
    and "pool_reachable E par (p, ts @ AcquireT s d (APoll fp pp) # us)" and "\<not> is_closed p"
    and "acquire_permit E p fp pp = (p', pp', Pending)"
  shows "permits (sem E) (semaphore p) = 0
    \<and> (par = None \<longrightarrow>
         total permit_tok (ts @ us) = unat (max_connections (opts E)) + total surplus_tok (ts @ us))
    \<and> (par \<noteq> None \<and> fp \<longrightarrow> (\<not> pp \<and> pp') \<or> parent_permits E p = 0)"
  using pool_containers.waiting_inv [OF assms(1) pool_containers.reachable_inv [OF assms(1,2)] assms(3,4)]
    reachable_parent [OF assms(2)] by auto

theorem waits_only_when_exhausted_witness:
  "total permit_tok ([] @
     [CheckedOut \<lparr>raw = 8, created_at = 5\<rparr> False, CheckedOut \<lparr>raw = 7, created_at = 5\<rparr> False]) = 2"
proof -
  let ?out = "[CheckedOut \<lparr>raw = 8, created_at = 5\<rparr> False, CheckedOut \<lparr>raw = 7, created_at = 5\<rparr> False]"
  let ?p = "small_pool\<lparr>semaphore := 0, pool_size := 2\<rparr>"
  have "run_schedule (ref_env small_options) [(0, 5, Go), (0, 5, Go)]
      (?p, AcquireT ToUser 0 AStart # ?out) =
      Some (?p, [] @ AcquireT ToUser (5 + secs 30) (APoll False False) # ?out)"
    by (simp add: ref_simps acquire_permit_from_parent_def)
  note reachable_schedule [OF this pool_reachable.step [OF two_out_reachable start_acquire]]
  moreover have "acquire_permit (ref_env small_options) ?p False False = (?p, False, Pending)"
    by (simp add: acquire_permit_def ref_simps)
  ultimately show ?thesis
    using waits_only_when_exhausted [OF ref_pool.pool_containers_axioms, of small_options None ?p "[]"]
    by (simp add: ref_simps)
qed

text \<open>Whenever no task is between a queue operation and the matching counter update,
  \<^verbatim>\<open>num_idle\<close> of an open pool is exactly the number of queued connections.\<close>

theorem num_idle_exact:
  assumes "pool_containers E contents capacity" and "pool_reachable E par (p, ts)"
    and "\<not> is_closed p" and "total popped_tok ts = 0" and "total pushed_tok ts = 0"
  shows "unat (num_idle p) = length (contents (idle_conns p))"
  by (rule pool_containers.idle_counter_inv
        [OF assms(1) pool_containers.reachable_inv [OF assms(1,2)] assms(3-5)])

theorem num_idle_exact_witness:
  "unat (num_idle small_pool) = length (fst (idle_conns small_pool))"
  using num_idle_exact [OF ref_pool.pool_containers_axioms small_pool_reachable]
  by (simp add: small_pool_def)

text \<open>C3. Every step of the running pool is a step of the bounded counter that opens,
  closes, takes or puts back one connection and never counts more than
  \<^verbatim>\<open>max_connections\<close> of them, or leaves that counter as it is.\<close>

theorem pool_refines_counter:
  assumes "pool_containers E contents capacity" and "pool_reachable E par s" and "pool_step E s s'"
  shows "(counter_step (unat (max_connections (opts E))))\<^sup>=\<^sup>=
    (abs_pool contents s) (abs_pool contents s')"
  by (rule pool_containers.step_refines
        [OF assms(1,3) pool_containers.reachable_inv [OF assms(1,2)]])

theorem pool_refines_counter_witness:
  "(counter_step 2)\<^sup>=\<^sup>= (abs_pool fst (small_pool, [] :: task list))
     (abs_pool fst (small_pool, [AcquireT ToUser 0 AStart]))"
  using pool_refines_counter [OF ref_pool.pool_containers_axioms small_pool_reachable start_acquire]
  by (simp add: ref_simps)



subsection \<open>Operations run to their end\<close>

text \<open>C36. With an idle connection and a free permit, \<^verbatim>\<open>acquire\<close> returns the oldest idle
  connection once its ping succeeds: the connection leaves the queue, one permit is taken,
  and the pool's size does not change.\<close>

theorem acquire_reuses_oldest:
  assumes "pool_containers E contents capacity" and "\<not> is_closed p" and "parent p = None"
    and "0 < permits (sem E) (semaphore p)" and "contents (idle_conns p) = c # cs"
    and "test_before_acquire (opts E)" and "\<not> before_acquire (opts E)"
  shows "\<exists>p'. run_schedule E (reuse_schedule 0 now) (p, [AcquireT ToUser 0 AStart])
      = Some (p', [CheckedOut (idle_live c) False])
    \<and> contents (idle_conns p') = cs \<and> pool_size p' = pool_size p
    \<and> num_idle p' = num_idle p - 1
    \<and> permits (sem E) (semaphore p) = Suc (permits (sem E) (semaphore p'))"
proof -
  obtain s where s: "poll_acquire (sem E) 1 (semaphore p) = Some s"
      "permits (sem E) (semaphore p) = Suc (permits (sem E) s)"
    using runtime_semaphore.poll_acquire_ready [of "sem E" 1 "semaphore p"]
      runtime_semaphore.poll_acquire_SomeD [of "sem E" 1 "semaphore p"] assms(1,4)
    by (auto simp: pool_containers_def)
  obtain q where q: "sq_pop (queue E) (idle_conns p) = Some (c, q)" "contents q = cs"
    using array_queue.pop_Cons [of "queue E" contents capacity] assms(1,5)
    by (fastforce simp: pool_containers_def)
  show ?thesis
    using assms s q
    by (simp add: schedule_simps acquire_permit_from_parent_def acquire_permit_def pop_idle_def
        pop_idle_count_def)
qed

theorem acquire_reuses_oldest_witness:
  "\<exists>p'. run_schedule (ref_env small_options) (reuse_schedule 0 9)
      (small_pool\<lparr>idle_conns := ([into_idle 1 \<lparr>raw = 3, created_at = 0\<rparr>], 2), pool_size := 1,
         num_idle := 1\<rparr>, [AcquireT ToUser 0 AStart])
      = Some (p', [CheckedOut \<lparr>raw = 3, created_at = 0\<rparr> False])
    \<and> num_idle p' = 0"
proof -
  let ?p = "small_pool\<lparr>idle_conns := ([into_idle 1 \<lparr>raw = 3, created_at = 0\<rparr>], 2),
    pool_size := 1, num_idle := 1\<rparr>"
  have "\<not> is_closed ?p" "parent ?p = None" "0 < permits (sem (ref_env small_options)) (semaphore ?p)"
    "fst (idle_conns ?p) = [into_idle 1 \<lparr>raw = 3, created_at = 0\<rparr>]"
    "test_before_acquire (opts (ref_env small_options))"
    "\<not> before_acquire (opts (ref_env small_options))"
    by (simp_all add: ref_simps)
  from acquire_reuses_oldest [OF ref_pool.pool_containers_axioms this, of 9]
  show ?thesis by (auto simp: into_idle_def)
qed

text \<open>With no idle connection, a free permit and room below \<^verbatim>\<open>max_connections\<close>,
  \<^verbatim>\<open>acquire\<close> returns the connection the database hands out: the size grows by one and one
  permit is taken.\<close>

theorem acquire_opens:
  assumes "pool_containers E contents capacity" and "\<not> is_closed p" and "parent p = None"
    and "0 < permits (sem E) (semaphore p)" and "contents (idle_conns p) = []"
    and "pool_size p < max_connections (opts E)" and "\<not> after_connect (opts E)"
  shows "\<exists>p'. run_schedule E (open_schedule 0 now r) (p, [AcquireT ToUser 0 AStart])
      = Some (p', [CheckedOut \<lparr>raw = r, created_at = now\<rparr> False])
    \<and> contents (idle_conns p') = [] \<and> pool_size p' = pool_size p + 1
    \<and> permits (sem E) (semaphore p) = Suc (permits (sem E) (semaphore p'))"
proof -
  obtain s where s: "poll_acquire (sem E) 1 (semaphore p) = Some s"
      "permits (sem E) (semaphore p) = Suc (permits (sem E) s)"
    using runtime_semaphore.poll_acquire_ready [of "sem E" 1 "semaphore p"]
      runtime_semaphore.poll_acquire_SomeD [of "sem E" 1 "semaphore p"] assms(1,4)
    by (auto simp: pool_containers_def)
  have q: "sq_pop (queue E) (idle_conns p) = None"
    using array_queue.pop_Nil [of "queue E" contents capacity] assms(1,5)
    by (simp add: pool_containers_def)
  have room: "unat (pool_size p) + 1 < 4294967296" "pool_size p + 1 \<le> max_connections (opts E)"
    using assms(6) unat_u32_less [of "max_connections (opts E)"]
    by (simp_all add: word_less_nat_alt inc_le)
  show ?thesis
    using assms s q room
    by (simp add: schedule_simps acquire_permit_from_parent_def acquire_permit_def pop_idle_def
        deadline_as_timeout_def)
qed

theorem acquire_opens_witness:
  "\<exists>p'. run_schedule (ref_env small_options) (open_schedule 0 9 3)
      (small_pool, [AcquireT ToUser 0 AStart])
      = Some (p', [CheckedOut \<lparr>raw = 3, created_at = 9\<rparr> False]) \<and> pool_size p' = 1"
proof -
  have "\<not> is_closed small_pool" "parent small_pool = None"
    "0 < permits (sem (ref_env small_options)) (semaphore small_pool)"
    "fst (idle_conns small_pool) = []"
    "pool_size small_pool < max_connections (opts (ref_env small_options))"
    "\<not> after_connect (opts (ref_env small_options))"
    by (simp_all add: ref_simps)
  from acquire_opens [OF ref_pool.pool_containers_axioms this, of 9 3]
  show ?thesis by (auto simp: small_pool_def)
qed

text \<open>Dropping a healthy connection returns it: it becomes the newest idle connection,
  its permit goes back to the semaphore, and size stays as it is.\<close>

theorem return_releases:
  assumes "pool_containers E contents capacity" and "\<not> is_closed p"
    and "length (contents (idle_conns p)) < capacity (idle_conns p)"
    and "\<not> is_beyond_max_lifetime now l (opts E)" and "\<not> after_release (opts E)"
  shows "\<exists>p'. run_schedule E (return_schedule 0 now) (p, [CheckedOut l False]) = Some (p', [Done])
    \<and> contents (idle_conns p') = contents (idle_conns p) @ [\<lparr>idle_live = l, idle_since = now\<rparr>]
    \<and> pool_size p' = pool_size p \<and> num_idle p' = num_idle p + 1
    \<and> permits (sem E) (semaphore p') = Suc (permits (sem E) (semaphore p))"
proof -
  obtain q where q: "sq_push (queue E) \<lparr>idle_live = l, idle_since = now\<rparr> (idle_conns p) = Some q"
      "contents q = contents (idle_conns p) @ [\<lparr>idle_live = l, idle_since = now\<rparr>]"
    using array_queue.push_room [of "queue E" contents capacity] assms(1,3)
    by (fastforce simp: pool_containers_def)
  have "permits (sem E) (sem_release (sem E) 1 s) = Suc (permits (sem E) s)" for s
    using runtime_semaphore.permits_release [of "sem E" 1 s] assms(1)
    by (simp add: pool_containers_def)
  then show ?thesis
    using assms q by (simp add: schedule_simps user_step_def into_idle_def)
qed

theorem return_releases_witness:
  "\<exists>p'. run_schedule (ref_env small_options) (return_schedule 0 9)
      (small_pool\<lparr>pool_size := 1, semaphore := 1\<rparr>, [CheckedOut \<lparr>raw = 3, created_at = 0\<rparr> False])
      = Some (p', [Done]) \<and> num_idle p' = 1"
proof -
  let ?p = "small_pool\<lparr>pool_size := 1, semaphore := 1\<rparr>"
  have "\<not> is_closed ?p" "length (fst (idle_conns ?p)) < snd (idle_conns ?p)"
    "\<not> is_beyond_max_lifetime 9 \<lparr>raw = 3, created_at = 0\<rparr> (opts (ref_env small_options))"
    "\<not> after_release (opts (ref_env small_options))"
    by (simp_all add: ref_simps is_beyond_max_lifetime_def)
  from return_releases [OF ref_pool.pool_containers_axioms this]
  show ?thesis by (auto simp: small_pool_def)
qed

definition refused_schedule :: "nat list \<Rightarrow> (nat \<times> nat \<times> answer) list" where
  "refused_schedule clocks =
     concat (map (\<lambda>now. [(0, now, Go), (0, now, ConnErr (Io ConnectionRefused) False), (0, now, Go)])
       clocks)"

lemma refused_schedule_Cons:
  "refused_schedule (now # clocks) =
     (0, now, Go) # (0, now, ConnErr (Io ConnectionRefused) False) # (0, now, Go)
       # refused_schedule clocks"
  by (simp add: refused_schedule_def)

lemma min_scaled: "1 \<le> x \<Longrightarrow> min (min (b :: nat) m * x) m = min (b * x) m"
proof (cases "b \<le> m")
  case False
  moreover assume "1 \<le> x"
  then have "m * 1 \<le> m * x" "b * 1 \<le> b * x" by (auto intro!: mult_le_mono)
  then have "m \<le> m * x" "m \<le> b * x" using False by linarith+
  ultimately show ?thesis by (simp add: min_absorb2)
qed simp

lemma backoff_rounds:
  assumes "\<forall>now \<in> set clocks. now \<le> d" and "b \<le> m"
  shows "run_schedule E (refused_schedule clocks) (p, [ConnectT c d (CLoop b m) k]) =
    Some (p, [ConnectT c d (CLoop (min (b * 2 ^ length clocks) m) m) k])"
  using assms
proof (induction clocks arbitrary: b)
  case Nil
  then show ?case by (simp add: refused_schedule_def)
next
  case (Cons now clocks)
  have "min (min (b * 2) m * 2 ^ length clocks) m = min (b * 2 ^ length (now # clocks)) m"
    using min_scaled [of "2 ^ length clocks" "b * 2" m] by (simp add: mult.assoc)
  with Cons(1) [of "min (b * 2) m"] Cons(2) show ?case
    by (simp add: refused_schedule_Cons deadline_as_timeout_def del: power_Suc)
qed

text \<open>A connection attempt refused \<open>k\<close> clocks in a row sleeps ten milliseconds, then
  doubles the pause after each refusal, never beyond a fifth of the time that was left when
  it began, keeping its right to connect for the next attempt.\<close>

theorem connect_backoff:
  assumes "\<not> is_closed p" and "start \<le> d" and "\<forall>now \<in> set clocks. now \<le> d"
    and "10000000 \<le> (d - start) div 5"
  shows "run_schedule E ((0, start, Go) # refused_schedule clocks) (p, [ConnectT c d CStart k]) =
    Some (p, [ConnectT c d
      (CLoop (min (10000000 * 2 ^ length clocks) ((d - start) div 5)) ((d - start) div 5)) k])"
  using backoff_rounds [OF assms(3,4)] assms by (simp add: deadline_as_timeout_def)

theorem connect_backoff_witness:
  "run_schedule (ref_env small_options) ((0, 0, Go) # refused_schedule [5, 30000000])
     (small_pool, [ConnectT (ByAcquire ToUser) 1000000000 CStart Done]) =
   Some (small_pool, [ConnectT (ByAcquire ToUser) 1000000000 (CLoop 40000000 200000000) Done])"
  using connect_backoff [of small_pool 0 1000000000 "[5, 30000000]" "ref_env small_options"
      "ByAcquire ToUser" Done]
  by (simp add: small_pool_def)

subsection \<open>Where the pool falls short\<close>

definition half_idle_pool :: "(nat, idle_conn list \<times> nat) pool_inner" where
  "half_idle_pool = small_pool\<lparr>semaphore := 1, pool_size := 2, num_idle := 1,
     idle_conns := ([\<lparr>idle_live = \<lparr>raw = 8, created_at = 5\<rparr>, idle_since = 9\<rparr>], 2)\<rparr>"

lemma half_idle_reachable:
  "pool_reachable (ref_env small_options) None
     (half_idle_pool, [Done, CheckedOut \<lparr>raw = 7, created_at = 5\<rparr> False])"
proof -
  have "run_schedule (ref_env small_options) (return_schedule 0 9)
      (small_pool\<lparr>semaphore := 0, pool_size := 2\<rparr>,
       [CheckedOut \<lparr>raw = 8, created_at = 5\<rparr> False, CheckedOut \<lparr>raw = 7, created_at = 5\<rparr> False]) =
      Some (half_idle_pool, [Done, CheckedOut \<lparr>raw = 7, created_at = 5\<rparr> False])"
    by (simp add: schedule_simps ref_simps user_step_def into_idle_def is_beyond_max_lifetime_def
        half_idle_pool_def)
  from reachable_schedule [OF this two_out_reachable] show ?thesis .
qed

text \<open>C37. \<^verbatim>\<open>close\<close> can return while a connection is still checked out.  In a reachable state
  of a pool of two with one connection idle and one checked out, \<^verbatim>\<open>close\<close> alone runs to its
  end: closing the idle connection releases a permit that was never taken, and that permit
  stands in for the one the checked-out connection holds.  The idle counter still says one
  although the queue is empty.\<close>

theorem close_returns_early:
  "pool_reachable (ref_env small_options) None
     (half_idle_pool, [CloseT 0 ClStart, Done, CheckedOut \<lparr>raw = 7, created_at = 5\<rparr> False])
   \<and> (\<exists>p'. run_schedule (ref_env small_options) 
        (map (\<lambda>a. (0, 9, a)) [Go, Go, Go, Go, Go, Go, Go, Go, Go, Go, Go, Go, Go, Go, Go, Go])
        (half_idle_pool, [CloseT 0 ClStart, Done, CheckedOut \<lparr>raw = 7, created_at = 5\<rparr> False]) =
        Some (p', [Done, Done, CheckedOut \<lparr>raw = 7, created_at = 5\<rparr> False])
      \<and> pool_size p' = 1 \<and> fst (idle_conns p') = [] \<and> num_idle p' = 1)"
proof
  show "pool_reachable (ref_env small_options) None
     (half_idle_pool, [CloseT 0 ClStart, Done, CheckedOut \<lparr>raw = 7, created_at = 5\<rparr> False])"
    by (rule pool_reachable.step [OF half_idle_reachable start_close])
qed (simp add: half_idle_pool_def ref_simps mark_closed_def)

text \<open>\<^verbatim>\<open>num_idle\<close> can wrap around: \<^verbatim>\<open>release\<close> frees the permit before it counts the
  connection it queued, so an \<^verbatim>\<open>acquire\<close> that takes that connection in between subtracts one
  from a counter that is still zero.\<close>

theorem num_idle_wraps:
  "\<exists>p ts. pool_reachable (ref_env small_options) None (p, ts) \<and> num_idle p = - 1"
proof -
  let ?out = "[CheckedOut \<lparr>raw = 8, created_at = 5\<rparr> False, CheckedOut \<lparr>raw = 7, created_at = 5\<rparr> False]"
  have "\<exists>p ts. run_schedule (ref_env small_options)
      (map (\<lambda>a. (1, 9, a)) [UserDrop, Go, Go, PingOk, Go, Go] @ map (\<lambda>a. (0, 9, a)) [Go, Go, Go, Go, Go])
      (small_pool\<lparr>semaphore := 0, pool_size := 2\<rparr>, AcquireT ToUser 0 AStart # ?out) = Some (p, ts)
      \<and> num_idle p = - 1"
    by (simp add: ref_simps user_step_def into_idle_def is_beyond_max_lifetime_def
        acquire_permit_from_parent_def acquire_permit_def pop_idle_def pop_idle_count_def)
  then show ?thesis
    using reachable_schedule [OF _ pool_reachable.step [OF two_out_reachable start_acquire]]
    by blast
qed

text \<open>A child pool can hand its parent permits it never took.  The child takes one of its parent's two
  permits to open a connection, which comes back and is idle; closing the child closes that
  connection under a guard that was made without a permit, so the child ends with two permits, and
  dropping it leaves three in the semaphore of the parent, whose limit is two.\<close>

theorem child_close_surplus:
  "\<exists>p'. run_schedule (ref_env small_options)
      (map (\<lambda>a. (0, 5, a)) [Go, Go, Go, Go, Go, Go, Go, Go, Go, ConnOk 7, Go]
        @ return_schedule 0 9 @ map (\<lambda>a. (1, 9, a)) [Go, Go, Go, Go, Go, Go, Go, Go])
      (child_pool 2, [AcquireT ToUser 0 AStart, CloseT 0 ClStart]) = Some (p', [Done, Done])
    \<and> parent_permits (ref_env small_options) (pool_drop (ref_env small_options) p') = 3"
  by (simp add: child_pool_def schedule_simps ref_simps acquire_permit_from_parent_def acquire_permit_def
      pop_idle_def deadline_as_timeout_def secs_def user_step_def into_idle_def
      is_beyond_max_lifetime_def mark_closed_def parent_permits_def pool_drop_def)

end
