(* ===== verification/Pg_Frontend.thy ===== *)
theory Pg_Frontend
  imports Bytes_Buf
begin

section \<open>Frontend messages of the PostgreSQL protocol\<close>

text \<open>
  \<^verbatim>\<open>sqlx-postgres/src/io\<close> (statement and portal names, length-prefixed writes) and the
  frontend half of \<^verbatim>\<open>sqlx-postgres/src/message\<close>: one \<^verbatim>\<open>encode_body\<close> and one
  \<^verbatim>\<open>body_size_hint\<close> per message, and the framing of \<^verbatim>\<open>EncodeMessage\<close>.  A buffer that
  is appended to is passed and returned; an error of a body encoder drops what it had
  appended, because \<^verbatim>\<open>put_length_prefixed\<close> truncates the buffer.  The crates \<^verbatim>\<open>itoa\<close> and
  \<^verbatim>\<open>md-5\<close> and the allocator's answer to \<^verbatim>\<open>try_reserve\<close> are parameters.
\<close>

record frontend_api =
  itoa :: "u32 \<Rightarrow> bytes"
  md5_hex :: "bytes \<Rightarrow> bytes"
  try_reserve :: "nat \<Rightarrow> bool"

locale frontend_crates =
  fixes A :: frontend_api
  assumes itoa_decimal: "itoa A n = ascii (dec_string (unat n))"
    and md5_hex_digits: "length (md5_hex A b) = 32 \<and> 0 \<notin> set (md5_hex A b)"

subsection \<open>Statement and portal names (\<^verbatim>\<open>io/mod.rs\<close>)\<close>

text \<open>\<open>None\<close> is the unnamed statement; a named one holds a \<^verbatim>\<open>NonZeroU32\<close>.\<close>

type_synonym id_inner = "u32 option"

definition valid_id :: "id_inner \<Rightarrow> bool" where
  "valid_id i \<longleftrightarrow> i \<noteq> Some 0"

definition UNNAMED :: id_inner where "UNNAMED = None"

definition NAMED_START :: id_inner where "NAMED_START = Some 1"

definition id_next :: "id_inner \<Rightarrow> id_inner" where
  "id_next i = map_option (\<lambda>n. if unat n + 1 < 2 ^ 32 then n + 1 else 1) i"

fun ilog10 :: "nat \<Rightarrow> nat" where
  "ilog10 n = (if n < 10 then 0 else Suc (ilog10 (n div 10)))"

declare ilog10.simps [simp del]

definition name_len :: "string \<Rightarrow> id_inner \<Rightarrow> nat" where
  "name_len prefix i =
     (case i of Some n \<Rightarrow> length prefix + ilog10 (unat n) + 1 | None \<Rightarrow> 0) + 1"

definition put_name_with_nul :: "frontend_api \<Rightarrow> string \<Rightarrow> bytes \<Rightarrow> id_inner \<Rightarrow> bytes" where
  "put_name_with_nul A prefix buf i =
     (case i of Some n \<Rightarrow> buf @ ascii prefix @ itoa A n | None \<Rightarrow> buf) @ [0]"

definition id_display :: "string \<Rightarrow> id_inner \<Rightarrow> bytes option" where
  "id_display prefix i = map_option (\<lambda>n. ascii (prefix @ dec_string (unat n))) i"

abbreviation "stmt_prefix \<equiv> ''sqlx_s_''"
abbreviation "portal_prefix \<equiv> ''sqlx_p_''"

definition put_statement_name :: "frontend_api \<Rightarrow> bytes \<Rightarrow> id_inner \<Rightarrow> bytes" where
  "put_statement_name A buf i = put_name_with_nul A stmt_prefix buf i"

definition put_portal_name :: "frontend_api \<Rightarrow> bytes \<Rightarrow> id_inner \<Rightarrow> bytes" where
  "put_portal_name A buf i = put_name_with_nul A portal_prefix buf i"

subsection \<open>Length-prefixed writes (\<^verbatim>\<open>io/buf_mut.rs\<close>)\<close>

definition put_length_prefixed ::
  "bytes \<Rightarrow> (bytes \<Rightarrow> bytes result) \<Rightarrow> bytes \<times> unit result"
where
  "put_length_prefixed buf write_contents =
     (let offset = length buf in
      case write_contents (buf @ [0, 0, 0, 0]) of
        Ok b \<Rightarrow>
          (let size = length b - offset in
           if size < 2 ^ 31
           then (take offset b @ nat_be 4 size @ drop (offset + 4) b, Ok ())
           else (take offset b, Err (Protocol ''message size out of range for protocol'')))
      | Err e \<Rightarrow> (buf, Err e)
      | Panic \<Rightarrow> (buf, Panic))"

subsection \<open>The messages\<close>

datatype pg_value_format = Text | Binary

primrec format_code :: "pg_value_format \<Rightarrow> u16" where
  "format_code Text = 0"
| "format_code Binary = 1"

datatype FrontendMessageFormat =
  FBind | FClose | FCopyData | FCopyDone | FCopyFail | FDescribe | FExecute | FFlush | FParse
  | FPasswordPolymorphic | FQuery | FSync | FTerminate

primrec frontend_code :: "FrontendMessageFormat \<Rightarrow> char" where
  "frontend_code FBind = CHR ''B''"
| "frontend_code FClose = CHR ''C''"
| "frontend_code FCopyData = CHR ''d''"
| "frontend_code FCopyDone = CHR ''c''"
| "frontend_code FCopyFail = CHR ''f''"
| "frontend_code FDescribe = CHR ''D''"
| "frontend_code FExecute = CHR ''E''"
| "frontend_code FFlush = CHR ''H''"
| "frontend_code FParse = CHR ''P''"
| "frontend_code FPasswordPolymorphic = CHR ''p''"
| "frontend_code FQuery = CHR ''Q''"
| "frontend_code FSync = CHR ''S''"
| "frontend_code FTerminate = CHR ''X''"

record bind_msg =
  portal :: id_inner
  statement :: id_inner
  formats :: "pg_value_format list"
  num_params :: u16
  params :: bytes
  result_formats :: "pg_value_format list"

datatype password = Cleartext bytes | Md5 bytes bytes bytes

datatype close_msg = CloseStatement id_inner | ClosePortal id_inner

datatype describe_msg = DescribeStatement id_inner | DescribePortal id_inner

datatype frontend_message =
    Bind bind_msg
  | Close close_msg
  | CopyData bytes
  | CopyDone
  | CopyFail bytes
  | Describe describe_msg
  | Execute id_inner u32
  | Flush
  | Parse id_inner bytes "u32 list"
  | Password password
  | Query bytes
  | SaslInitialResponse bytes bool
  | SaslResponse bytes
  | Sync
  | Terminate

primrec message_format :: "frontend_message \<Rightarrow> FrontendMessageFormat" where
  "message_format (Bind b) = FBind"
| "message_format (Close c) = FClose"
| "message_format (CopyData d) = FCopyData"
| "message_format CopyDone = FCopyDone"
| "message_format (CopyFail m) = FCopyFail"
| "message_format (Describe d) = FDescribe"
| "message_format (Execute i l) = FExecute"
| "message_format Flush = FFlush"
| "message_format (Parse i q ts) = FParse"
| "message_format (Password p) = FPasswordPolymorphic"
| "message_format (Query q) = FQuery"
| "message_format (SaslInitialResponse r b) = FPasswordPolymorphic"
| "message_format (SaslResponse r) = FPasswordPolymorphic"
| "message_format Sync = FSync"
| "message_format Terminate = FTerminate"

definition bind_encode_body :: "frontend_api \<Rightarrow> bind_msg \<Rightarrow> bytes \<Rightarrow> bytes result" where
  "bind_encode_body A m buf =
     (let buf = put_portal_name A buf (portal m);
          buf = put_statement_name A buf (statement m) in
      if 2 ^ 16 \<le> length (formats m)
      then Err (Protocol ''too many parameter format codes'')
      else
        let buf = buf @ nat_be 2 (length (formats m));
            buf = buf @ concat (map (to_be_bytes \<circ> format_code) (formats m));
            buf = buf @ to_be_bytes (num_params m);
            buf = buf @ params m in
        if 2 ^ 16 \<le> length (formats m)
        then Err (Protocol ''too many result format codes'')
        else
          let buf = buf @ nat_be 2 (length (formats m)) in
          Ok (buf @ concat (map (to_be_bytes \<circ> format_code) (result_formats m))))"

definition parse_encode_body ::
  "frontend_api \<Rightarrow> id_inner \<Rightarrow> bytes \<Rightarrow> u32 list \<Rightarrow> bytes \<Rightarrow> bytes result"
where
  "parse_encode_body A stmt query param_types buf =
     (let buf = put_statement_name A buf stmt;
          buf = put_str_nul buf query in
      if 2 ^ 16 \<le> length param_types
      then Err (Protocol ''param_types.len() too large for binary protocol'')
      else Ok (buf @ nat_be 2 (length param_types) @ concat (map to_be_bytes param_types)))"

primrec password_encode_body :: "frontend_api \<Rightarrow> password \<Rightarrow> bytes \<Rightarrow> bytes result" where
  "password_encode_body A (Cleartext pw) buf = Ok (put_str_nul buf pw)"
| "password_encode_body A (Md5 pw user salt) buf =
     (let output = md5_hex A (pw @ user);
          output = ascii ''md5'' @ md5_hex A (output @ salt) in
      Ok (put_str_nul buf output))"

definition selected_mechanism :: "bool \<Rightarrow> bytes" where
  "selected_mechanism with_plus = (if with_plus then ascii ''SCRAM-SHA-256-PLUS'' else ascii ''SCRAM-SHA-256'')"

definition sasl_initial_encode_body :: "bytes \<Rightarrow> bool \<Rightarrow> bytes \<Rightarrow> bytes result" where
  "sasl_initial_encode_body response with_plus buf =
     (let buf = put_str_nul buf (selected_mechanism with_plus) in
      if 2 ^ 31 \<le> length response
      then Err (Protocol ''SASL Initial Response length too long for protcol'')
      else Ok (buf @ nat_be 4 (length response) @ response))"

primrec close_encode_body :: "frontend_api \<Rightarrow> close_msg \<Rightarrow> bytes \<Rightarrow> bytes result" where
  "close_encode_body A (CloseStatement i) buf = Ok (put_statement_name A (buf @ ascii ''S'') i)"
| "close_encode_body A (ClosePortal i) buf = Ok (put_portal_name A (buf @ ascii ''P'') i)"

primrec describe_encode_body :: "frontend_api \<Rightarrow> describe_msg \<Rightarrow> bytes \<Rightarrow> bytes result" where
  "describe_encode_body A (DescribeStatement i) buf = Ok (put_statement_name A (buf @ ascii ''S'') i)"
| "describe_encode_body A (DescribePortal i) buf = Ok (put_portal_name A (buf @ ascii ''P'') i)"

definition copy_data_encode_body :: "bytes \<Rightarrow> bytes \<Rightarrow> bytes result" where
  "copy_data_encode_body d buf = Ok (buf @ d)"

definition copy_fail_encode_body :: "bytes \<Rightarrow> bytes \<Rightarrow> bytes result" where
  "copy_fail_encode_body msg buf = Ok (put_str_nul buf msg)"

definition copy_done_encode_body :: "bytes \<Rightarrow> bytes result" where
  "copy_done_encode_body buf = Ok buf"

definition execute_encode_body :: "frontend_api \<Rightarrow> id_inner \<Rightarrow> u32 \<Rightarrow> bytes \<Rightarrow> bytes result" where
  "execute_encode_body A i limit buf = Ok (put_portal_name A buf i @ to_be_bytes limit)"

definition flush_encode_body :: "bytes \<Rightarrow> bytes result" where
  "flush_encode_body buf = Ok buf"

definition query_encode_body :: "bytes \<Rightarrow> bytes \<Rightarrow> bytes result" where
  "query_encode_body q buf = Ok (put_str_nul buf q)"

definition sasl_response_encode_body :: "bytes \<Rightarrow> bytes \<Rightarrow> bytes result" where
  "sasl_response_encode_body r buf = Ok (buf @ r)"

definition sync_encode_body :: "bytes \<Rightarrow> bytes result" where
  "sync_encode_body buf = Ok buf"

definition terminate_encode_body :: "bytes \<Rightarrow> bytes result" where
  "terminate_encode_body buf = Ok buf"

lemmas plain_encode_defs =
  copy_data_encode_body_def copy_fail_encode_body_def copy_done_encode_body_def
  execute_encode_body_def flush_encode_body_def query_encode_body_def
  sasl_response_encode_body_def sync_encode_body_def terminate_encode_body_def

declare plain_encode_defs [simp]

primrec encode_body :: "frontend_api \<Rightarrow> frontend_message \<Rightarrow> bytes \<Rightarrow> bytes result" where
  "encode_body A (Bind m) buf = bind_encode_body A m buf"
| "encode_body A (Close c) buf = close_encode_body A c buf"
| "encode_body A (CopyData d) buf = copy_data_encode_body d buf"
| "encode_body A CopyDone buf = copy_done_encode_body buf"
| "encode_body A (CopyFail msg) buf = copy_fail_encode_body msg buf"
| "encode_body A (Describe d) buf = describe_encode_body A d buf"
| "encode_body A (Execute i limit) buf = execute_encode_body A i limit buf"
| "encode_body A Flush buf = flush_encode_body buf"
| "encode_body A (Parse i q ts) buf = parse_encode_body A i q ts buf"
| "encode_body A (Password p) buf = password_encode_body A p buf"
| "encode_body A (Query q) buf = query_encode_body q buf"
| "encode_body A (SaslInitialResponse r with_plus) buf = sasl_initial_encode_body r with_plus buf"
| "encode_body A (SaslResponse r) buf = sasl_response_encode_body r buf"
| "encode_body A Sync buf = sync_encode_body buf"
| "encode_body A Terminate buf = terminate_encode_body buf"

function next_power_of_two_from :: "nat \<Rightarrow> nat \<Rightarrow> nat" where
  "next_power_of_two_from p n = (if n \<le> p \<or> p = 0 then p else next_power_of_two_from (2 * p) n)"
  by auto
termination by (relation "measure (\<lambda>(p, n). n - p)") auto

declare next_power_of_two_from.simps [simp del]

definition bind_size_hint :: "bind_msg \<Rightarrow> nat" where
  "bind_size_hint m =
     name_len portal_prefix (portal m) + name_len stmt_prefix (statement m)
     + 2 + length (formats m) + 2 + length (params m) + 2 + length (result_formats m)"

primrec close_size_hint :: "close_msg \<Rightarrow> nat" where
  "close_size_hint (CloseStatement i) = 1 + name_len stmt_prefix i"
| "close_size_hint (ClosePortal i) = 1 + name_len portal_prefix i"

primrec describe_size_hint :: "describe_msg \<Rightarrow> nat" where
  "describe_size_hint (DescribeStatement i) = 1 + name_len stmt_prefix i"
| "describe_size_hint (DescribePortal i) = 1 + name_len portal_prefix i"

definition execute_size_hint :: "id_inner \<Rightarrow> nat" where
  "execute_size_hint i = name_len portal_prefix i + 2"

definition parse_size_hint :: "id_inner \<Rightarrow> bytes \<Rightarrow> u32 list \<Rightarrow> nat" where
  "parse_size_hint i q ts = name_len stmt_prefix i + length q + 1 + 2 + 4 * length ts"

primrec password_size_hint :: "password \<Rightarrow> nat" where
  "password_size_hint (Cleartext pw) = next_power_of_two_from 1 (length pw + 1)"
| "password_size_hint (Md5 pw user salt) = 36"

definition query_size_hint :: "bytes \<Rightarrow> nat" where
  "query_size_hint q = length q + 1"

definition sasl_initial_size_hint :: "bytes \<Rightarrow> bool \<Rightarrow> nat" where
  "sasl_initial_size_hint r with_plus = length (selected_mechanism with_plus) + 1 + 4 + length r"

lemmas size_hint_defs =
  bind_size_hint_def execute_size_hint_def parse_size_hint_def query_size_hint_def
  sasl_initial_size_hint_def

declare size_hint_defs [simp]

primrec body_size_hint :: "frontend_message \<Rightarrow> nat" where
  "body_size_hint (Bind m) = bind_size_hint m"
| "body_size_hint (Close c) = close_size_hint c"
| "body_size_hint (CopyData d) = length d"
| "body_size_hint CopyDone = 0"
| "body_size_hint (CopyFail msg) = length msg"
| "body_size_hint (Describe d) = describe_size_hint d"
| "body_size_hint (Execute i limit) = execute_size_hint i"
| "body_size_hint Flush = 0"
| "body_size_hint (Parse i q ts) = parse_size_hint i q ts"
| "body_size_hint (Password p) = password_size_hint p"
| "body_size_hint (Query q) = query_size_hint q"
| "body_size_hint (SaslInitialResponse r with_plus) = sasl_initial_size_hint r with_plus"
| "body_size_hint (SaslResponse r) = length r"
| "body_size_hint Sync = 0"
| "body_size_hint Terminate = 0"

definition format_byte :: "frontend_message \<Rightarrow> u8" where
  "format_byte m = of_nat (of_char (frontend_code (message_format m)))"

definition encode_msg :: "frontend_api \<Rightarrow> frontend_message \<Rightarrow> bytes \<Rightarrow> bytes \<times> unit result" where
  "encode_msg A m buf =
     (if \<not> try_reserve A (body_size_hint m + 5)
      then (buf, Err (Protocol ''Postgres protocol: error allocating''))
      else put_length_prefixed (buf @ [format_byte m]) (encode_body A m))"

subsection \<open>Messages without a format byte\<close>

definition ssl_request_bytes :: bytes where
  "ssl_request_bytes = [0, 0, 0, 8, 4, 0xd2, 0x16, 0x2f]"

record startup_msg =
  username :: "bytes option"
  database :: "bytes option"
  startup_params :: "(bytes \<times> bytes) list"

definition encode_startup_param :: "bytes \<Rightarrow> bytes \<Rightarrow> bytes \<Rightarrow> bytes" where
  "encode_startup_param buf name val = put_str_nul (put_str_nul buf name) val"

definition startup_encode :: "startup_msg \<Rightarrow> bytes \<Rightarrow> bytes \<times> unit result" where
  "startup_encode m buf =
     put_length_prefixed buf (\<lambda>buf.
       let buf = buf @ to_be_bytes (196608 :: u32);
           buf = (case username m of Some u \<Rightarrow> encode_startup_param buf (ascii ''user'') u | None \<Rightarrow> buf);
           buf = (case database m of Some d \<Rightarrow> encode_startup_param buf (ascii ''database'') d | None \<Rightarrow> buf);
           buf = foldl (\<lambda>b (n, v). encode_startup_param b n v) buf (startup_params m) in
       Ok (buf @ [0]))"

subsection \<open>Framing\<close>

lemma put_name_with_nul_append:
  "put_name_with_nul A prefix (a @ b) i = a @ put_name_with_nul A prefix b i"
  by (simp add: put_name_with_nul_def split: option.splits)

lemma put_names_append [simp]:
  "put_statement_name A (a @ b) i = a @ put_statement_name A b i"
  "put_portal_name A (a @ b) i = a @ put_portal_name A b i"
  by (simp_all add: put_statement_name_def put_portal_name_def put_name_with_nul_append)

lemma put_str_nul_append [simp]: "put_str_nul (a @ b) s = a @ put_str_nul b s"
  by (simp add: put_str_nul_def)

lemma password_encode_body_append:
  "password_encode_body A p (a @ b) = rmap (\<lambda>x. a @ x) (password_encode_body A p b)"
  by (cases p) (simp_all add: Let_def)

text \<open>Body encoders only append.\<close>

lemma target_encode_body_append:
  "close_encode_body A c (a @ b) = rmap (\<lambda>x. a @ x) (close_encode_body A c b)"
  "describe_encode_body A d (a @ b) = rmap (\<lambda>x. a @ x) (describe_encode_body A d b)"
  by (cases c; simp) (cases d; simp)

lemma encode_body_append:
  "encode_body A m (a @ b) = rmap (\<lambda>x. a @ x) (encode_body A m b)"
  by (cases m)
    (simp_all add: bind_encode_body_def parse_encode_body_def sasl_initial_encode_body_def
      password_encode_body_append target_encode_body_append Let_def)

lemma encode_body_prefix: "encode_body A m buf = rmap (\<lambda>x. buf @ x) (encode_body A m [])"
  using encode_body_append [of A m buf "[]"] by simp

lemma put_length_prefixed_Ok:
  assumes "\<And>b. f b = Ok (b @ body)" and "length body + 4 < 2 ^ 31"
  shows "put_length_prefixed buf f = (buf @ nat_be 4 (length body + 4) @ body, Ok ())"
  using assms by (simp add: put_length_prefixed_def Let_def add.commute [of 4])

definition pg_frame :: "u8 \<Rightarrow> bytes \<Rightarrow> bytes" where
  "pg_frame code body = code # nat_be 4 (length body + 4) @ body"

lemma encode_body_no_panic: "encode_body A m buf \<noteq> Panic"
proof (cases m)
  case (Password p)
  then show ?thesis by (cases p) (simp_all add: Let_def)
next
  case (Close c)
  then show ?thesis by (cases c) simp_all
next
  case (Describe d)
  then show ?thesis by (cases d) simp_all
qed (simp_all add: bind_encode_body_def parse_encode_body_def sasl_initial_encode_body_def Let_def)

lemma length_nat_be_sum: "length (concat (map (\<lambda>x. to_be_bytes (f x :: u16)) xs)) = 2 * length xs"
  "length (concat (map (\<lambda>x. to_be_bytes (g x :: u32)) ys)) = 4 * length ys"
  by (induction xs; simp) (induction ys; simp)

text \<open>Encoding a frontend message appends exactly one protocol frame to the write
  buffer: the format byte, the big-endian length of body and prefix, and the body; whatever
  was in the buffer before stays.  When the body cannot be encoded or is too large, the
  buffer keeps its old content, with at most the format byte after it.\<close>

theorem encode_msg_frames:
  assumes "try_reserve A (body_size_hint m + 5)"
  shows "encode_msg A m buf =
    (case encode_body A m [] of
       Ok body \<Rightarrow>
         if length body + 4 < 2 ^ 31 then (buf @ pg_frame (format_byte m) body, Ok ())
         else (buf @ [format_byte m], Err (Protocol ''message size out of range for protocol''))
     | Err e \<Rightarrow> (buf @ [format_byte m], Err e)
     | Panic \<Rightarrow> (buf @ [format_byte m], Panic))"
  using assms
  by (cases "encode_body A m []")
    (simp_all add: encode_msg_def put_length_prefixed_def pg_frame_def Let_def add.commute [of 4]
      encode_body_prefix [of A m "buf @ b" for b] encode_body_prefix [of A m "buf @ b # c" for b c])

definition demo_frontend :: frontend_api where
  "demo_frontend = \<lparr>itoa = (\<lambda>n. ascii (dec_string (unat n))), md5_hex = (\<lambda>b. replicate 32 48),
     try_reserve = (\<lambda>n. n < 2 ^ 47)\<rparr>"

interpretation demo: frontend_crates demo_frontend
  by unfold_locales (simp_all add: demo_frontend_def)

theorem encode_msg_frames_witness:
  "encode_msg demo_frontend (Query (ascii ''SELECT 1'')) [7] =
     ([7] @ pg_frame 0x51 (ascii ''SELECT 1'' @ [0]), Ok ())"
  using encode_msg_frames [of demo_frontend "Query (ascii ''SELECT 1'')" "[7]"]
  by (simp add: demo_frontend_def put_str_nul_def format_byte_def)

subsection \<open>Names and size hints\<close>

lemma length_dec_string: "length (dec_string n) = Suc (ilog10 n)"
  by (induction n rule: dec_string.induct) (simp add: dec_string.simps ilog10.simps)

lemma dec_string_no_nul: "0 \<notin> set (ascii (dec_string n))"
proof (induction n rule: dec_string.induct)
  case (1 n)
  have "(of_nat (of_char (digit_char d)) :: u8) \<noteq> 0" if "d < 10" for d
    using that by (simp add: digit_char_def word_unat_eq_iff unat_of_nat del: of_nat_add)
  with 1 show ?case
    by (subst dec_string.simps) (auto simp: ascii_def)
qed

context frontend_crates
begin

lemma length_put_name: "length (put_name_with_nul A prefix [] i) = name_len prefix i"
  by (simp add: put_name_with_nul_def name_len_def itoa_decimal length_dec_string split: option.splits)

lemma length_put_names [simp]:
  "length (put_statement_name A buf i) = length buf + name_len stmt_prefix i"
  "length (put_portal_name A buf i) = length buf + name_len portal_prefix i"
  using length_put_name put_name_with_nul_append [of A _ buf "[]" i]
  by (simp_all add: put_statement_name_def put_portal_name_def)

end

definition id_name :: "string \<Rightarrow> id_inner \<Rightarrow> bytes" where
  "id_name prefix i = (case id_display prefix i of Some d \<Rightarrow> d | None \<Rightarrow> [])"

context frontend_crates
begin

lemma put_name_id_name: "put_name_with_nul A prefix buf i = buf @ id_name prefix i @ [0]"
  by (simp add: put_name_with_nul_def id_name_def id_display_def itoa_decimal split: option.splits)

end

lemma id_name_no_nul: "0 \<notin> set (ascii prefix) \<Longrightarrow> 0 \<notin> set (id_name prefix i)"
  by (auto simp: id_name_def id_display_def dec_string_no_nul split: option.splits)

text \<open>The name written into a message is the one \<^verbatim>\<open>display\<close> shows, NUL-terminated, and
  \<^verbatim>\<open>name_len\<close> is exactly its length.\<close>

theorem names_match_display:
  assumes "frontend_crates A"
  shows "put_name_with_nul A prefix buf i = buf @ id_name prefix i @ [0]
    \<and> length (put_name_with_nul A prefix [] i) = name_len prefix i"
  using frontend_crates.put_name_id_name [OF assms] frontend_crates.length_put_name [OF assms]
  by simp

theorem names_match_display_witness:
  "put_name_with_nul demo_frontend stmt_prefix [] (Some 12) = ascii ''sqlx_s_12'' @ [0]
    \<and> name_len stmt_prefix (Some 12) = 10"
proof -
  have "id_name stmt_prefix (Some 12) = ascii ''sqlx_s_12''"
    by (simp add: id_name_def id_display_def dec_string.simps digit_char_def ascii_def)
  with names_match_display [OF demo.frontend_crates_axioms, of stmt_prefix "[]" "Some 12"]
  show ?thesis by (simp add: name_len_def ilog10.simps)
qed

lemma id_next_iterate:
  "k < 2 ^ 32 - 1 \<Longrightarrow> (id_next ^^ k) NAMED_START = Some (of_nat (Suc k))"
proof (induction k)
  case 0
  show ?case by (simp add: NAMED_START_def)
next
  case (Suc k)
  then have "unat (of_nat (Suc k) :: u32) = Suc k" by (simp add: unat_of_nat del: of_nat_Suc)
  with Suc show ?case by (simp add: id_next_def del: of_nat_Suc) (simp add: add.commute)
qed

text \<open>Statement identifiers handed out one after the other are all named and pairwise
  different until all \<open>2\<^sup>3\<^sup>2 - 1\<close> of them have been used.\<close>

theorem statement_ids_distinct:
  assumes "j < 2 ^ 32 - 1" and "k < 2 ^ 32 - 1"
  shows "((id_next ^^ j) NAMED_START = (id_next ^^ k) NAMED_START \<longleftrightarrow> j = k)
    \<and> (id_next ^^ j) NAMED_START \<noteq> UNNAMED \<and> valid_id ((id_next ^^ j) NAMED_START)"
proof -
  have "unat (of_nat (Suc n) :: u32) = Suc n" if "n < 2 ^ 32 - 1" for n
    using that by (simp add: unat_of_nat del: of_nat_Suc)
  from this [OF assms(1)] this [OF assms(2)]
  have "(of_nat (Suc j) :: u32) = of_nat (Suc k) \<longleftrightarrow> j = k" "(of_nat (Suc j) :: u32) \<noteq> 0"
    by (auto simp: word_unat_eq_iff simp del: of_nat_Suc)
  with assms show ?thesis
    by (simp add: id_next_iterate UNNAMED_def valid_id_def del: of_nat_Suc)
qed

theorem statement_ids_distinct_witness:
  "(id_next ^^ 2) NAMED_START \<noteq> (id_next ^^ 5) NAMED_START"
  using statement_ids_distinct [of 2 5] by simp

text \<open>Apart from the clear-text password, whose hint hides its length, a message's body
  is as long as \<^verbatim>\<open>body_size_hint\<close> says, except that \<^verbatim>\<open>Execute\<close> is two bytes longer,
  \<^verbatim>\<open>CopyFail\<close> one, and \<^verbatim>\<open>Bind\<close> one per format code: those three hints are too small.\<close>

theorem size_hints:
  assumes "frontend_crates A" and "encode_body A m [] = Ok body"
    and "\<forall>pw. m \<noteq> Password (Cleartext pw)"
  shows "length body = body_size_hint m +
    (case m of Execute i l \<Rightarrow> 2 | CopyFail msg \<Rightarrow> 1
     | Bind b \<Rightarrow> length (formats b) + length (result_formats b) | _ \<Rightarrow> 0)"
proof (cases m)
  case (Password p)
  with assms show ?thesis
    by (cases p) (auto simp: Let_def put_str_nul_def frontend_crates.md5_hex_digits)
next
  case (Close c)
  with assms show ?thesis by (cases c) (auto simp: frontend_crates.length_put_names)
next
  case (Describe d)
  with assms show ?thesis by (cases d) (auto simp: frontend_crates.length_put_names)
qed (use assms in \<open>auto simp: bind_encode_body_def parse_encode_body_def put_str_nul_def
  sasl_initial_encode_body_def Let_def frontend_crates.length_put_names comp_def length_nat_be_sum
  split: if_splits\<close>)

theorem size_hints_witness:
  "length (put_portal_name demo_frontend [] UNNAMED @ to_be_bytes (0 :: u32)) =
     body_size_hint (Execute UNNAMED 0) + 2"
  using size_hints [OF demo.frontend_crates_axioms, of "Execute UNNAMED 0"] by simp

subsection \<open>\<^verbatim>\<open>Bind\<close> as the server reads it\<close>

text \<open>The layout of a \<^verbatim>\<open>Bind\<close> body in the protocol documentation, read back.\<close>

definition read_cstring :: "bytes \<Rightarrow> (bytes \<times> bytes) option" where
  "read_cstring b = (case index_of 0 b of None \<Rightarrow> None | Some i \<Rightarrow> Some (take i b, drop (Suc i) b))"

definition read_be :: "nat \<Rightarrow> bytes \<Rightarrow> (nat \<times> bytes) option" where
  "read_be n b = (if length b < n then None else Some (be_nat (take n b), drop n b))"

definition read_value :: "bytes \<Rightarrow> (bytes option \<times> bytes) option" where
  "read_value b =
     Option.bind (read_be 4 b) (\<lambda>(n, b).
       if n = 2 ^ 32 - 1 then Some (None, b)
       else if length b < n then None else Some (Some (take n b), drop n b))"

fun read_many :: "(bytes \<Rightarrow> ('a \<times> bytes) option) \<Rightarrow> nat \<Rightarrow> bytes \<Rightarrow> ('a list \<times> bytes) option" where
  "read_many f 0 b = Some ([], b)"
| "read_many f (Suc k) b =
     Option.bind (f b) (\<lambda>(x, b). map_option (\<lambda>(xs, b). (x # xs, b)) (read_many f k b))"

lemma read_many_numeral [wire_simps]:
  "read_many f (numeral k) b =
     Option.bind (f b) (\<lambda>(x, b). map_option (\<lambda>(xs, b). (x # xs, b)) (read_many f (pred_numeral k) b))"
  by (simp only: numeral_eq_Suc [of k] read_many.simps)

definition read_counted :: "(bytes \<Rightarrow> ('a \<times> bytes) option) \<Rightarrow> bytes \<Rightarrow> ('a list \<times> bytes) option" where
  "read_counted f b = Option.bind (read_be 2 b) (\<lambda>(k, b). read_many f k b)"

definition read_bind ::
  "bytes \<Rightarrow> (bytes \<times> bytes \<times> nat list \<times> bytes option list \<times> nat list) option"
where
  "read_bind b =
     Option.bind (read_cstring b) (\<lambda>(p, b).
     Option.bind (read_cstring b) (\<lambda>(s, b).
     Option.bind (read_counted (read_be 2) b) (\<lambda>(fs, b).
     Option.bind (read_counted read_value b) (\<lambda>(vs, b).
     Option.bind (read_counted (read_be 2) b) (\<lambda>(rs, b).
     if b = [] then Some (p, s, fs, vs, rs) else None)))))"

definition value_bytes :: "bytes option \<Rightarrow> bytes" where
  "value_bytes v = (case v of None \<Rightarrow> nat_be 4 (2 ^ 32 - 1) | Some x \<Rightarrow> nat_be 4 (length x) @ x)"

lemma read_cstring_append [simp]: "0 \<notin> set s \<Longrightarrow> read_cstring (s @ 0 # r) = Some (s, r)"
  by (simp add: read_cstring_def index_of_found)

lemma read_be_append: "n < 256 ^ k \<Longrightarrow> read_be k (nat_be k n @ r) = Some (n, r)"
  by (simp add: read_be_def be_nat_nat_be)

lemma read_value_append:
  assumes "\<forall>x. v = Some x \<longrightarrow> length x < 2 ^ 31"
  shows "read_value (value_bytes v @ r) = Some (v, r)"
  using assms by (cases v) (simp_all add: value_bytes_def read_value_def read_be_append)

lemma read_many_append:
  assumes "\<And>x r. x \<in> set xs \<Longrightarrow> f (g x @ r) = Some (h x, r)"
  shows "read_many f (length xs) (concat (map g xs) @ r) = Some (map h xs, r)"
  using assms
proof (induction xs)
  case Nil
  show ?case by simp
next
  case (Cons x xs)
  have step: "f (g x @ s) = Some (h x, s)" for s
    using Cons.prems by simp
  show ?case
    using Cons by (simp add: step)
qed

lemma read_counted_append:
  assumes "\<And>x r. x \<in> set xs \<Longrightarrow> f (g x @ r) = Some (h x, r)" and "length xs < 2 ^ 16"
  shows "read_counted f (nat_be 2 (length xs) @ concat (map g xs) @ r) = Some (map h xs, r)"
  using read_many_append [OF assms(1)] assms(2) by (simp add: read_counted_def read_be_append)

lemma to_be_bytes_u16: "to_be_bytes (w :: u16) = nat_be 2 (unat w)"
  by (simp add: to_be_bytes_def)

lemma read_format: "read_be 2 (to_be_bytes (w :: u16) @ r) = Some (unat w, r)"
  using unat_u16_less [of w] by (simp add: to_be_bytes_u16 read_be_append)

lemma read_many_be_short: "length b < 2 * k \<Longrightarrow> read_many (read_be 2) k b = None"
proof (induction k arbitrary: b)
  case (Suc k)
  then show ?case by (auto simp: read_be_def)
qed simp

text \<open>A list of formats behind a count that may be another: it is read, to the end, only when the
  count is right.\<close>

lemma read_formats:
  fixes xs :: "pg_value_format list"
  assumes "k < 2 ^ 16"
  defines "b \<equiv> nat_be 2 k @ concat (map (to_be_bytes \<circ> format_code) xs)"
  shows "Option.bind (read_counted (read_be 2) b) (\<lambda>(rs, b). if b = [] then Some (g rs) else None) =
    (if length xs = k then Some (g (map (unat \<circ> format_code) xs)) else None)"
proof -
  let ?enc = "\<lambda>xs. concat (map (to_be_bytes \<circ> format_code) xs)"
  have len: "length (?enc ys) = 2 * length ys" for ys :: "pg_value_format list"
    by (induction ys) (simp_all add: to_be_bytes_u16)
  have many: "read_many (read_be 2) (length ys) (?enc ys @ r) = Some (map (unat \<circ> format_code) ys, r)"
    for ys :: "pg_value_format list" and r
    by (rule read_many_append) (simp add: read_format)
  consider "length xs < k" | "length xs = k" | "k < length xs" by linarith
  then show ?thesis
  proof cases
    case 1
    then have "read_many (read_be 2) k (?enc xs) = None" by (intro read_many_be_short) (simp add: len)
    with 1 assms show ?thesis by (simp add: read_counted_def read_be_append)
  next
    case 2
    with many [of xs "[]"] assms show ?thesis by (simp add: read_counted_def read_be_append)
  next
    case 3
    have "?enc xs = ?enc (take k xs) @ ?enc (drop k xs)"
      by (metis append_take_drop_id concat_append map_append)
    moreover have "?enc (drop k xs) \<noteq> []" using 3 len [of "drop k xs"] by (metis diff_is_0_eq length_drop
        length_0_conv mult_is_0 not_less zero_neq_numeral)
    moreover have "read_many (read_be 2) k (?enc (take k xs) @ ?enc (drop k xs)) =
        Some (map (unat \<circ> format_code) (take k xs), ?enc (drop k xs))"
      using many [of "take k xs"] 3 by simp
    ultimately show ?thesis using 3 assms by (simp add: read_counted_def read_be_append)
  qed
qed

lemma bind_roundtrip_lemma:
  assumes "frontend_crates A" and "length (formats m) < 2 ^ 16"
    and "params m = concat (map value_bytes vs)" and "unat (num_params m) = length vs"
    and "\<forall>x. Some x \<in> set vs \<longrightarrow> length x < 2 ^ 31"
  shows "Option.bind (case encode_body A (Bind m) [] of Ok b \<Rightarrow> Some b | _ \<Rightarrow> None) read_bind =
    (if length (result_formats m) = length (formats m)
     then Some (id_name portal_prefix (portal m), id_name stmt_prefix (statement m),
       map (unat \<circ> format_code) (formats m), vs, map (unat \<circ> format_code) (result_formats m))
     else None)"
proof -
  note A = frontend_crates.put_name_id_name [OF assms(1)]
  have val: "read_value (value_bytes v @ r) = Some (id v, r)" if "v \<in> set vs" for v r
    using assms(5) that by (auto intro!: read_value_append)
  have vs: "read_counted read_value (nat_be 2 (length vs) @ concat (map value_bytes vs) @ r) = Some (vs, r)"
    for r
    using read_counted_append [of vs read_value value_bytes id r, OF val] assms(4)
      unat_u16_less [of "num_params m"] by simp
  have num: "to_be_bytes (num_params m) = nat_be 2 (length vs)"
    using assms(4) by (simp add: to_be_bytes_u16)
  have fs: "read_counted (read_be 2)
      (nat_be 2 (length (formats m)) @ concat (map (to_be_bytes \<circ> format_code) (formats m)) @ r) =
      Some (map (unat \<circ> format_code) (formats m), r)" for r
    using read_counted_append [of "formats m" "read_be 2" "to_be_bytes \<circ> format_code"
        "unat \<circ> format_code" r] assms(2) by (simp add: read_format)
  have names: "0 \<notin> set (id_name portal_prefix (portal m))" "0 \<notin> set (id_name stmt_prefix (statement m))"
    by (simp_all add: id_name_no_nul ascii_def)
  show ?thesis
    using assms(2) fs names read_formats [OF assms(2), of "result_formats m"
      "\<lambda>rs. (id_name portal_prefix (portal m), id_name stmt_prefix (statement m),
        map (unat \<circ> format_code) (formats m), vs, rs)"]
    by (simp add: bind_encode_body_def put_portal_name_def put_statement_name_def A Let_def
        read_bind_def assms(3) num vs)
qed

text \<open>C8. What a server that follows the documented layout reads from a \<^verbatim>\<open>Bind\<close> body with less than
  65536 format codes and values below two gigabytes.  With as many
  result formats as parameter formats, which is what \<^verbatim>\<open>run\<close> sends (one of each), it reads back exactly
  what the message was built from: the portal and statement names, the format codes, every parameter
  value (\<^verbatim>\<open>NULL\<close> included) and the result formats, with nothing left over.  With any other number of
  result formats it cannot read the body, since \<^verbatim>\<open>Bind\<close> writes the number of parameter formats as
  their count.\<close>

theorem bind_roundtrip:
  assumes "frontend_crates A" and "length (formats m) < 2 ^ 16"
    and "params m = concat (map value_bytes vs)" and "unat (num_params m) = length vs"
    and "\<forall>x. Some x \<in> set vs \<longrightarrow> length x < 2 ^ 31"
  shows "Option.bind (case encode_body A (Bind m) [] of Ok b \<Rightarrow> Some b | _ \<Rightarrow> None) read_bind =
    (if length (result_formats m) = length (formats m)
     then Some (id_name portal_prefix (portal m), id_name stmt_prefix (statement m),
       map (unat \<circ> format_code) (formats m), vs, map (unat \<circ> format_code) (result_formats m))
     else None)"
  using assms by (rule bind_roundtrip_lemma)

definition demo_bind :: bind_msg where
  "demo_bind = \<lparr>portal = UNNAMED, statement = NAMED_START, formats = [Binary], num_params = 2,
     params = value_bytes (Some [1, 2]) @ value_bytes None, result_formats = [Binary]\<rparr>"

theorem bind_roundtrip_witness:
  "Option.bind (case encode_body demo_frontend (Bind demo_bind) [] of Ok b \<Rightarrow> Some b | _ \<Rightarrow> None) read_bind =
     Some (id_name portal_prefix UNNAMED, id_name stmt_prefix NAMED_START, [1],
       [Some [1, 2], None], [1])"
  using bind_roundtrip [OF demo.frontend_crates_axioms, of demo_bind "[Some [1, 2], None]"]
  by (auto simp: demo_bind_def)

text \<open>\<^verbatim>\<open>Bind\<close> writes the number of parameter formats where the number of result
  formats belongs, so with a different number of the two the server cannot read the
  message: with no parameter format and one result format it finds two bytes it does not
  expect.\<close>

theorem bind_result_count_wrong:
  "Option.bind (case encode_body demo_frontend (Bind (demo_bind\<lparr>formats := []\<rparr>)) [] of
      Ok b \<Rightarrow> Some b | _ \<Rightarrow> None) read_bind = None"
  by (simp add: demo_bind_def bind_encode_body_def put_portal_name_def put_statement_name_def Let_def
      demo.put_name_id_name id_name_def id_display_def UNNAMED_def NAMED_START_def dec_string.simps
      digit_char_def ascii_def read_bind_def read_cstring_def read_counted_def read_be_def
      read_value_def value_bytes_def nat_be_def wire_simps be_nat_def to_be_bytes_def)

subsection \<open>\<^verbatim>\<open>Startup\<close>\<close>

definition startup_pairs :: "startup_msg \<Rightarrow> (bytes \<times> bytes) list" where
  "startup_pairs m =
     (case username m of Some u \<Rightarrow> [(ascii ''user'', u)] | None \<Rightarrow> [])
     @ (case database m of Some d \<Rightarrow> [(ascii ''database'', d)] | None \<Rightarrow> [])
     @ startup_params m"

lemma foldl_startup_params:
  "foldl (\<lambda>b (n, v). encode_startup_param b n v) buf ps =
     buf @ concat (map (\<lambda>(n, v). n @ 0 # v @ [0]) ps)"
  by (induction ps arbitrary: buf) (auto simp: encode_startup_param_def put_str_nul_def)

text \<open>The start-up message is its length, protocol version 3.0, the user, the database
  and the further parameters in this order, each name and value NUL-terminated, and a final
  zero byte.\<close>

theorem startup_layout:
  fixes m :: startup_msg
  defines "body \<equiv> [0, 3, 0, 0] @ concat (map (\<lambda>(n, v). n @ 0 # v @ [0]) (startup_pairs m)) @ [0]"
  assumes "length body + 4 < 2 ^ 31"
  shows "startup_encode m buf = (buf @ nat_be 4 (length body + 4) @ body, Ok ())"
  unfolding startup_encode_def
  by (rule put_length_prefixed_Ok [OF _ assms(2)])
    (simp add: body_def Let_def foldl_startup_params startup_pairs_def encode_startup_param_def
      put_str_nul_def to_be_bytes_def nat_be_def wire_simps split: option.splits)

theorem startup_layout_witness:
  "startup_encode \<lparr>username = Some [65], database = None, startup_params = []\<rparr> [] =
     ([0, 0, 0, 16, 0, 3, 0, 0, 117, 115, 101, 114, 0, 65, 0, 0], Ok ())"
  using startup_layout [of "\<lparr>username = Some [65], database = None, startup_params = []\<rparr>" "[]"]
  by (simp add: startup_pairs_def nat_be_def wire_simps ascii_def)

end
