(* ===== verification/Pg_Arguments.thy ===== *)
theory Pg_Arguments
  imports Pg_Frontend
begin

section \<open>Bind arguments (\<^verbatim>\<open>sqlx-postgres/src/arguments.rs\<close>)\<close>

text \<open>
  \<^verbatim>\<open>PgArgumentBuffer\<close> collects the encoded parameters of a query, the callbacks that patch
  them once the parameter types are known, and the offsets of the type identifiers still to
  be resolved.  A value is described by what \<^verbatim>\<open>Encode\<close> and \<^verbatim>\<open>Type\<close> give for it; the locale
  \<open>pg_encode\<close> is the contract of \<^verbatim>\<open>Encode\<close>: an implementation only extends the buffer, and
  writes nothing for a \<^verbatim>\<open>NULL\<close>.  \<open>'ty\<close> is \<^verbatim>\<open>PgTypeInfo\<close>, \<open>'arr\<close> is \<^verbatim>\<open>PgArrayOf\<close>.  The
  \<^verbatim>\<open>debug_assert_eq!\<close> of a release build is not part of the model.
\<close>

datatype 'arr hole_kind = HoleType bytes | HoleArray 'arr

record 'ty patch =
  buf_offset :: nat
  arg_index :: nat
  callback :: "bytes \<Rightarrow> 'ty \<Rightarrow> bytes"

record ('ty, 'arr) arg_buffer =
  buffer :: bytes
  arg_count :: nat
  patches :: "'ty patch list"
  type_holes :: "(nat \<times> 'arr hole_kind) list"

record ('ty, 'arr) pg_arguments =
  arg_types :: "'ty list"
  arg_buf :: "('ty, 'arr) arg_buffer"

datatype is_null = IsNull_Yes | IsNull_No

record ('ty, 'arr) pg_value =
  produces :: "'ty option"
  type_info :: 'ty
  size_hint :: nat
  encode_by_ref :: "('ty, 'arr) arg_buffer \<Rightarrow> ('ty, 'arr) arg_buffer \<times> is_null result"

definition value_size_int4_checked :: "nat \<Rightarrow> nat result" where
  "value_size_int4_checked sz =
     (if sz < 2 ^ 31 then Ok sz
      else Err (EncodeError ''value size would overflow in the binary protocol encoding''))"

definition set_len :: "nat \<Rightarrow> bytes \<Rightarrow> ('ty, 'arr) arg_buffer \<Rightarrow> ('ty, 'arr) arg_buffer" where
  "set_len offset len b =
     b\<lparr>buffer := take offset (buffer b) @ len @ drop (offset + 4) (buffer b)\<rparr>"

definition buffer_encode ::
  "('ty, 'arr) pg_value \<Rightarrow> ('ty, 'arr) arg_buffer \<Rightarrow> ('ty, 'arr) arg_buffer \<times> unit result"
where
  "buffer_encode v b =
     (case value_size_int4_checked (size_hint v) of
        Ok _ \<Rightarrow>
          (let offset = length (buffer b) in
           case encode_by_ref v (b\<lparr>buffer := buffer b @ [0, 0, 0, 0]\<rparr>) of
             (b, Ok IsNull_No) \<Rightarrow>
               (case value_size_int4_checked (length (buffer b) - offset - 4) of
                  Ok len \<Rightarrow> (set_len offset (nat_be 4 len) b, Ok ())
                | Err e \<Rightarrow> (b, Err e)
                | Panic \<Rightarrow> (b, Panic))
           | (b, Ok IsNull_Yes) \<Rightarrow> (set_len offset (nat_be 4 (2 ^ 32 - 1)) b, Ok ())
           | (b, Err e) \<Rightarrow> (b, Err e)
           | (b, Panic) \<Rightarrow> (b, Panic))
      | Err e \<Rightarrow> (b, Err e)
      | Panic \<Rightarrow> (b, Panic))"

record buffer_snapshot =
  buffer_length :: nat
  count_snap :: nat
  patches_length :: nat
  type_holes_length :: nat

definition snapshot :: "('ty, 'arr) arg_buffer \<Rightarrow> buffer_snapshot" where
  "snapshot b =
     \<lparr>buffer_length = length (buffer b), count_snap = arg_count b,
      patches_length = length (patches b), type_holes_length = length (type_holes b)\<rparr>"

definition reset_to_snapshot ::
  "buffer_snapshot \<Rightarrow> ('ty, 'arr) arg_buffer \<Rightarrow> ('ty, 'arr) arg_buffer"
where
  "reset_to_snapshot s b =
     b\<lparr>buffer := take (buffer_length s) (buffer b), arg_count := count_snap s,
       patches := take (patches_length s) (patches b),
       type_holes := take (type_holes_length s) (type_holes b)\<rparr>"

definition value_type :: "('ty, 'arr) pg_value \<Rightarrow> 'ty" where
  "value_type v = (case produces v of Some t \<Rightarrow> t | None \<Rightarrow> type_info v)"

definition arguments_add ::
  "('ty, 'arr) pg_value \<Rightarrow> ('ty, 'arr) pg_arguments \<Rightarrow> ('ty, 'arr) pg_arguments \<times> unit result"
where
  "arguments_add v a =
     (let ti = value_type v;
          snap = snapshot (arg_buf a) in
      case buffer_encode v (arg_buf a) of
        (b, Ok _) \<Rightarrow>
          (a\<lparr>arg_types := arg_types a @ [ti], arg_buf := b\<lparr>arg_count := arg_count b + 1\<rparr>\<rparr>, Ok ())
      | (b, Err e) \<Rightarrow> (a\<lparr>arg_buf := reset_to_snapshot snap b\<rparr>, Err e)
      | (b, Panic) \<Rightarrow> (a\<lparr>arg_buf := b\<rparr>, Panic))"

definition patch_type_by_name ::
  "bytes \<Rightarrow> ('ty, 'arr) arg_buffer \<Rightarrow> ('ty, 'arr) arg_buffer"
where
  "patch_type_by_name name b =
     b\<lparr>buffer := buffer b @ to_be_bytes (0 :: u32),
       type_holes := type_holes b @ [(length (buffer b), HoleType name)]\<rparr>"

definition patch_array_type :: "'arr \<Rightarrow> ('ty, 'arr) arg_buffer \<Rightarrow> ('ty, 'arr) arg_buffer" where
  "patch_array_type arr b =
     b\<lparr>buffer := buffer b @ to_be_bytes (0 :: u32),
       type_holes := type_holes b @ [(length (buffer b), HoleArray arr)]\<rparr>"

definition patch_with ::
  "(bytes \<Rightarrow> 'ty \<Rightarrow> bytes) \<Rightarrow> ('ty, 'arr) arg_buffer \<Rightarrow> ('ty, 'arr) arg_buffer"
where
  "patch_with cb b =
     b\<lparr>patches := patches b @
       [\<lparr>buf_offset = length (buffer b), arg_index = arg_count b, callback = cb\<rparr>]\<rparr>"

definition format_placeholder :: "('ty, 'arr) arg_buffer \<Rightarrow> string" where
  "format_placeholder b = ''$'' @ dec_string (arg_count b)"

text \<open>\<open>fetch\<close> is what the connection answers for a type name or an array type.\<close>

fun run_patches :: "'ty patch list \<Rightarrow> 'ty list \<Rightarrow> bytes \<Rightarrow> bytes result" where
  "run_patches [] ps buf = Ok buf"
| "run_patches (pt # pts) ps buf =
     rassert (buf_offset pt \<le> length buf \<and> arg_index pt < length ps)
       (run_patches pts ps
          (take (buf_offset pt) buf @ callback pt (drop (buf_offset pt) buf) (ps ! arg_index pt)))"

fun fill_holes ::
  "('arr hole_kind \<Rightarrow> u32 result) \<Rightarrow> (nat \<times> 'arr hole_kind) list \<Rightarrow> bytes \<Rightarrow> bytes result"
where
  "fill_holes fetch [] buf = Ok buf"
| "fill_holes fetch ((offset, kind) # hs) buf =
     rbind (fetch kind) (\<lambda>oid.
       rassert (offset + 4 \<le> length buf)
         (fill_holes fetch hs (take offset buf @ to_be_bytes oid @ drop (offset + 4) buf)))"

definition apply_patches ::
  "('arr hole_kind \<Rightarrow> u32 result) \<Rightarrow> 'ty list \<Rightarrow> ('ty, 'arr) arg_buffer \<Rightarrow> ('ty, 'arr) arg_buffer result"
where
  "apply_patches fetch parameters b =
     rbind (run_patches (patches b) parameters (buffer b)) (\<lambda>buf.
       rmap (\<lambda>buf. b\<lparr>buffer := buf\<rparr>) (fill_holes fetch (type_holes b) buf))"

subsection \<open>Encoders of scalar types (\<^verbatim>\<open>types/int.rs\<close>, \<^verbatim>\<open>bool.rs\<close>, \<^verbatim>\<open>bytes.rs\<close>, \<^verbatim>\<open>Option\<close>)\<close>

definition int_value :: "'ty \<Rightarrow> 'a::len word \<Rightarrow> ('ty, 'arr) pg_value" where
  "int_value ty w =
     \<lparr>produces = None, type_info = ty, size_hint = LENGTH('a) div 8,
      encode_by_ref = (\<lambda>buf. (buf\<lparr>buffer := buffer buf @ to_be_bytes w\<rparr>, Ok IsNull_No))\<rparr>"

definition bool_value :: "'ty \<Rightarrow> bool \<Rightarrow> ('ty, 'arr) pg_value" where
  "bool_value ty x =
     \<lparr>produces = None, type_info = ty, size_hint = 1,
      encode_by_ref = (\<lambda>buf. (buf\<lparr>buffer := buffer buf @ [if x then 1 else 0]\<rparr>, Ok IsNull_No))\<rparr>"

definition bytes_value :: "'ty \<Rightarrow> bytes \<Rightarrow> ('ty, 'arr) pg_value" where
  "bytes_value ty x =
     \<lparr>produces = None, type_info = ty, size_hint = length x,
      encode_by_ref = (\<lambda>buf. (buf\<lparr>buffer := buffer buf @ x\<rparr>, Ok IsNull_No))\<rparr>"

definition option_value :: "'ty \<Rightarrow> ('ty, 'arr) pg_value option \<Rightarrow> ('ty, 'arr) pg_value" where
  "option_value ty ov =
     \<lparr>produces = (case ov of Some v \<Rightarrow> produces v | None \<Rightarrow> Some ty), type_info = ty,
      size_hint = (case ov of Some v \<Rightarrow> size_hint v | None \<Rightarrow> 0),
      encode_by_ref = (\<lambda>buf. case ov of Some v \<Rightarrow> encode_by_ref v buf | None \<Rightarrow> (buf, Ok IsNull_Yes))\<rparr>"

subsection \<open>The contract of \<^verbatim>\<open>Encode\<close>\<close>

definition extends :: "('ty, 'arr) arg_buffer \<Rightarrow> ('ty, 'arr) arg_buffer \<Rightarrow> bool" where
  "extends b b' \<longleftrightarrow> arg_count b' = arg_count b \<and> (\<exists>x. buffer b' = buffer b @ x)
     \<and> (\<exists>ps. patches b' = patches b @ ps) \<and> (\<exists>hs. type_holes b' = type_holes b @ hs)"

locale pg_encode =
  fixes v :: "('ty, 'arr) pg_value"
  assumes encode_extends: "extends b (fst (encode_by_ref v b))"
begin

lemma buffer_encode_extends: "extends b (fst (buffer_encode v b))"
proof (cases "encode_by_ref v (b\<lparr>buffer := buffer b @ [0, 0, 0, 0]\<rparr>)")
  case (Pair b' r)
  with encode_extends [of "b\<lparr>buffer := buffer b @ [0, 0, 0, 0]\<rparr>"]
  show ?thesis
    by (auto simp: extends_def buffer_encode_def value_size_int4_checked_def set_len_def Let_def
        split: result.splits is_null.splits if_splits)
qed

lemma reset_extends: "extends b b' \<Longrightarrow> reset_to_snapshot (snapshot b) b' = b"
  by (cases b; cases b') (auto simp: extends_def reset_to_snapshot_def snapshot_def)

lemma add_failure: "arguments_add v a = (a', Err e) \<Longrightarrow> a' = a"
  using buffer_encode_extends [of "arg_buf a"]
  by (cases "buffer_encode v (arg_buf a)")
    (auto simp: arguments_add_def Let_def reset_extends split: result.splits)

end

text \<open>A scalar: it always writes the same bytes, or is always \<^verbatim>\<open>NULL\<close>.\<close>

locale pg_scalar =
  fixes v :: "('ty, 'arr) pg_value" and out :: "bytes option"
  assumes encode_some:
      "out = Some x \<Longrightarrow> encode_by_ref v b = (b\<lparr>buffer := buffer b @ x\<rparr>, Ok IsNull_No)"
    and encode_none: "out = None \<Longrightarrow> encode_by_ref v b = (b, Ok IsNull_Yes)"
    and small_hint: "size_hint v < 2 ^ 31"
    and small_out: "out = Some x \<Longrightarrow> length x < 2 ^ 31"

sublocale pg_scalar \<subseteq> pg_encode v
  by unfold_locales (cases out; simp add: extends_def encode_some encode_none)

context pg_scalar
begin

lemma buffer_encode_scalar:
  "buffer_encode v b = (b\<lparr>buffer := buffer b @ value_bytes out\<rparr>, Ok ())"
  using small_hint small_out
  by (cases out)
    (simp_all add: buffer_encode_def value_size_int4_checked_def encode_some encode_none
      set_len_def value_bytes_def Let_def)

lemma add_scalar:
  "arguments_add v a =
     (a\<lparr>arg_types := arg_types a @ [value_type v],
        arg_buf := (arg_buf a)\<lparr>buffer := buffer (arg_buf a) @ value_bytes out,
          arg_count := Suc (arg_count (arg_buf a))\<rparr>\<rparr>, Ok ())"
  by (simp add: arguments_add_def buffer_encode_scalar Let_def)

end

interpretation int_enc: pg_scalar "int_value ty w" "Some (to_be_bytes (w :: u64))" for ty w
  by unfold_locales (auto simp: int_value_def)

interpretation int4_enc: pg_scalar "int_value ty w" "Some (to_be_bytes (w :: u32))" for ty w
  by unfold_locales (auto simp: int_value_def)

interpretation bool_enc: pg_scalar "bool_value ty x" "Some [if x then 1 else 0]" for ty x
  by unfold_locales (auto simp: bool_value_def)

interpretation null_enc: pg_scalar "option_value ty None" None for ty
  by unfold_locales (auto simp: option_value_def)

lemma bytes_scalar: "length x < 2 ^ 31 \<Longrightarrow> pg_scalar (bytes_value ty x) (Some x)"
  by unfold_locales (auto simp: bytes_value_def)

lemma option_scalar: "pg_scalar v out \<Longrightarrow> pg_scalar (option_value ty (Some v)) out"
  by (simp add: pg_scalar_def option_value_def)

subsection \<open>Properties\<close>

text \<open>A value that fails to encode leaves the arguments exactly as they were: bytes,
  patches, holes, count and types.\<close>

theorem failed_add_restores:
  assumes "pg_encode v" and "arguments_add v a = (a', Err e)"
  shows "a' = a"
  using pg_encode.add_failure [OF assms] .

definition half_written :: "(nat, nat) pg_value" where
  "half_written = \<lparr>produces = None, type_info = 0, size_hint = 1,
     encode_by_ref = (\<lambda>b. (patch_type_by_name [7] b, Err (EncodeError ''out of range'')))\<rparr>"

theorem failed_add_restores_witness:
  "arguments_add half_written \<lparr>arg_types = [], arg_buf = \<lparr>buffer = [1, 2], arg_count = 0,
      patches = [], type_holes = []\<rparr>\<rparr> =
    (\<lparr>arg_types = [], arg_buf = \<lparr>buffer = [1, 2], arg_count = 0, patches = [], type_holes = []\<rparr>\<rparr>,
     Err (EncodeError ''out of range''))"
proof -
  let ?a = "\<lparr>arg_types = [], arg_buf = \<lparr>buffer = [1, 2], arg_count = 0, patches = [], type_holes = []\<rparr>\<rparr>
    :: (nat, nat) pg_arguments"
  have "pg_encode half_written"
    by unfold_locales (simp add: half_written_def extends_def patch_type_by_name_def)
  moreover have "\<exists>a'. arguments_add half_written ?a = (a', Err (EncodeError ''out of range''))"
    by (simp add: arguments_add_def half_written_def buffer_encode_def value_size_int4_checked_def Let_def)
  ultimately show ?thesis using failed_add_restores by metis
qed

definition add_all :: "('ty, 'arr) pg_value list \<Rightarrow> ('ty, 'arr) pg_arguments" where
  "add_all vs = foldl (\<lambda>a v. fst (arguments_add v a))
     \<lparr>arg_types = [], arg_buf = \<lparr>buffer = [], arg_count = 0, patches = [], type_holes = []\<rparr>\<rparr> vs"

lemma add_all_scalars:
  assumes "list_all2 pg_scalar vs outs"
  shows "add_all vs = \<lparr>arg_types = map value_type vs,
    arg_buf = \<lparr>buffer = concat (map value_bytes outs), arg_count = length vs,
      patches = [], type_holes = []\<rparr>\<rparr>"
  using assms
proof (induction vs arbitrary: outs rule: rev_induct)
  case Nil
  then show ?case by (simp add: add_all_def)
next
  case (snoc v vs)
  then obtain out outs' where outs: "outs = outs' @ [out]" "list_all2 pg_scalar vs outs'" "pg_scalar v out"
    by (auto simp: list_all2_append1 list_all2_Cons1)
  have "add_all (vs @ [v]) = fst (arguments_add v (add_all vs))"
    by (simp add: add_all_def)
  with snoc.IH [OF outs(2)] outs show ?case
    by (simp add: pg_scalar.add_scalar)
qed

text \<open>C9. What the application binds is what the server reads: the scalar values added to
  \<^verbatim>\<open>PgArguments\<close> one after the other, sent in a \<^verbatim>\<open>Bind\<close> message the way \<^verbatim>\<open>PgConnection::run\<close>
  builds it, are read back by the server value by value, with \<^verbatim>\<open>NULL\<close> where one was bound.\<close>

theorem arguments_reach_server:
  assumes "frontend_crates A" and "list_all2 pg_scalar vs outs" and "length vs < 2 ^ 16"
  shows "Option.bind
      (case encode_body A (Bind \<lparr>portal = UNNAMED, statement = st, formats = [Binary],
              num_params = of_nat (arg_count (arg_buf (add_all vs))),
              params = buffer (arg_buf (add_all vs)), result_formats = [Binary]\<rparr>) [] of
         Ok b \<Rightarrow> Some b | _ \<Rightarrow> None) read_bind
    = Some ([], id_name stmt_prefix st, [1], outs, [1])"
proof -
  have "length outs = length vs" using assms(2) by (simp add: list_all2_lengthD)
  moreover have "\<forall>x. Some x \<in> set outs \<longrightarrow> length x < 2 ^ 31"
    using assms(2) pg_scalar.small_out by (metis in_set_conv_nth list_all2_conv_all_nth)
  ultimately show ?thesis
    using assms(3) add_all_scalars [OF assms(2)]
    by (subst bind_roundtrip_lemma [OF assms(1), where vs = outs])
      (auto simp: unat_of_nat id_name_def id_display_def UNNAMED_def)
qed

theorem arguments_reach_server_witness:
  "Option.bind
      (case encode_body demo_frontend (Bind \<lparr>portal = UNNAMED, statement = Some 1, formats = [Binary],
              num_params = of_nat (arg_count (arg_buf (add_all
                [int_value () (7 :: u32), option_value () None :: (unit, unit) pg_value]))),
              params = buffer (arg_buf (add_all
                [int_value () (7 :: u32), option_value () None :: (unit, unit) pg_value])),
              result_formats = [Binary]\<rparr>) [] of
         Ok b \<Rightarrow> Some b | _ \<Rightarrow> None) read_bind
    = Some ([], id_name stmt_prefix (Some 1), [1], [Some (to_be_bytes (7 :: u32)), None], [1])"
  by (rule arguments_reach_server [OF demo.frontend_crates_axioms])
    (simp_all add: int4_enc.pg_scalar_axioms null_enc.pg_scalar_axioms)

text \<open>Holes are four bytes apart or more, and inside the buffer.\<close>

fun holes_ok :: "nat \<Rightarrow> (nat \<times> 'arr hole_kind) list \<Rightarrow> bool" where
  "holes_ok n [] = True"
| "holes_ok n ((offset, kind) # hs) =
     (offset + 4 \<le> n \<and> (\<forall>(o', k') \<in> set hs. offset + 4 \<le> o') \<and> holes_ok n hs)"

lemma holes_ok_append:
  "holes_ok n hs \<Longrightarrow> n \<le> off \<Longrightarrow> off + 4 \<le> m \<Longrightarrow> holes_ok m (hs @ [(off, k)])"
  by (induction n hs rule: holes_ok.induct) (auto simp: case_prod_beta)

lemma patch_holes_ok:
  "holes_ok (length (buffer b)) (type_holes b) \<Longrightarrow>
     holes_ok (length (buffer (patch_type_by_name name b))) (type_holes (patch_type_by_name name b))"
  "holes_ok (length (buffer b)) (type_holes b) \<Longrightarrow>
     holes_ok (length (buffer (patch_array_type arr b))) (type_holes (patch_array_type arr b))"
  by (auto simp: patch_type_by_name_def patch_array_type_def intro!: holes_ok_append)

lemma fill_holes_spec:
  assumes "holes_ok (length buf) hs" and "\<forall>(off, k) \<in> set hs. fetch k = Ok (oid k)"
  shows "\<exists>buf'. fill_holes fetch hs buf = Ok buf' \<and> length buf' = length buf
    \<and> (\<forall>(off, k) \<in> set hs. take 4 (drop off buf') = to_be_bytes (oid k))
    \<and> (\<forall>i. (\<forall>(off, k) \<in> set hs. i < off \<or> off + 4 \<le> i) \<longrightarrow> buf' ! i = buf ! i)"
  using assms
proof (induction hs arbitrary: buf)
  case Nil
  then show ?case by simp
next
  case (Cons h hs)
  obtain off k where h: "h = (off, k)" by (cases h)
  let ?b = "take off buf @ to_be_bytes (oid k) @ drop (off + 4) buf"
  have len: "length ?b = length buf" and room: "off + 4 \<le> length buf"
    using Cons.prems h by auto
  have later: "\<forall>(o', k') \<in> set hs. off + 4 \<le> o'" using Cons.prems h by simp
  obtain buf' where b': "fill_holes fetch hs ?b = Ok buf'" "length buf' = length buf"
    "\<forall>(o', k') \<in> set hs. take 4 (drop o' buf') = to_be_bytes (oid k')"
    "\<forall>i. (\<forall>(o', k') \<in> set hs. i < o' \<or> o' + 4 \<le> i) \<longrightarrow> buf' ! i = ?b ! i"
    using Cons.IH [of ?b] Cons.prems h len by auto
  have same: "buf' ! i = ?b ! i" if "i < off + 4" for i
  proof -
    have "\<forall>(o', k') \<in> set hs. i < o' \<or> o' + 4 \<le> i" using later that by fastforce
    with b'(4) show ?thesis by blast
  qed
  have "take 4 (drop off buf') = take 4 (drop off ?b)"
    using room b'(2) len same by (intro nth_equalityI) (auto simp: nth_append)
  then have "take 4 (drop off buf') = to_be_bytes (oid k)" using room by simp
  moreover have "buf' ! i = buf ! i"
    if "\<forall>(o', k') \<in> set (h # hs). i < o' \<or> o' + 4 \<le> i" for i
  proof -
    have "?b ! i = buf ! i" using that h room by (auto simp: nth_append)
    with b'(4) that show ?thesis by auto
  qed
  ultimately show ?case using b' h Cons.prems room by auto
qed

text \<open>Resolving type names fills every hole with the identifier the database has for
  it, big-endian, and changes no other byte of the arguments.\<close>

theorem holes_filled:
  assumes "patches b = []" and "holes_ok (length (buffer b)) (type_holes b)"
    and "\<forall>(off, k) \<in> set (type_holes b). fetch k = Ok (oid k)"
  shows "\<exists>b'. apply_patches fetch ps b = Ok b' \<and> length (buffer b') = length (buffer b)
    \<and> (\<forall>(off, k) \<in> set (type_holes b). take 4 (drop off (buffer b')) = to_be_bytes (oid k))
    \<and> (\<forall>i. (\<forall>(off, k) \<in> set (type_holes b). i < off \<or> off + 4 \<le> i) \<longrightarrow>
         buffer b' ! i = buffer b ! i)"
  using fill_holes_spec [OF assms(2,3)] assms(1) by (auto simp: apply_patches_def)

theorem holes_filled_witness:
  "\<exists>b'. apply_patches (\<lambda>k. Ok 9) [] (patch_type_by_name [7]
      \<lparr>buffer = [1], arg_count = 0, patches = [], type_holes = []\<rparr> :: (unit, unit) arg_buffer) = Ok b'
    \<and> take 4 (drop 1 (buffer b')) = to_be_bytes (9 :: u32)"
  using holes_filled [of "patch_type_by_name [7]
      \<lparr>buffer = [1], arg_count = 0, patches = [], type_holes = []\<rparr> :: (unit, unit) arg_buffer"
      "\<lambda>k. Ok 9" "\<lambda>k. 9" "[]"]
  by (auto simp: patch_type_by_name_def)

end
