(* ===== verification/Pg_Backend.thy ===== *)
theory Pg_Backend
  imports Pg_Frontend Buffered_Socket
begin

section \<open>Backend messages of the PostgreSQL protocol\<close>

text \<open>
  The decoders of \<^verbatim>\<open>sqlx-postgres/src/message\<close> and the framing of
  \<^verbatim>\<open>PgStream::recv_unchecked\<close>.  Signed fields are kept as words of their width.  Fixed-width
  reads through \<^verbatim>\<open>byteorder\<close> panic on short input as those through \<^verbatim>\<open>bytes\<close> do.  The crates
  \<^verbatim>\<open>atoi\<close>, \<^verbatim>\<open>memchr\<close> (for \<^verbatim>\<open>memrchr\<close>) and \<^verbatim>\<open>base64\<close> are parameters.
\<close>

record text_api =
  atoi_u64 :: "bytes \<Rightarrow> u64 option"
  atoi_u32 :: "bytes \<Rightarrow> u32 option"
  memrchr :: "u8 \<Rightarrow> bytes \<Rightarrow> nat option"
  base64_decode :: "bytes \<Rightarrow> bytes option"

locale text_crates =
  fixes T :: text_api
  assumes atoi_decimal:
      "n < 2 ^ 64 \<Longrightarrow> r = [] \<or> \<not> digit_byte (hd r) \<Longrightarrow>
       atoi_u64 T (ascii (dec_string n) @ r) = Some (of_nat n)"
    and atoi_other: "b = [] \<or> \<not> digit_byte (hd b) \<and> hd b \<noteq> 43 \<and> hd b \<noteq> 45 \<Longrightarrow> atoi_u64 T b = None"
    and memrchr_found: "x \<notin> set r \<Longrightarrow> memrchr T x (p @ x # r) = Some (length p)"
    and memrchr_absent: "x \<notin> set b \<Longrightarrow> memrchr T x b = None"

subsection \<open>Formats and framing\<close>

datatype BackendMessageFormat =
    Authentication | BackendKeyData | BindComplete | CloseComplete | CommandComplete | BCopyData
  | BCopyDone | CopyInResponse | CopyOutResponse | DataRow | EmptyQueryResponse | ErrorResponse
  | NoData | NoticeResponse | NotificationResponse | ParameterDescription | ParameterStatus
  | ParseComplete | PortalSuspended | ReadyForQuery | RowDescription

definition backend_codes :: "(char \<times> BackendMessageFormat) list" where
  "backend_codes =
     [(CHR ''1'', ParseComplete), (CHR ''2'', BindComplete), (CHR ''3'', CloseComplete),
      (CHR ''C'', CommandComplete), (CHR ''d'', BCopyData), (CHR ''c'', BCopyDone),
      (CHR ''G'', CopyInResponse), (CHR ''H'', CopyOutResponse), (CHR ''D'', DataRow),
      (CHR ''E'', ErrorResponse), (CHR ''I'', EmptyQueryResponse), (CHR ''A'', NotificationResponse),
      (CHR ''K'', BackendKeyData), (CHR ''N'', NoticeResponse), (CHR ''R'', Authentication),
      (CHR ''S'', ParameterStatus), (CHR ''T'', RowDescription), (CHR ''Z'', ReadyForQuery),
      (CHR ''n'', NoData), (CHR ''s'', PortalSuspended), (CHR ''t'', ParameterDescription)]"

definition try_from_u8 :: "u8 \<Rightarrow> BackendMessageFormat result" where
  "try_from_u8 v =
     (case map_of (map (\<lambda>(c, f). (of_nat (of_char c), f)) backend_codes) v of
        Some f \<Rightarrow> Ok f
      | None \<Rightarrow> Err (Protocol ''unknown message type''))"

record received_message =
  msg_format :: BackendMessageFormat
  contents :: bytes

definition recv_unchecked ::
  "bytes_api \<Rightarrow> bytes \<Rightarrow> (received_message control_flow \<times> bytes) result"
where
  "recv_unchecked B buf =
     (if length buf < 5 then Ok (Continue 5, buf)
      else
        rbind (get_u8 B (take 5 buf)) (\<lambda>(code, header).
        rbind (try_from_u8 code) (\<lambda>fmt.
        rbind (get_u32 B header) (\<lambda>(len, _).
          let message_len = unat len in
          if 2 ^ 64 \<le> message_len + 1 then Err (Protocol ''message_len + 1 overflows usize'')
          else
            let expected_len = message_len + 1 in
            if length buf < expected_len then Ok (Continue expected_len, buf)
            else
              rbind (advance B 1 buf) (\<lambda>buf.
              rbind (take_front B message_len buf) (\<lambda>(body, buf).
              rmap (\<lambda>c. (Break \<lparr>msg_format = fmt, contents = c\<rparr>, buf)) (advance B 4 body)))))))"

definition message_decode ::
  "BackendMessageFormat \<Rightarrow> (bytes \<Rightarrow> 'a result) \<Rightarrow> received_message \<Rightarrow> 'a result"
where
  "message_decode fmt decode_body m =
     (if fmt \<noteq> msg_format m then Err (Protocol ''Postgres protocol error: unexpected format'')
      else case decode_body (contents m) of
          Err (Protocol s) \<Rightarrow> Err (Protocol (''Postgres protocol error (reading): '' @ s))
        | r \<Rightarrow> r)"

subsection \<open>Simple messages\<close>

datatype TransactionStatus = Idle | Transaction | TxError

definition ready_for_query_decode :: "bytes \<Rightarrow> TransactionStatus result" where
  "ready_for_query_decode buf =
     (case buf of
        [] \<Rightarrow> Panic
      | b # _ \<Rightarrow>
          if b = of_nat (of_char (CHR ''I'')) then Ok Idle
          else if b = of_nat (of_char (CHR ''T'')) then Ok Transaction
          else if b = of_nat (of_char (CHR ''E'')) then Ok TxError
          else Err (Protocol ''unknown transaction status''))"

definition backend_key_data_decode :: "bytes_api \<Rightarrow> bytes \<Rightarrow> (u32 \<times> u32) result" where
  "backend_key_data_decode B buf =
     rbind (get_u32 B buf) (\<lambda>(process_id, _).
     rassert (4 \<le> length buf)
       (rmap (\<lambda>(secret_key, _). (process_id, secret_key)) (get_u32 B (drop 4 buf))))"

definition rows_affected :: "text_api \<Rightarrow> bytes \<Rightarrow> u64 result" where
  "rows_affected T tag =
     (case memrchr T 32 tag of
        None \<Rightarrow> Ok 0
      | Some i \<Rightarrow>
          rassert (i + 1 \<le> length tag)
            (case atoi_u64 T (drop (i + 1) tag) of Some n \<Rightarrow> Ok n | None \<Rightarrow> Ok 0))"

record notification =
  ntf_process_id :: u32
  channel :: bytes
  payload :: bytes

definition notification_decode :: "bytes_api \<Rightarrow> bytes \<Rightarrow> notification result" where
  "notification_decode B buf =
     rbind (get_u32 B buf) (\<lambda>(pid, buf).
     rbind (get_bytes_nul B buf) (\<lambda>(ch, buf).
     rmap (\<lambda>(pl, _). \<lparr>ntf_process_id = pid, channel = ch, payload = pl\<rparr>) (get_bytes_nul B buf)))"

definition parameter_status_decode :: "bytes_api \<Rightarrow> bytes \<Rightarrow> (bytes \<times> bytes) result" where
  "parameter_status_decode B buf =
     rbind (get_str_nul B buf) (\<lambda>(name, buf).
     rmap (\<lambda>(val, _). (name, val)) (get_str_nul B buf))"

fun repeat_get :: "(bytes \<Rightarrow> ('a \<times> bytes) result) \<Rightarrow> nat \<Rightarrow> bytes \<Rightarrow> ('a list \<times> bytes) result" where
  "repeat_get f 0 b = Ok ([], b)"
| "repeat_get f (Suc k) b =
     rbind (f b) (\<lambda>(x, b). rmap (\<lambda>(xs, b). (x # xs, b)) (repeat_get f k b))"

definition parameter_description_decode :: "bytes_api \<Rightarrow> bytes \<Rightarrow> u32 list result" where
  "parameter_description_decode B buf =
     rbind (get_u16 B buf) (\<lambda>(cnt, buf). rmap fst (repeat_get (get_u32 B) (unat cnt) buf))"

record copy_response =
  copy_format :: u8
  num_columns :: u16
  format_codes :: "u16 list"

definition copy_response_decode :: "bytes_api \<Rightarrow> bytes \<Rightarrow> copy_response result" where
  "copy_response_decode B buf =
     rbind (get_u8 B buf) (\<lambda>(fmt, buf).
     rbind (get_u16 B buf) (\<lambda>(n, buf).
     rmap (\<lambda>(codes, _). \<lparr>copy_format = fmt, num_columns = n, format_codes = codes\<rparr>)
       (repeat_get (get_u16 B) (nat (sint n)) buf)))"

subsection \<open>\<^verbatim>\<open>RowDescription\<close> and \<^verbatim>\<open>DataRow\<close>\<close>

record field =
  field_name :: bytes
  relation_id :: "u32 option"
  relation_attribute_no :: "u16 option"
  data_type_id :: u32
  data_type_size :: u16
  type_modifier :: u32
  field_format :: u16

definition field_decode :: "bytes_api \<Rightarrow> bytes \<Rightarrow> (field \<times> bytes) result" where
  "field_decode B buf =
     rbind (get_str_nul B buf) (\<lambda>(name, buf).
     if length buf < 18 then Err (Protocol ''expected at least 18 bytes after field name'')
     else
       rbind (get_u32 B buf) (\<lambda>(rel, buf).
       rbind (get_u16 B buf) (\<lambda>(att, buf).
       rbind (get_u32 B buf) (\<lambda>(ty, buf).
       rbind (get_u16 B buf) (\<lambda>(tsize, buf).
       rbind (get_u32 B buf) (\<lambda>(tmod, buf).
       rmap (\<lambda>(fmt, buf).
           (\<lparr>field_name = name, relation_id = (if rel = 0 then None else Some rel),
             relation_attribute_no = (if att = 0 then None else Some att), data_type_id = ty,
             data_type_size = tsize, type_modifier = tmod, field_format = fmt\<rparr>, buf))
         (get_u16 B buf)))))))"

definition row_description_decode :: "bytes_api \<Rightarrow> bytes \<Rightarrow> field list result" where
  "row_description_decode B buf =
     (if length buf < 2 then Err (Protocol ''expected at least 2 bytes'')
      else rbind (get_u16 B buf) (\<lambda>(cnt, buf). rmap fst (repeat_get (field_decode B) (unat cnt) buf)))"

record data_row =
  storage :: bytes
  row_values :: "(u32 \<times> u32) option list"

fun data_row_values :: "bytes \<Rightarrow> nat \<Rightarrow> u32 \<Rightarrow> (u32 \<times> u32) option list result" where
  "data_row_values buf 0 offset = Ok []"
| "data_row_values buf (Suc k) offset =
     (if 2 ^ 32 \<le> unat offset + 4 then Err (Protocol ''next value start out of range'')
      else
        let value_start = offset + 4 in
        if length buf < unat value_start then Err (Protocol ''expected 4 bytes at offset'')
        else
          let len = from_be_bytes (take 4 (drop (unat offset) buf)) :: u32 in
          if 0 \<le> sint len then
            (if 2 ^ 32 \<le> unat value_start + unat len
             then Err (Protocol ''value_start + length out of range'')
             else
               let value_end = value_start + len in
               rmap (\<lambda>vs. Some (value_start, value_end) # vs) (data_row_values buf k value_end))
          else rmap (\<lambda>vs. None # vs) (data_row_values buf k value_start))"

definition data_row_decode :: "bytes \<Rightarrow> data_row result" where
  "data_row_decode buf =
     (if length buf < 2 then Err (Protocol ''expected at least 2 bytes'')
      else rmap (\<lambda>vs. \<lparr>storage = buf, row_values = vs\<rparr>)
             (data_row_values buf (be_nat (take 2 buf)) 2))"

definition data_row_get :: "data_row \<Rightarrow> nat \<Rightarrow> bytes option result" where
  "data_row_get r index =
     rassert (index < length (row_values r))
       (case row_values r ! index of
          None \<Rightarrow> Ok None
        | Some (s, e) \<Rightarrow>
            rassert (s \<le> e \<and> unat e \<le> length (storage r))
              (Ok (Some (drop (unat s) (take (unat e) (storage r))))))"

subsection \<open>\<^verbatim>\<open>ErrorResponse\<close> and \<^verbatim>\<open>NoticeResponse\<close>\<close>

datatype PgSeverity = SevPanic | SevFatal | SevError | SevWarning | SevNotice | SevDebug | SevInfo | SevLog

definition severity_is_error :: "PgSeverity \<Rightarrow> bool" where
  "severity_is_error s \<longleftrightarrow> s \<in> {SevPanic, SevFatal, SevError}"

definition severity_try_from :: "bytes \<Rightarrow> PgSeverity result" where
  "severity_try_from s =
     (if s = ascii ''PANIC'' then Ok SevPanic else if s = ascii ''FATAL'' then Ok SevFatal
      else if s = ascii ''ERROR'' then Ok SevError else if s = ascii ''WARNING'' then Ok SevWarning
      else if s = ascii ''NOTICE'' then Ok SevNotice else if s = ascii ''DEBUG'' then Ok SevDebug
      else if s = ascii ''INFO'' then Ok SevInfo else if s = ascii ''LOG'' then Ok SevLog
      else Err (Protocol ''unknown severity''))"

type_synonym range = "nat \<times> nat"

definition slice :: "bytes \<Rightarrow> range \<Rightarrow> bytes" where
  "slice b r = drop (fst r) (take (snd r) b)"

text \<open>The iterator \<^verbatim>\<open>Fields\<close>, run from an offset to its end.\<close>

function fields_from :: "bytes_api \<Rightarrow> bytes \<Rightarrow> nat \<Rightarrow> (u8 \<times> range) list" where
  "fields_from B st offset =
     (if length st \<le> offset then []
      else if st ! offset = 0 then []
      else
        let start = offset + 1 in
        case memchr B 0 (drop start st) of
          None \<Rightarrow> []
        | Some len \<Rightarrow>
            let stop = start + len in
            (st ! offset, (start, stop)) # fields_from B st (stop + 1))"
  by pat_completeness auto
termination
  by (relation "measure (\<lambda>(B, st, offset). length st - offset)") auto

declare fields_from.simps [simp del]

record notice =
  notice_storage :: bytes
  severity :: PgSeverity
  message_range :: range
  code_range :: range

definition range_empty :: "range \<Rightarrow> bool" where
  "range_empty r \<longleftrightarrow> snd r \<le> fst r"

definition notice_protocol_err :: "'a result" where
  "notice_protocol_err = Err (Protocol ''Postgres returned a non-UTF-8 string for its error message'')"

record notice_scan =
  severity_v :: "PgSeverity option"
  severity_s :: "PgSeverity option"
  scan_message :: range
  scan_code :: range

fun notice_scan_fields :: "bytes \<Rightarrow> (u8 \<times> range) list \<Rightarrow> notice_scan \<Rightarrow> notice_scan result" where
  "notice_scan_fields buf [] a = Ok a"
| "notice_scan_fields buf ((ty, v) # fs) a =
     (if \<not> (range_empty (scan_message a) \<or> range_empty (scan_code a)) then Ok a
      else if ty = of_nat (of_char (CHR ''S'')) then
        (if \<not> valid_utf8 (slice buf v) then notice_protocol_err
         else notice_scan_fields buf fs
           (a\<lparr>severity_s := (case severity_try_from (slice buf v) of Ok s \<Rightarrow> Some s | _ \<Rightarrow> None)\<rparr>))
      else if ty = of_nat (of_char (CHR ''V'')) then
        (if \<not> valid_utf8 (slice buf v) then notice_protocol_err
         else rbind (severity_try_from (slice buf v))
           (\<lambda>s. notice_scan_fields buf fs (a\<lparr>severity_v := Some s\<rparr>)))
      else if ty = of_nat (of_char (CHR ''M'')) then
        (if \<not> valid_utf8 (slice buf v) then notice_protocol_err
         else notice_scan_fields buf fs (a\<lparr>scan_message := v\<rparr>))
      else if ty = of_nat (of_char (CHR ''C'')) then
        (if \<not> valid_utf8 (slice buf v) then notice_protocol_err
         else notice_scan_fields buf fs (a\<lparr>scan_code := v\<rparr>))
      else notice_scan_fields buf fs a)"

definition notice_decode :: "bytes_api \<Rightarrow> bytes \<Rightarrow> notice result" where
  "notice_decode B buf =
     rmap (\<lambda>a.
         \<lparr>notice_storage = buf,
          severity = (case severity_v a of Some s \<Rightarrow> s
             | None \<Rightarrow> (case severity_s a of Some s \<Rightarrow> s | None \<Rightarrow> SevLog)),
          message_range = scan_message a, code_range = scan_code a\<rparr>)
       (notice_scan_fields buf (fields_from B buf 0)
         \<lparr>severity_v = None, severity_s = None, scan_message = (0, 0), scan_code = (0, 0)\<rparr>)"

definition get_cached_str :: "notice \<Rightarrow> range \<Rightarrow> bytes result" where
  "get_cached_str n r =
     rassert (fst r \<le> snd r \<and> snd r \<le> length (notice_storage n))
       (let s = slice (notice_storage n) r in rassert (valid_utf8 s) (Ok s))"

definition notice_message :: "notice \<Rightarrow> bytes result" where
  "notice_message n = get_cached_str n (message_range n)"

definition notice_code :: "notice \<Rightarrow> bytes result" where
  "notice_code n = get_cached_str n (code_range n)"

definition notice_get_raw :: "bytes_api \<Rightarrow> notice \<Rightarrow> u8 \<Rightarrow> bytes option" where
  "notice_get_raw B n ty =
     (case filter (\<lambda>(f, r). f = ty) (fields_from B (notice_storage n) 0) of
        [] \<Rightarrow> None
      | (f, r) # _ \<Rightarrow> Some (slice (notice_storage n) r))"

subsection \<open>\<^verbatim>\<open>Authentication\<close>\<close>

record sasl_continue =
  sasl_salt :: bytes
  iterations :: u32
  nonce :: bytes
  sasl_message :: bytes

definition item_key_value :: "bytes \<Rightarrow> (u8 \<times> bytes) result" where
  "item_key_value item = rassert (2 \<le> length item) (Ok (item ! 0, drop 2 item))"

fun sasl_continue_items :: "text_api \<Rightarrow> bytes list \<Rightarrow> sasl_continue \<Rightarrow> sasl_continue result" where
  "sasl_continue_items T [] a = Ok a"
| "sasl_continue_items T (item # items) a =
     rbind (item_key_value item) (\<lambda>(key, val).
       if key = of_nat (of_char (CHR ''r'')) then sasl_continue_items T items (a\<lparr>nonce := val\<rparr>)
       else if key = of_nat (of_char (CHR ''i'')) then
         sasl_continue_items T items
           (a\<lparr>iterations := (case atoi_u32 T val of Some n \<Rightarrow> n | None \<Rightarrow> 4096)\<rparr>)
       else if key = of_nat (of_char (CHR ''s'')) then
         (case base64_decode T val of
            None \<Rightarrow> Err (Protocol ''invalid base64'')
          | Some x \<Rightarrow> sasl_continue_items T items (a\<lparr>sasl_salt := x\<rparr>))
       else sasl_continue_items T items a)"

definition sasl_continue_decode :: "text_api \<Rightarrow> bytes \<Rightarrow> sasl_continue result" where
  "sasl_continue_decode T buf =
     rbind (sasl_continue_items T (split_on 44 buf)
         \<lparr>sasl_salt = [], iterations = 4096, nonce = [], sasl_message = []\<rparr>) (\<lambda>a.
     rbind (from_utf8 (nonce a)) (\<lambda>n.
     rmap (\<lambda>msg. a\<lparr>nonce := n, sasl_message := msg\<rparr>) (from_utf8 buf)))"

fun sasl_final_items :: "text_api \<Rightarrow> bytes list \<Rightarrow> bytes \<Rightarrow> bytes result" where
  "sasl_final_items T [] verifier = Ok verifier"
| "sasl_final_items T (item # items) verifier =
     rbind (item_key_value item) (\<lambda>(key, val).
       if key = of_nat (of_char (CHR ''v'')) then
         (case base64_decode T val of
            None \<Rightarrow> Err (Protocol ''invalid base64'')
          | Some x \<Rightarrow> sasl_final_items T items x)
       else sasl_final_items T items verifier)"

definition sasl_final_decode :: "text_api \<Rightarrow> bytes \<Rightarrow> bytes result" where
  "sasl_final_decode T buf = sasl_final_items T (split_on 44 buf) []"

text \<open>The iterator \<^verbatim>\<open>SaslMechanisms\<close>, run to its end.\<close>

function sasl_mechanisms :: "bytes_api \<Rightarrow> bytes \<Rightarrow> bytes list" where
  "sasl_mechanisms B b =
     (if b \<noteq> [] \<and> hd b = 0 then []
      else case memchr B 0 b of
          None \<Rightarrow> []
        | Some nul \<Rightarrow>
            if valid_utf8 (take nul b) \<and> nul < length b
            then take nul b # sasl_mechanisms B (drop (nul + 1) b)
            else [])"
  by pat_completeness auto
termination
  by (relation "measure (\<lambda>(B, b). length b)") auto

declare sasl_mechanisms.simps [simp del]

datatype authentication =
    AuthOk
  | AuthCleartextPassword
  | AuthMd5Password bytes
  | AuthSasl bytes
  | AuthSaslContinue sasl_continue
  | AuthSaslFinal bytes

definition authentication_decode :: "bytes_api \<Rightarrow> text_api \<Rightarrow> bytes \<Rightarrow> authentication result" where
  "authentication_decode B T buf =
     rbind (get_u32 B buf) (\<lambda>(ty, buf).
       if ty = 0 then Ok AuthOk
       else if ty = 3 then Ok AuthCleartextPassword
       else if ty = 5 then rmap (\<lambda>(salt, _). AuthMd5Password salt) (take_front B 4 buf)
       else if ty = 10 then Ok (AuthSasl buf)
       else if ty = 11 then rmap AuthSaslContinue (sasl_continue_decode T buf)
       else if ty = 12 then rmap AuthSaslFinal (sasl_final_decode T buf)
       else Err (Protocol ''unknown authentication method''))"

subsection \<open>Framing: what is received is what was sent\<close>

lemma from_be_nat_be_u32 [simp]: "n < 2 ^ 32 \<Longrightarrow> from_be_bytes (nat_be 4 n) = (of_nat n :: u32)"
  by (simp add: from_be_bytes_def be_nat_nat_be)

lemma pg_frame_length [simp]: "length (pg_frame code body) = length body + 5"
  by (simp add: pg_frame_def)

context bytes_contract
begin

lemma recv_unchecked_header:
  assumes "try_from_u8 code = Ok fmt" and "len < 2 ^ 32" and "rest' = nat_be 4 len @ rest"
  shows "recv_unchecked B (code # rest') =
    (if length rest < len - 4 then Ok (Continue (len + 1), code # rest')
     else if len < 4 then
       (if length rest' < len then Ok (Continue (len + 1), code # rest') else Panic)
     else Ok (Break \<lparr>msg_format = fmt, contents = take (len - 4) rest\<rparr>, drop (len - 4) rest))"
proof -
  have "take 4 rest' = nat_be 4 len" "length rest' = length rest + 4" using assms(3) by simp_all
  moreover have "unat (of_nat len :: u32) = len" using assms(2) by (simp add: unat_of_nat)
  ultimately show ?thesis
    using assms
    by (auto simp: recv_unchecked_def get_u32_def take_front_eq advance_eq Let_def)
qed

lemma recv_unchecked_short: "length buf < 5 \<Longrightarrow> recv_unchecked B buf = Ok (Continue 5, buf)"
  by (simp add: recv_unchecked_def)

lemma recv_frame:
  assumes "try_from_u8 code = Ok fmt" and "length body + 4 < 2 ^ 32"
  shows "recv_unchecked B (pg_frame code body @ rest) =
    Ok (Break \<lparr>msg_format = fmt, contents = body\<rparr>, rest)"
  using recv_unchecked_header [OF assms(1), of "length body + 4" _ "body @ rest"] assms(2)
  by (simp add: pg_frame_def)

lemma recv_partial:
  assumes "try_from_u8 code = Ok fmt" and "length body + 4 < 2 ^ 32" and "k < length body + 5"
  shows "recv_unchecked B (take k (pg_frame code body)) =
    Ok (Continue (if k < 5 then 5 else length body + 5), take k (pg_frame code body))"
proof (cases "k < 5")
  case True
  then show ?thesis by (simp add: recv_unchecked_short)
next
  case False
  then obtain j where j: "k = j + 5" by (metis add.commute le_Suc_ex not_less)
  then have "take k (pg_frame code body) = code # nat_be 4 (length body + 4) @ take j body"
    by (simp add: pg_frame_def take_Cons')
  with recv_unchecked_header [OF assms(1), of "length body + 4" _ "take j body"] assms(2,3) j
  show ?thesis by simp
qed

end

primrec backend_code :: "BackendMessageFormat \<Rightarrow> char" where
  "backend_code ParseComplete = CHR ''1''" | "backend_code BindComplete = CHR ''2''"
| "backend_code CloseComplete = CHR ''3''" | "backend_code CommandComplete = CHR ''C''"
| "backend_code BCopyData = CHR ''d''" | "backend_code BCopyDone = CHR ''c''"
| "backend_code CopyInResponse = CHR ''G''" | "backend_code CopyOutResponse = CHR ''H''"
| "backend_code DataRow = CHR ''D''" | "backend_code ErrorResponse = CHR ''E''"
| "backend_code EmptyQueryResponse = CHR ''I''" | "backend_code NotificationResponse = CHR ''A''"
| "backend_code BackendKeyData = CHR ''K''" | "backend_code NoticeResponse = CHR ''N''"
| "backend_code Authentication = CHR ''R''" | "backend_code ParameterStatus = CHR ''S''"
| "backend_code RowDescription = CHR ''T''" | "backend_code ReadyForQuery = CHR ''Z''"
| "backend_code NoData = CHR ''n''" | "backend_code PortalSuspended = CHR ''s''"
| "backend_code ParameterDescription = CHR ''t''"

definition message_frame :: "received_message \<Rightarrow> bytes" where
  "message_frame m = pg_frame (of_nat (of_char (backend_code (msg_format m)))) (contents m)"

definition sendable :: "received_message \<Rightarrow> bool" where
  "sendable m \<longleftrightarrow> length (contents m) + 4 < 2 ^ 32"

lemma try_from_backend_code: "try_from_u8 (of_nat (of_char (backend_code f))) = Ok f"
  by (cases f) (simp_all add: try_from_u8_def backend_codes_def)

sublocale bytes_contract \<subseteq> pg_reader: framed_reader "recv_unchecked B" message_frame sendable
proof
  fix m rest
  assume "sendable m"
  then show "recv_unchecked B (message_frame m @ rest) = Ok (Break m, rest)"
    using recv_frame [OF try_from_backend_code, of "contents m"] by (simp add: sendable_def message_frame_def)
next
  fix m k
  assume "sendable m" and "k < length (message_frame m)"
  then show "\<exists>n. recv_unchecked B (take k (message_frame m)) = Ok (Continue n, take k (message_frame m))
      \<and> k < n \<and> n \<le> length (message_frame m)"
    using recv_partial [OF try_from_backend_code, of "contents m" k]
    by (simp add: sendable_def message_frame_def)
qed

context bytes_contract
begin

lemma pg_reads_messages:
  assumes "list_all sendable ms" and "[] \<notin> set chunks" and "concat chunks = concat (map message_frame ms) @ rest"
  shows "\<exists>rd cs. reads (recv_unchecked B) (length ms) [] chunks = Some (ms, rd, cs) \<and> rd @ concat cs = rest"
  using pg_reader.reads_frames [of ms chunks "[]" rest] assms by simp

lemma pg_read_waits:
  assumes "sendable m" and "[] \<notin> set chunks" and "rd @ concat chunks = take k (message_frame m)"
    and "k < length (message_frame m)"
  shows "try_read (recv_unchecked B) rd chunks = Some (rd @ concat chunks, [], None)"
  using pg_reader.try_read_waits [OF assms] .

end

text \<open>C6. Receiving does not depend on how the network cuts the stream: from any sequence of
  non-empty chunks whose bytes are the frames of a sequence of messages, successive receives
  deliver those messages in order and leave the bytes after them.  While a frame is incomplete
  the receive stays pending and has consumed nothing, so dropping it loses nothing.\<close>

theorem pg_receive_any_chunking:
  assumes "bytes_contract B" and "list_all sendable ms" and "[] \<notin> set chunks"
  shows "(concat chunks = concat (map message_frame ms) @ rest \<longrightarrow>
      (\<exists>rd cs. reads (recv_unchecked B) (length ms) [] chunks = Some (ms, rd, cs) \<and> rd @ concat cs = rest))
    \<and> (\<forall>m k rd. sendable m \<longrightarrow> k < length (message_frame m) \<longrightarrow> rd @ concat chunks = take k (message_frame m)
      \<longrightarrow> try_read (recv_unchecked B) rd chunks = Some (rd @ concat chunks, [], None))"
  using bytes_contract.pg_reads_messages [OF assms] bytes_contract.pg_read_waits [OF assms(1) _ assms(3)] by blast

theorem pg_receive_any_chunking_witness:
  "\<exists>rd cs. reads (recv_unchecked list_bytes) 2 []
       [[0x5A, 0, 0], [0, 5, 73, 0x33, 0, 0, 0], [4, 1]] =
     Some ([\<lparr>msg_format = ReadyForQuery, contents = [73]\<rparr>, \<lparr>msg_format = CloseComplete, contents = []\<rparr>], rd, cs)
   \<and> rd @ concat cs = [1]"
proof -
  let ?ms = "[\<lparr>msg_format = ReadyForQuery, contents = [73]\<rparr>, \<lparr>msg_format = CloseComplete, contents = []\<rparr>]"
  let ?cs = "[[0x5A, 0, 0], [0, 5, 73, 0x33, 0, 0, 0], [4, 1]] :: bytes list"
  have "list_all sendable ?ms" by (simp add: sendable_def)
  moreover have "[] \<notin> set ?cs" by simp
  moreover have "concat ?cs = concat (map message_frame ?ms) @ [1]"
    by (simp add: message_frame_def pg_frame_def nat_be_def wire_simps)
  ultimately show ?thesis
    using pg_receive_any_chunking [OF list_cursor.bytes_contract_axioms, of ?ms ?cs "[1]"] by (simp add: numeral_2_eq_2)
qed

text \<open>A frame whose length field is smaller than four, which counts less than the
  length field itself, makes \<^verbatim>\<open>recv_unchecked\<close> panic instead of returning a protocol
  error.\<close>

theorem short_length_panics:
  assumes "bytes_contract B" and "try_from_u8 code = Ok fmt" and "len < 4"
  shows "recv_unchecked B (code # nat_be 4 len @ rest) = Panic"
  using bytes_contract.recv_unchecked_header [OF assms(1,2), of len _ rest] assms(3) by simp

theorem short_length_panics_witness:
  "recv_unchecked list_bytes (0x5A # nat_be 4 0 @ []) = Panic"
proof -
  have "try_from_u8 0x5A = Ok ReadyForQuery"
    by (simp add: try_from_u8_def backend_codes_def)
  from short_length_panics [OF list_cursor.bytes_contract_axioms this, of 0 "[]"] show ?thesis by simp
qed

subsection \<open>Rows\<close>

definition row_value_at :: "bytes \<Rightarrow> (u32 \<times> u32) option \<Rightarrow> bytes option \<Rightarrow> bool" where
  "row_value_at buf r v \<longleftrightarrow>
     (case r of
        None \<Rightarrow> v = None
      | Some (s, e) \<Rightarrow> s \<le> e \<and> unat e \<le> length buf \<and> v = Some (drop (unat s) (take (unat e) buf)))"

lemma row_value_at_simps:
  "row_value_at buf None v \<longleftrightarrow> v = None"
  "row_value_at buf (Some (s, e)) v \<longleftrightarrow>
     s \<le> e \<and> unat e \<le> length buf \<and> v = Some (drop (unat s) (take (unat e) buf))"
  by (simp_all add: row_value_at_def)

lemma value_bytes_simps:
  "value_bytes None = nat_be 4 4294967295" "value_bytes (Some x) = nat_be 4 (length x) @ x"
  by (simp_all add: value_bytes_def)

lemma sint_u32_nonneg: "0 \<le> sint (w :: u32) \<longleftrightarrow> unat w < 2 ^ 31"
  by (simp add: sint_nonneg_iff)

lemma data_row_values_spec:
  assumes "\<forall>x. Some x \<in> set vs \<longrightarrow> length x < 2 ^ 31"
    and "length (pre @ concat (map value_bytes vs)) < 2 ^ 32"
    and "buf = pre @ concat (map value_bytes vs)"
  shows "\<exists>rs. data_row_values buf (length vs) (of_nat (length pre)) = Ok rs
    \<and> list_all2 (row_value_at buf) rs vs"
  using assms
proof (induction vs arbitrary: pre)
  case Nil
  then show ?case by simp
next
  case (Cons v vs)
  have off: "unat (of_nat (length pre) :: u32) = length pre"
    "unat (of_nat (length pre) + 4 :: u32) = length pre + 4"
    using Cons.prems by (auto simp: value_bytes_def unat_of_nat unat_word_ariths split: option.splits)
  have IH: "\<exists>rs. data_row_values buf (length vs) (of_nat (length (pre @ value_bytes v))) = Ok rs
      \<and> list_all2 (row_value_at buf) rs vs"
    using Cons by (intro Cons.IH) auto
  show ?case
  proof (cases v)
    case None
    have pos: "of_nat (length (pre @ value_bytes v)) = (of_nat (length pre) + 4 :: u32)"
      by (simp add: None value_bytes_def)
    have neg: "\<not> 0 \<le> sint (from_be_bytes (nat_be 4 4294967295) :: u32)"
      by (simp add: sint_u32_nonneg)
    obtain rs where rs: "data_row_values buf (length vs) (of_nat (length pre) + 4) = Ok rs"
        "list_all2 (row_value_at buf) rs vs"
      using IH [unfolded pos] by blast
    have buf: "buf = pre @ nat_be 4 4294967295 @ concat (map value_bytes vs)"
      using Cons.prems(3) by (simp add: None value_bytes_simps)
    then have "length pre + 4 \<le> length buf" "take 4 (drop (length pre) buf) = nat_be 4 4294967295"
      by simp_all
    moreover have "length buf < 2 ^ 32" using Cons.prems by simp
    ultimately have "data_row_values buf (Suc (length vs)) (of_nat (length pre)) = Ok (None # rs)"
      using rs(1) off neg by (simp add: Let_def)
    with rs(2) show ?thesis by (simp add: None row_value_at_simps)
  next
    case (Some x)
    then have x: "length x < 2 ^ 31" using Cons.prems by simp
    then have len: "unat (of_nat (length x) :: u32) = length x" by (simp add: unat_of_nat)
    have e: "unat (of_nat (length pre) + 4 + of_nat (length x) :: u32) = length pre + 4 + length x"
      using Cons.prems Some off len by (auto simp: value_bytes_simps unat_word_ariths)
    have le: "(of_nat (length pre) + 4 :: u32) \<le> of_nat (length pre) + 4 + of_nat (length x)"
      using e off by (simp add: word_le_nat_alt)
    have pos: "of_nat (length (pre @ value_bytes v)) = (of_nat (length pre) + 4 + of_nat (length x) :: u32)"
      by (simp add: Some value_bytes_def)
    obtain rs where rs:
        "data_row_values buf (length vs) (of_nat (length pre) + 4 + of_nat (length x)) = Ok rs"
        "list_all2 (row_value_at buf) rs vs"
      using IH [unfolded pos] by blast
    have buf: "buf = pre @ nat_be 4 (length x) @ x @ concat (map value_bytes vs)"
      using Cons.prems(3) by (simp add: Some value_bytes_simps)
    then have room: "length pre + 4 + length x \<le> length buf" "take 4 (drop (length pre) buf) = nat_be 4 (length x)"
      "drop (length pre + 4) (take (length pre + 4 + length x) buf) = x"
      by simp_all
    have "from_be_bytes (nat_be 4 (length x)) = (of_nat (length x) :: u32)" using x by simp
    moreover have "length buf < 2 ^ 32" using Cons.prems by simp
    ultimately have "data_row_values buf (Suc (length vs)) (of_nat (length pre)) =
        Ok (Some (of_nat (length pre) + 4, of_nat (length pre) + 4 + of_nat (length x)) # rs)"
      using rs(1) off x len e room by (simp add: Let_def sint_u32_nonneg)
    with rs(2) le e off room show ?thesis by (simp add: Some row_value_at_simps)
  qed
qed

text \<open>C38. A \<^verbatim>\<open>DataRow\<close> the server builds from column values decodes to a row with as many
  columns, and \<^verbatim>\<open>get\<close> returns every column's value, \<^verbatim>\<open>None\<close> for \<^verbatim>\<open>NULL\<close>.\<close>

theorem data_row_roundtrip:
  assumes "length vs < 2 ^ 16" and "\<forall>x. Some x \<in> set vs \<longrightarrow> length x < 2 ^ 31"
    and "length (concat (map value_bytes vs)) + 2 < 2 ^ 32"
  shows "\<exists>row. data_row_decode (nat_be 2 (length vs) @ concat (map value_bytes vs)) = Ok row
    \<and> length (row_values row) = length vs
    \<and> (\<forall>i < length vs. data_row_get row i = Ok (vs ! i))"
proof -
  let ?buf = "nat_be 2 (length vs) @ concat (map value_bytes vs)"
  obtain rs where rs: "data_row_values ?buf (length vs) 2 = Ok rs"
      "list_all2 (row_value_at ?buf) rs vs"
    using data_row_values_spec [of vs "nat_be 2 (length vs)" ?buf] assms by auto
  have "data_row_get \<lparr>storage = ?buf, row_values = rs\<rparr> i = Ok (vs ! i)" if "i < length vs" for i
  proof -
    have "row_value_at ?buf (rs ! i) (vs ! i)" "i < length rs"
      using rs(2) that by (auto simp: list_all2_conv_all_nth)
    then show ?thesis
      by (auto simp: data_row_get_def row_value_at_def split: option.splits prod.splits)
  qed
  with rs assms(1) show ?thesis
    by (auto simp: data_row_decode_def be_nat_nat_be list_all2_lengthD)
qed

theorem data_row_roundtrip_witness:
  "\<exists>row. data_row_decode (nat_be 2 (length [None, Some [10]]) @ concat (map value_bytes [None, Some [10]])) = Ok row
    \<and> data_row_get row 1 = Ok (Some [10])"
  using data_row_roundtrip [of "[None, Some [10]]"] by (auto simp: value_bytes_def)

text \<open>\<^verbatim>\<open>DataRow\<close> checks that every length field lies in the message but not that the value
  does: a truncated row decodes successfully and \<^verbatim>\<open>get\<close> then panics.\<close>

theorem data_row_truncated_panics:
  "\<exists>buf row. data_row_decode buf = Ok row \<and> data_row_get row 0 = Panic"
proof -
  let ?buf = "[0, 1, 0, 0, 0, 9, 65]"
  have count: "be_nat (take 2 ?buf) = Suc 0" by (simp add: be_nat_def)
  have len: "from_be_bytes (take 4 (drop (unat (2 :: u32)) ?buf)) = (9 :: u32)"
    by (simp add: from_be_bytes_def be_nat_def)
  have "data_row_values ?buf (Suc 0) 2 = Ok [Some (6, 15)]"
    by (simp add: len [simplified] Let_def sint_u32_nonneg)
  then have "data_row_decode ?buf = Ok \<lparr>storage = ?buf, row_values = [Some (6, 15)]\<rparr>"
    unfolding data_row_decode_def count by simp
  moreover have "data_row_get \<lparr>storage = ?buf, row_values = [Some (6, 15)]\<rparr> 0 = Panic"
    by (simp add: data_row_get_def rassert_def)
  ultimately show ?thesis by blast
qed

definition field_bytes :: "field \<Rightarrow> bytes" where
  "field_bytes f =
     field_name f @ [0]
     @ to_be_bytes (case relation_id f of Some r \<Rightarrow> r | None \<Rightarrow> 0)
     @ to_be_bytes (case relation_attribute_no f of Some r \<Rightarrow> r | None \<Rightarrow> 0)
     @ to_be_bytes (data_type_id f) @ to_be_bytes (data_type_size f)
     @ to_be_bytes (type_modifier f) @ to_be_bytes (field_format f)"

definition valid_field :: "field \<Rightarrow> bool" where
  "valid_field f \<longleftrightarrow> 0 \<notin> set (field_name f) \<and> valid_utf8 (field_name f)
     \<and> relation_id f \<noteq> Some 0 \<and> relation_attribute_no f \<noteq> Some 0"

context bytes_contract
begin

lemma field_decode_append: "valid_field f \<Longrightarrow> field_decode B (field_bytes f @ r) = Ok (f, r)"
  by (cases f)
    (auto simp: field_decode_def field_bytes_def valid_field_def split: option.splits)

lemma repeat_get_append:
  assumes "\<And>x r. x \<in> set xs \<Longrightarrow> f (g x @ r) = Ok (x, r)"
  shows "repeat_get f (length xs) (concat (map g xs) @ r) = Ok (xs, r)"
  using assms
proof (induction xs)
  case (Cons x xs)
  have "f (g x @ s) = Ok (x, s)" for s using Cons.prems by simp
  with Cons show ?case by simp
qed simp

end

text \<open>A \<^verbatim>\<open>RowDescription\<close> decodes to the fields the server described, with absent table
  and column numbers as \<^verbatim>\<open>None\<close>.\<close>

theorem row_description_roundtrip:
  assumes "bytes_contract B" and "length fs < 2 ^ 16" and "\<forall>f \<in> set fs. valid_field f"
  shows "row_description_decode B (to_be_bytes (of_nat (length fs) :: u16) @ concat (map field_bytes fs)) =
    Ok fs"
  using bytes_contract.repeat_get_append
      [OF assms(1), of fs "field_decode B" field_bytes "[]"]
    bytes_contract.field_decode_append [OF assms(1)] assms
  by (simp add: row_description_decode_def bytes_contract.get_u16_append unat_of_nat)

theorem row_description_roundtrip_witness:
  "row_description_decode list_bytes (to_be_bytes (of_nat (length
      [\<lparr>field_name = [105, 100], relation_id = Some 5, relation_attribute_no = None, data_type_id = 23,
        data_type_size = 4, type_modifier = - 1, field_format = 1\<rparr>]) :: u16) @ concat (map field_bytes
      [\<lparr>field_name = [105, 100], relation_id = Some 5, relation_attribute_no = None, data_type_id = 23,
        data_type_size = 4, type_modifier = - 1, field_format = 1\<rparr>])) =
   Ok [\<lparr>field_name = [105, 100], relation_id = Some 5, relation_attribute_no = None, data_type_id = 23,
        data_type_size = 4, type_modifier = - 1, field_format = 1\<rparr>]"
  by (rule row_description_roundtrip [OF list_cursor.bytes_contract_axioms])
    (simp_all add: valid_field_def)

subsection \<open>Notices\<close>

abbreviation "tagV \<equiv> 86 :: u8"
abbreviation "tagM \<equiv> 77 :: u8"
abbreviation "tagC \<equiv> 67 :: u8"

definition notice_bytes :: "(u8 \<times> bytes) list \<Rightarrow> bytes" where
  "notice_bytes fs = concat (map (\<lambda>(t, v). t # v @ [0]) fs)"

definition valid_fields :: "(u8 \<times> bytes) list \<Rightarrow> bool" where
  "valid_fields fs \<longleftrightarrow> distinct (map fst fs)
     \<and> list_all (\<lambda>(t, v). t \<noteq> 0 \<and> 0 \<notin> set v \<and> valid_utf8 v
          \<and> (t = tagV \<longrightarrow> (\<exists>s. severity_try_from v = Ok s))) fs"

definition in_storage :: "bytes \<Rightarrow> range \<Rightarrow> bool" where
  "in_storage b r \<longleftrightarrow> fst r \<le> snd r \<and> snd r \<le> length b"

definition good_range :: "bytes \<Rightarrow> range \<Rightarrow> bool" where
  "good_range b r \<longleftrightarrow> in_storage b r \<and> valid_utf8 (slice b r)"

lemma good_range_0 [simp]: "good_range b (0, 0)"
  by (simp add: good_range_def in_storage_def slice_def)

lemma get_cached_str_good: "good_range (notice_storage n) r \<Longrightarrow> get_cached_str n r = Ok (slice (notice_storage n) r)"
  by (simp add: get_cached_str_def good_range_def in_storage_def Let_def)

lemma severity_try_from_no_panic: "severity_try_from v \<noteq> Panic"
  by (simp add: severity_try_from_def)

lemma notice_scan_no_panic: "notice_scan_fields buf F a \<noteq> Panic"
proof (induction buf F a rule: notice_scan_fields.induct)
  case (2 buf ty v fs a)
  then show ?case
    by (auto simp: notice_protocol_err_def rbind_Panic_iff severity_try_from_no_panic)
qed simp

lemma notice_scan_good:
  "notice_scan_fields buf F a = Ok a' \<Longrightarrow> list_all (in_storage buf \<circ> snd) F
   \<Longrightarrow> good_range buf (scan_message a) \<Longrightarrow> good_range buf (scan_code a)
   \<Longrightarrow> good_range buf (scan_message a') \<and> good_range buf (scan_code a')"
proof (induction buf F a rule: notice_scan_fields.induct)
  case (2 buf ty v fs a)
  then show ?case
    by (auto simp: notice_protocol_err_def good_range_def split: if_splits)
qed simp

lemma notice_scan_ranges:
  "notice_scan_fields buf F a = Ok a' \<Longrightarrow> distinct (map fst F)
   \<Longrightarrow> range_empty (scan_message a) \<or> tagM \<notin> fst ` set F
   \<Longrightarrow> range_empty (scan_code a) \<or> tagC \<notin> fst ` set F
   \<Longrightarrow> scan_message a' = (case map_of F tagM of Some r \<Rightarrow> r | None \<Rightarrow> scan_message a)
     \<and> scan_code a' = (case map_of F tagC of Some r \<Rightarrow> r | None \<Rightarrow> scan_code a)"
proof (induction buf F a rule: notice_scan_fields.induct)
  case (2 buf ty v fs a)
  have none: "k \<notin> fst ` set fs \<Longrightarrow> map_of fs k = None" for k by (simp add: map_of_eq_None_iff)
  show ?case
  proof (cases "range_empty (scan_message a) \<or> range_empty (scan_code a)")
    case False
    with "2.prems" show ?thesis by (auto simp: none split: if_splits)
  next
    case True
    with 2 show ?thesis
      by (auto simp: notice_protocol_err_def none split: if_splits cong: option.case_cong)
  qed
qed simp

lemma notice_scan_keeps_severity:
  "notice_scan_fields buf F a = Ok a' \<Longrightarrow> tagV \<notin> fst ` set F \<Longrightarrow> severity_v a' = severity_v a"
proof (induction buf F a rule: notice_scan_fields.induct)
  case (2 buf ty v fs a)
  then show ?case by (auto simp: notice_protocol_err_def split: if_splits)
qed simp

lemma notice_scan_severity:
  assumes "notice_scan_fields buf (F @ (tagV, v) # G) a = Ok a'"
    and "distinct (map fst (F @ (tagV, v) # G))"
    and "tagM \<notin> fst ` set F" "tagC \<notin> fst ` set F" "range_empty (scan_message a)"
  shows "\<exists>s. severity_try_from (slice buf v) = Ok s \<and> severity_v a' = Some s"
  using assms
proof (induction F arbitrary: a)
  case Nil
  then show ?case
    by (auto simp: notice_protocol_err_def dest: notice_scan_keeps_severity split: if_splits)
next
  case (Cons f F)
  then show ?case
    by (cases f) (auto simp: notice_protocol_err_def split: if_splits)
qed

lemma notice_scan_Ok:
  "list_all (\<lambda>(t, v). valid_utf8 (slice buf v)
       \<and> (t = tagV \<longrightarrow> (\<exists>s. severity_try_from (slice buf v) = Ok s))) F
   \<Longrightarrow> \<exists>a'. notice_scan_fields buf F a = Ok a'"
proof (induction buf F a rule: notice_scan_fields.induct)
  case (2 buf ty v fs a)
  then show ?case by (auto split: if_splits)
qed simp

lemma rmap_Panic_iff: "rmap f r = Panic \<longleftrightarrow> r = Panic"
  by (cases r) auto

context bytes_contract
begin

lemma memchr_bound: "memchr B x b = Some i \<Longrightarrow> i < length b"
  using memchr_absent [of x b] memchr_found by (cases "x \<in> set b") (auto dest!: split_list_first)

lemma fields_in_storage: "list_all (in_storage st \<circ> snd) (fields_from B st offset)"
proof (induction "length st - offset" arbitrary: offset rule: less_induct)
  case less
  then show ?case
    by (subst fields_from.simps)
      (auto simp: Let_def in_storage_def dest!: memchr_bound split: option.splits)
qed

lemma fields_from_bytes:
  assumes "list_all (\<lambda>(t, v). t \<noteq> 0 \<and> 0 \<notin> set v) fs"
    and "st = pre @ notice_bytes fs @ [0]"
  shows "map (\<lambda>(t, r). (t, slice st r)) (fields_from B st (length pre)) = fs"
  using assms
proof (induction fs arbitrary: pre)
  case Nil
  then show ?case by (subst fields_from.simps) (simp add: notice_bytes_def nth_append)
next
  case (Cons f fs)
  obtain t v where f: "f = (t, v)" by force
  let ?pre = "pre @ t # v @ [0]"
  have st: "st = ?pre @ notice_bytes fs @ [0]" using Cons.prems f by (simp add: notice_bytes_def)
  have IH: "map (\<lambda>(t, r). (t, slice st r)) (fields_from B st (length ?pre)) = fs"
    using Cons.prems st by (intro Cons.IH) simp_all
  have tv: "t \<noteq> 0" "0 \<notin> set v" using Cons.prems f by auto
  have "memchr B 0 (drop (Suc (length pre)) st) = Some (length v)"
    using tv memchr_found [of 0 v "notice_bytes fs @ [0]"] st by simp
  then have "fields_from B st (length pre) =
      (t, (Suc (length pre), Suc (length pre) + length v)) # fields_from B st (length ?pre)"
    using tv st by (subst fields_from.simps) (simp add: Let_def nth_append)
  moreover have "slice st (Suc (length pre), Suc (length pre) + length v) = v"
    using st by (simp add: slice_def)
  ultimately show ?case using IH f by simp
qed

lemma notice_decode_good:
  "notice_decode B buf = Ok n \<Longrightarrow> notice_storage n = buf
     \<and> good_range buf (message_range n) \<and> good_range buf (code_range n)"
  using notice_scan_good [OF _ fields_in_storage]
  by (cases "notice_scan_fields buf (fields_from B buf 0)
         \<lparr>severity_v = None, severity_s = None, scan_message = (0, 0), scan_code = (0, 0)\<rparr>")
    (auto simp: notice_decode_def)

end

lemma first_filter_map_of:
  "(case filter (\<lambda>(f, r). f = k) F of [] \<Rightarrow> None | (f, r) # _ \<Rightarrow> Some (g r)) =
   map_of (map (\<lambda>(t, r). (t, g r)) F) k"
  by (induction F) auto

lemma split_tag:
  assumes "map (\<lambda>(t, r). (t, g r)) F = fs1 @ (t, v) # fs2"
  obtains F1 r F2 where "F = F1 @ (t, r) # F2" "g r = v" "fst ` set F1 = fst ` set fs1"
proof -
  from assms obtain F1 x F2 where F: "F = F1 @ x # F2" "map (\<lambda>(t, r). (t, g r)) F1 = fs1"
      "(case x of (t, r) \<Rightarrow> (t, g r)) = (t, v)"
    by (auto simp: map_eq_append_conv map_eq_Cons_conv)
  have "fst ` set F1 = fst ` set fs1" unfolding F(2) [symmetric] by (simp add: image_image case_prod_beta)
  with F show ?thesis by (cases x) (auto intro: that)
qed

lemma notice_roundtrip:
  assumes B: "bytes_contract B" and fs: "valid_fields fs"
  shows "\<exists>n. notice_decode B (notice_bytes fs @ [0]) = Ok n
      \<and> notice_message n = Ok (case map_of fs tagM of Some v \<Rightarrow> v | None \<Rightarrow> [])
      \<and> notice_code n = Ok (case map_of fs tagC of Some v \<Rightarrow> v | None \<Rightarrow> [])
      \<and> (\<forall>t. notice_get_raw B n t = map_of fs t)
      \<and> (\<forall>fs1 v fs2. fs = fs1 @ (tagV, v) # fs2 \<longrightarrow> tagM \<notin> fst ` set fs1 \<longrightarrow> tagC \<notin> fst ` set fs1
          \<longrightarrow> severity_try_from v = Ok (severity n))"
proof -
  define st where "st = notice_bytes fs @ [0]"
  define F where "F = fields_from B st 0"
  let ?a = "\<lparr>severity_v = None, severity_s = None, scan_message = (0, 0), scan_code = (0, 0)\<rparr>"
  have "list_all (\<lambda>(t, v). t \<noteq> 0 \<and> 0 \<notin> set v) fs"
    using fs by (auto simp: valid_fields_def list_all_iff)
  from bytes_contract.fields_from_bytes [OF B this, of st "[]"]
  have F: "fs = map (\<lambda>(t, r). (t, slice st r)) F" by (simp add: st_def F_def)
  have dist: "distinct (map fst F)"
    using fs by (simp add: valid_fields_def F comp_def case_prod_beta)
  have mo: "map_of fs k = map_option (slice st) (map_of F k)" for k
    by (simp add: F map_of_map)
  have "list_all (\<lambda>(t, v). valid_utf8 v \<and> (t = tagV \<longrightarrow> (\<exists>s. severity_try_from v = Ok s))) fs"
    using fs by (auto simp: valid_fields_def list_all_iff)
  then have "list_all (\<lambda>(t, r). valid_utf8 (slice st r)
       \<and> (t = tagV \<longrightarrow> (\<exists>s. severity_try_from (slice st r) = Ok s))) F"
    unfolding F by (auto simp: list_all_iff)
  then obtain a where a: "notice_scan_fields st F ?a = Ok a" using notice_scan_Ok by blast
  define n where "n = \<lparr>notice_storage = st,
      severity = (case severity_v a of Some s \<Rightarrow> s
         | None \<Rightarrow> (case severity_s a of Some s \<Rightarrow> s | None \<Rightarrow> SevLog)),
      message_range = scan_message a, code_range = scan_code a\<rparr>"
  have n: "notice_decode B st = Ok n" "notice_storage n = st"
      "message_range n = scan_message a" "code_range n = scan_code a"
      "\<And>s. severity_v a = Some s \<Longrightarrow> severity n = s"
    using a by (simp_all add: notice_decode_def n_def F_def)
  note good = bytes_contract.notice_decode_good [OF B n(1)]
  have "scan_message a = (case map_of F tagM of Some r \<Rightarrow> r | None \<Rightarrow> (0, 0))"
    "scan_code a = (case map_of F tagC of Some r \<Rightarrow> r | None \<Rightarrow> (0, 0))"
    using notice_scan_ranges [OF a dist] by (simp_all add: range_empty_def cong: option.case_cong)
  then have "notice_message n = Ok (case map_of fs tagM of Some v \<Rightarrow> v | None \<Rightarrow> [])"
    "notice_code n = Ok (case map_of fs tagC of Some v \<Rightarrow> v | None \<Rightarrow> [])"
    using good n by (auto simp: notice_message_def notice_code_def get_cached_str_good mo slice_def
        split: option.splits)
  moreover have "notice_get_raw B n t = map_of fs t" for t
    using first_filter_map_of [where k = t and F = F and g = "slice st"] unfolding notice_get_raw_def n(2) F F_def [symmetric] .
  moreover have "severity_try_from v = Ok (severity n)"
    if h: "fs = fs1 @ (tagV, v) # fs2" "tagM \<notin> fst ` set fs1" "tagC \<notin> fst ` set fs1" for fs1 v fs2
  proof -
    obtain F1 r F2 where r: "F = F1 @ (tagV, r) # F2" "slice st r = v" "fst ` set F1 = fst ` set fs1"
      using split_tag [OF trans [OF F [symmetric] h(1)]] by blast
    show ?thesis
      using notice_scan_severity [OF a [unfolded r(1)] dist [unfolded r(1)]] h(2,3) r n(5)
      by (auto simp: range_empty_def)
  qed
  ultimately show ?thesis using n(1) unfolding st_def by blast
qed

text \<open>An error or notice response of well-formed fields decodes, whatever their order:
  the message and code are the values of the \<^verbatim>\<open>M\<close> and \<^verbatim>\<open>C\<close> fields (empty when absent),
  every field is found under its tag, and the severity is the unlocalized one when it comes before
  them.  On any bytes at all decoding does not panic, and neither do the accessors of a
  decoded notice, which unwrap the UTF-8 check.\<close>

theorem notice_fields:
  assumes "bytes_contract B"
  shows "(valid_fields fs \<longrightarrow> (\<exists>n. notice_decode B (notice_bytes fs @ [0]) = Ok n
      \<and> notice_message n = Ok (case map_of fs tagM of Some v \<Rightarrow> v | None \<Rightarrow> [])
      \<and> notice_code n = Ok (case map_of fs tagC of Some v \<Rightarrow> v | None \<Rightarrow> [])
      \<and> (\<forall>t. notice_get_raw B n t = map_of fs t)
      \<and> (\<forall>fs1 v fs2. fs = fs1 @ (tagV, v) # fs2 \<longrightarrow> tagM \<notin> fst ` set fs1 \<longrightarrow> tagC \<notin> fst ` set fs1
          \<longrightarrow> severity_try_from v = Ok (severity n))))
    \<and> notice_decode B buf \<noteq> Panic
    \<and> (\<forall>n. notice_decode B buf = Ok n \<longrightarrow> (\<exists>m c. notice_message n = Ok m \<and> notice_code n = Ok c))"
proof (intro conjI impI allI)
  show "notice_decode B buf \<noteq> Panic"
    by (simp add: notice_decode_def rmap_Panic_iff notice_scan_no_panic)
qed (use notice_roundtrip [OF assms] bytes_contract.notice_decode_good [OF assms] in
    \<open>auto simp: notice_message_def notice_code_def get_cached_str_good\<close>)

theorem notice_fields_witness:
  "valid_fields [(tagV, ascii ''ERROR''), (tagC, ascii ''42P01''), (tagM, ascii ''no table'')]
   \<and> (\<exists>n. notice_decode list_bytes
         (notice_bytes [(tagV, ascii ''ERROR''), (tagC, ascii ''42P01''), (tagM, ascii ''no table'')] @ [0]) = Ok n
      \<and> notice_message n = Ok (ascii ''no table'') \<and> notice_code n = Ok (ascii ''42P01''))"
proof -
  have "valid_fields [(tagV, ascii ''ERROR''), (tagC, ascii ''42P01''), (tagM, ascii ''no table'')]"
    by (simp add: valid_fields_def ascii_def severity_try_from_def)
  with notice_fields [OF list_cursor.bytes_contract_axioms,
      of "[(tagV, ascii ''ERROR''), (tagC, ascii ''42P01''), (tagM, ascii ''no table'')]" "[]"]
  show ?thesis by auto
qed

subsection \<open>Command tags and SASL\<close>

text \<open>The number of affected rows is the number after the last space of the command tag,
  as the server writes it (\<^verbatim>\<open>INSERT 0 1214\<close>, \<^verbatim>\<open>UPDATE 5\<close>); a tag with no space, or
  one whose last word does not start with a digit, gives zero.\<close>

theorem rows_affected_of_tag:
  assumes "text_crates T"
  shows "(n < 2 ^ 64 \<longrightarrow> rows_affected T (p @ 32 # ascii (dec_string n) @ [0]) = Ok (of_nat n))
    \<and> (32 \<notin> set tag \<longrightarrow> rows_affected T tag = Ok 0)
    \<and> (32 \<notin> set w \<longrightarrow> w \<noteq> [] \<longrightarrow> \<not> digit_byte (hd w) \<longrightarrow> hd w \<noteq> 43 \<longrightarrow> hd w \<noteq> 45
        \<longrightarrow> rows_affected T (p @ 32 # w) = Ok 0)"
proof -
  have "32 \<notin> set (ascii (dec_string n) @ [0 :: u8])"
    using digit_byte_ascii [of n] by (auto simp: list_all_iff digit_byte_def)
  then show ?thesis
    using text_crates.memrchr_found [OF assms] text_crates.memrchr_absent [OF assms]
      text_crates.atoi_decimal [OF assms, of n "[0]"] text_crates.atoi_other [OF assms, of w]
    by (auto simp: rows_affected_def digit_byte_def)
qed


text \<open>An implementation of the text crates on lists that satisfies the contract.\<close>

definition list_atoi :: "bytes \<Rightarrow> u64 option" where
  "list_atoi b =
     (let ds = takeWhile digit_byte b in
      if ds = [] then None
      else let n = dec_value (map (\<lambda>d. char_of (unat d)) ds) in
           if n < 2 ^ 64 then Some (of_nat n) else None)"

definition list_memrchr :: "u8 \<Rightarrow> bytes \<Rightarrow> nat option" where
  "list_memrchr x b = map_option (\<lambda>i. length b - Suc i) (index_of x (rev b))"

definition list_text :: text_api where
  "list_text = \<lparr>atoi_u64 = list_atoi, atoi_u32 = (\<lambda>b. map_option ucast (list_atoi b)),
     memrchr = list_memrchr, base64_decode = Some\<rparr>"

lemma list_atoi_decimal:
  assumes "n < 2 ^ 64" and "r = [] \<or> \<not> digit_byte (hd r)"
  shows "list_atoi (ascii (dec_string n) @ r) = Some (of_nat n)"
proof -
  have "takeWhile digit_byte (ascii (dec_string n) @ r) = ascii (dec_string n)"
    using digit_byte_ascii [of n] assms(2) by (cases r) (auto simp: list_all_iff takeWhile_append2)
  moreover have "ascii (dec_string n) \<noteq> []" by (subst dec_string.simps) (simp add: ascii_def)
  moreover have "map (\<lambda>d. char_of (unat d)) (ascii (dec_string n)) = dec_string n"
    by (simp add: ascii_def unat_of_nat comp_def map_idI)
  ultimately show ?thesis using assms(1) by (simp add: list_atoi_def Let_def)
qed

interpretation list_text_crates: text_crates list_text
proof
  show "x \<notin> set r \<Longrightarrow> memrchr list_text x (p @ x # r) = Some (length p)" for x r p
    by (simp add: list_text_def list_memrchr_def index_of_found [of x "rev r" "rev p", simplified])
  show "x \<notin> set b \<Longrightarrow> memrchr list_text x b = None" for x b
    by (simp add: list_text_def list_memrchr_def index_of_absent)
  show "b = [] \<or> \<not> digit_byte (hd b) \<and> hd b \<noteq> 43 \<and> hd b \<noteq> 45 \<Longrightarrow> atoi_u64 list_text b = None" for b
    by (cases b) (auto simp: list_text_def list_atoi_def)
qed (simp add: list_text_def list_atoi_decimal)

theorem rows_affected_of_tag_witness:
  "rows_affected list_text (ascii ''INSERT 0'' @ 32 # ascii (dec_string 1214) @ [0]) = Ok 1214"
  using rows_affected_of_tag [OF list_text_crates.text_crates_axioms, of 1214 "ascii ''INSERT 0''" "[]" "[]"]
  by simp

text \<open>The SASL messages are split at commas and every item is indexed without a check:
  an item shorter than two bytes (an empty message, a trailing comma), which only the server
  chooses, makes the client panic during authentication.\<close>

theorem sasl_short_item_panics:
  assumes "bytes_contract B" and "item \<in> set (split_on 44 msg)" and "length item < 2"
    and "\<forall>i \<in> set (split_on 44 msg). i ! 0 \<in> {115, 118} \<longrightarrow> base64_decode T (drop 2 i) \<noteq> None"
  shows "authentication_decode B T (to_be_bytes (11 :: u32) @ msg) = Panic
    \<and> authentication_decode B T (to_be_bytes (12 :: u32) @ msg) = Panic"
proof -
  have "sasl_continue_items T items a = Panic" "sasl_final_items T items v = Panic"
    if "item \<in> set items"
      "\<forall>i \<in> set items. i ! 0 \<in> {115, 118} \<longrightarrow> base64_decode T (drop 2 i) \<noteq> None" for items a v
    using that
  proof (induction items arbitrary: a v)
    case (Cons i items)
    {
      case 1
      with Cons.IH assms(3) show ?case
        by (cases "2 \<le> length i")
          (auto simp: item_key_value_def rassert_def split: option.splits)
    next
      case 2
      with Cons.IH assms(3) show ?case
        by (cases "2 \<le> length i")
          (auto simp: item_key_value_def rassert_def split: option.splits)
    }
  qed simp_all
  note this [OF assms(2,4)]
  then show ?thesis
    by (simp add: authentication_decode_def sasl_continue_decode_def sasl_final_decode_def
        bytes_contract.get_u32_append [OF assms(1)])
qed

theorem sasl_short_item_panics_witness:
  "authentication_decode list_bytes list_text (to_be_bytes (11 :: u32) @ ascii ''r=x,'') = Panic"
  using sasl_short_item_panics [OF list_cursor.bytes_contract_axioms, of "[]" "ascii ''r=x,''" list_text]
  by (simp add: ascii_def list_text_def)

end
