(* ===== verification/Tx_Core.thy ===== *)
theory Tx_Core
  imports Prelude
begin

section \<open>Transactions: \<^verbatim>\<open>sqlx-core/src/transaction.rs\<close>\<close>

text \<open>
  A future is a state transformer that is also given the number of awaits its caller lets
  complete before dropping it; it returns the state at that point, the awaits left over,
  and \<open>None\<close> when it was dropped.  Running the destructors of the locals of a dropped
  future is part of its definition.

  The database is a parameter \<open>server\<close>: what it does with a statement, and whether it is
  in a transaction.  The locale \<open>savepoint_server\<close> states the documented meaning of
  \<^verbatim>\<open>BEGIN\<close>, \<^verbatim>\<open>SAVEPOINT\<close>, \<^verbatim>\<open>RELEASE SAVEPOINT\<close>, \<^verbatim>\<open>ROLLBACK TO SAVEPOINT\<close>,
  \<^verbatim>\<open>COMMIT\<close> and \<^verbatim>\<open>ROLLBACK\<close>.  A backend provides a \<open>manager\<close>; the locale
  \<open>tx_manager\<close> says that it implements nested transactions as a stack of snapshots, and
  derives that for every program of the \<^verbatim>\<open>Transaction\<close> type.
\<close>

subsection \<open>Futures that may be dropped\<close>

type_synonym ('s, 'a) async = "nat \<Rightarrow> 's \<Rightarrow> 's \<times> nat \<times> 'a result option"

definition aret :: "'a result \<Rightarrow> ('s, 'a) async" where
  "aret r k s = (s, k, Some r)"

definition abind :: "('s, 'a) async \<Rightarrow> ('a \<Rightarrow> ('s, 'b) async) \<Rightarrow> ('s, 'b) async" where
  "abind m f k s =
     (case m k s of
        (s', k', Some (Ok x)) \<Rightarrow> f x k' s'
      | (s', k', Some (Err e)) \<Rightarrow> (s', k', Some (Err e))
      | (s', k', Some Panic) \<Rightarrow> (s', k', Some Panic)
      | (s', k', None) \<Rightarrow> (s', k', None))"

definition amodify :: "('s \<Rightarrow> 's) \<Rightarrow> ('s, unit) async" where
  "amodify f k s = (f s, k, Some (Ok ()))"

text \<open>An await during which the state changes by \<open>f\<close>.\<close>

definition await :: "('s \<Rightarrow> 's \<times> 'a result) \<Rightarrow> ('s, 'a) async" where
  "await f k s = (case k of 0 \<Rightarrow> (s, 0, None) | Suc k' \<Rightarrow> (case f s of (s', r) \<Rightarrow> (s', k', Some r)))"

text \<open>A local with a destructor: it runs unless the body returns \<^verbatim>\<open>Ok\<close>, which disarms it.\<close>

definition guarded :: "('s \<Rightarrow> 's) \<Rightarrow> ('s, unit) async \<Rightarrow> ('s, unit) async" where
  "guarded fin m k s =
     (case m k s of
        (s', k', Some (Ok u)) \<Rightarrow> (s', k', Some (Ok u))
      | (s', k', r) \<Rightarrow> (fin s', k', r))"

subsection \<open>Statements\<close>

definition savepoint_name :: "nat \<Rightarrow> string" where
  "savepoint_name n = ''_sqlx_savepoint_'' @ dec_string n"

definition begin_ansi_transaction_sql :: "nat \<Rightarrow> string" where
  "begin_ansi_transaction_sql depth =
     (if depth = 0 then ''BEGIN'' else ''SAVEPOINT '' @ savepoint_name depth)"

definition commit_ansi_transaction_sql :: "nat \<Rightarrow> string" where
  "commit_ansi_transaction_sql depth =
     (if depth = 1 then ''COMMIT'' else ''RELEASE SAVEPOINT '' @ savepoint_name (depth - 1))"

definition rollback_ansi_transaction_sql :: "nat \<Rightarrow> string" where
  "rollback_ansi_transaction_sql depth =
     (if depth = 1 then ''ROLLBACK'' else ''ROLLBACK TO SAVEPOINT '' @ savepoint_name (depth - 1))"

subsection \<open>Managers and the \<^verbatim>\<open>Transaction\<close> type\<close>

record 'c manager =
  mgr_begin :: "string option \<Rightarrow> ('c, unit) async"
  mgr_commit :: "('c, unit) async"
  mgr_rollback :: "('c, unit) async"
  mgr_start_rollback :: "'c \<Rightarrow> 'c"

definition transaction_begin :: "'c manager \<Rightarrow> string option \<Rightarrow> ('c, unit) async" where
  "transaction_begin M statement = mgr_begin M statement"

text \<open>\<^verbatim>\<open>commit\<close> and \<^verbatim>\<open>rollback\<close> own the transaction: on an error, or when dropped, it is
  still open and its destructor starts a rollback.\<close>

definition transaction_drop :: "'c manager \<Rightarrow> 'c \<Rightarrow> 'c" where
  "transaction_drop M c = mgr_start_rollback M c"

definition transaction_commit :: "'c manager \<Rightarrow> ('c, unit) async" where
  "transaction_commit M = guarded (transaction_drop M) (mgr_commit M)"

definition transaction_rollback :: "'c manager \<Rightarrow> ('c, unit) async" where
  "transaction_rollback M = guarded (transaction_drop M) (mgr_rollback M)"

subsection \<open>Nested transactions, abstractly\<close>

datatype tx_op = TxBegin | TxCommit | TxRollback | TxDrop | TxRun string

text \<open>The open transactions' snapshots, innermost first, and the current data.\<close>

fun spec_op :: "(string \<Rightarrow> 'd \<Rightarrow> 'd) \<Rightarrow> tx_op \<Rightarrow> 'd list \<times> 'd \<Rightarrow> ('d list \<times> 'd) option" where
  "spec_op eff TxBegin (ss, d) = Some (d # ss, d)"
| "spec_op eff TxCommit (s # ss, d) = Some (ss, d)"
| "spec_op eff TxRollback (s # ss, d) = Some (ss, s)"
| "spec_op eff TxDrop (s # ss, d) = Some (ss, s)"
| "spec_op eff (TxRun q) (ss, d) = Some (ss, eff q d)"
| "spec_op eff op _ = None"

primrec spec_ops :: "(string \<Rightarrow> 'd \<Rightarrow> 'd) \<Rightarrow> tx_op list \<Rightarrow> 'd list \<times> 'd \<Rightarrow> ('d list \<times> 'd) option" where
  "spec_ops eff [] st = Some st"
| "spec_ops eff (op # ops) st = Option.bind (spec_op eff op st) (spec_ops eff ops)"

primrec run_op :: "'c manager \<Rightarrow> (string \<Rightarrow> ('c, unit) async) \<Rightarrow> tx_op \<Rightarrow> ('c, unit) async" where
  "run_op M ex TxBegin = transaction_begin M None"
| "run_op M ex TxCommit = transaction_commit M"
| "run_op M ex TxRollback = transaction_rollback M"
| "run_op M ex TxDrop = amodify (transaction_drop M)"
| "run_op M ex (TxRun q) = ex q"

primrec run_ops :: "'c manager \<Rightarrow> (string \<Rightarrow> ('c, unit) async) \<Rightarrow> tx_op list \<Rightarrow> ('c, unit) async" where
  "run_ops M ex [] = aret (Ok ())"
| "run_ops M ex (op # ops) = abind (run_op M ex op) (\<lambda>_. run_ops M ex ops)"

definition plain_op :: "string set \<Rightarrow> tx_op \<Rightarrow> bool" where
  "plain_op Q op \<longleftrightarrow> (case op of TxRun q \<Rightarrow> q \<in> Q | _ \<Rightarrow> True)"

text \<open>\<open>completes m c c'\<close>: given enough awaits, \<open>m\<close> returns \<^verbatim>\<open>Ok\<close> in state \<open>c'\<close>.\<close>

definition completes :: "('s, 'a) async \<Rightarrow> 's \<Rightarrow> 'a \<Rightarrow> 's \<Rightarrow> bool" where
  "completes m c x c' \<longleftrightarrow> (\<exists>n. \<forall>k. m (n + k) c = (c', k, Some (Ok x)))"

lemma completes_aret: "completes (aret (Ok x)) c x c"
  unfolding completes_def by (rule exI [of _ 0]) (simp add: aret_def)

lemma completes_amodify: "completes (amodify f) c () (f c)"
  unfolding completes_def by (rule exI [of _ 0]) (simp add: amodify_def)

lemma completes_await: "f c = (c', Ok x) \<Longrightarrow> completes (await f) c x c'"
  unfolding completes_def by (rule exI [of _ 1]) (simp add: await_def)

lemma completes_abind:
  assumes "completes m c x c1" and "completes (f x) c1 y c2"
  shows "completes (abind m f) c y c2"
proof -
  obtain n1 n2 where "\<And>k. m (n1 + k) c = (c1, k, Some (Ok x))" "\<And>k. f x (n2 + k) c1 = (c2, k, Some (Ok y))"
    using assms by (auto simp: completes_def)
  then have "\<forall>k. abind m f (n1 + n2 + k) c = (c2, k, Some (Ok y))"
    by (simp add: abind_def add.assoc)
  then show ?thesis by (auto simp: completes_def)
qed

lemma completes_guarded: "completes m c () c' \<Longrightarrow> completes (guarded fin m) c () c'"
proof -
  assume "completes m c () c'"
  then obtain n where "\<And>k. m (n + k) c = (c', k, Some (Ok ()))" by (auto simp: completes_def)
  then have "\<forall>k. guarded fin m (n + k) c = (c', k, Some (Ok ()))" by (simp add: guarded_def)
  then show ?thesis by (auto simp: completes_def)
qed

lemma abind_aret [simp]: "abind (aret (Ok x)) f = f x"
  by (intro ext) (simp add: abind_def aret_def)

lemma spec_op_length: "spec_op eff op (ss, d) = Some (ss', d') \<Longrightarrow> length ss' \<le> Suc (length ss)"
  by (cases "(eff, op, ss, d)" rule: spec_op.cases) auto

locale tx_manager =
  fixes M :: "'c manager" and ex :: "string \<Rightarrow> ('c, unit) async"
    and R :: "'d list \<Rightarrow> 'd \<Rightarrow> 'c \<Rightarrow> bool"
    and eff :: "string \<Rightarrow> 'd \<Rightarrow> 'd" and plain :: "string set" and max_depth :: nat
  assumes mgr_begin_ok: "R ss d c \<Longrightarrow> length ss < max_depth \<Longrightarrow> \<exists>c'. completes (mgr_begin M None) c () c' \<and> R (d # ss) d c'"
    and mgr_commit_ok: "R (s # ss) d c \<Longrightarrow> \<exists>c'. completes (mgr_commit M) c () c' \<and> R ss d c'"
    and mgr_rollback_ok: "R (s # ss) d c \<Longrightarrow> \<exists>c'. completes (mgr_rollback M) c () c' \<and> R ss s c'"
    and mgr_start_rollback_ok: "R (s # ss) d c \<Longrightarrow> R ss s (mgr_start_rollback M c)"
    and ex_ok: "q \<in> plain \<Longrightarrow> R ss d c \<Longrightarrow> \<exists>c'. completes (ex q) c () c' \<and> R ss (eff q d) c'"
begin

lemma run_op_refines:
  assumes "R ss d c" and "spec_op eff op (ss, d) = Some (ss', d')" and "plain_op plain op"
    and "length ss < max_depth"
  shows "\<exists>c'. completes (run_op M ex op) c () c' \<and> R ss' d' c'"
proof (cases op)
  case TxBegin
  with assms mgr_begin_ok [of ss d c] show ?thesis by (auto simp: transaction_begin_def)
next
  case (TxRun q)
  with assms ex_ok [of q ss d c] show ?thesis by (auto simp: plain_op_def)
next
  case TxCommit
  with assms show ?thesis
    by (cases ss) (auto simp: transaction_commit_def dest!: mgr_commit_ok intro: completes_guarded)
next
  case TxRollback
  with assms show ?thesis
    by (cases ss) (auto simp: transaction_rollback_def dest!: mgr_rollback_ok intro: completes_guarded)
next
  case TxDrop
  with assms mgr_start_rollback_ok completes_amodify [of "transaction_drop M" c] show ?thesis
    by (cases ss) (auto simp: transaction_drop_def)
qed

lemma run_ops_refines:
  assumes "R ss d c" and "spec_ops eff ops (ss, d) = Some (ss', d')" and "list_all (plain_op plain) ops"
    and "length ss + length ops \<le> max_depth"
  shows "\<exists>c'. completes (run_ops M ex ops) c () c' \<and> R ss' d' c'"
  using assms
proof (induction ops arbitrary: ss d c)
  case Nil
  then show ?case by (auto intro: completes_aret)
next
  case (Cons op ops)
  then obtain ss1 d1 where 1: "spec_op eff op (ss, d) = Some (ss1, d1)"
      "spec_ops eff ops (ss1, d1) = Some (ss', d')"
    by (auto simp: bind_eq_Some_conv)
  obtain c1 where c1: "completes (run_op M ex op) c () c1" "R ss1 d1 c1"
    using run_op_refines [OF Cons.prems(1) 1(1)] Cons.prems(3,4) by auto
  obtain c2 where "completes (run_ops M ex ops) c1 () c2" "R ss' d' c2"
    using Cons.IH [OF c1(2) 1(2)] Cons.prems(3,4) spec_op_length [OF 1(1)] by auto
  with completes_abind [OF c1(1), of "\<lambda>_. run_ops M ex ops"] show ?case by auto
qed

end

subsection \<open>Servers with savepoints\<close>

record 's server =
  exec :: "string \<Rightarrow> 's \<Rightarrow> 's \<times> bool"
  in_tx :: "'s \<Rightarrow> bool"
  aborted :: "'s \<Rightarrow> bool"

text \<open>
  A server's transaction is a stack of frames, innermost first: the outermost one has no name,
  the others are savepoints; each remembers the data at its start.  Setting a savepoint whose
  name is in use keeps the old one (PostgreSQL, SQLite) or deletes it (MySQL).
\<close>

locale savepoint_server =
  fixes S :: "'s server" and frames :: "'s \<Rightarrow> (string option \<times> 'd) list" and data :: "'s \<Rightarrow> 'd"
    and keeps :: bool and eff :: "string \<Rightarrow> 'd \<Rightarrow> 'd" and plain :: "string set"
  assumes in_tx_frames: "in_tx S s \<longleftrightarrow> frames s \<noteq> []"
    and exec_begin: "frames s = [] \<Longrightarrow> \<not> aborted S s \<Longrightarrow> \<exists>s'. exec S ''BEGIN'' s = (s', True)
      \<and> frames s' = [(None, data s)] \<and> data s' = data s \<and> \<not> aborted S s'"
    and exec_savepoint: "frames s \<noteq> [] \<Longrightarrow> \<not> aborted S s \<Longrightarrow> \<exists>s'. exec S (''SAVEPOINT '' @ n) s = (s', True)
      \<and> frames s' = (Some n, data s) # filter (\<lambda>f. keeps \<or> fst f \<noteq> Some n) (frames s)
      \<and> data s' = data s \<and> \<not> aborted S s'"
    and exec_release: "frames s = up @ (Some n, x) # rest \<Longrightarrow> Some n \<notin> fst ` set up \<Longrightarrow> \<not> aborted S s
      \<Longrightarrow> \<exists>s'. exec S (''RELEASE SAVEPOINT '' @ n) s = (s', True)
      \<and> frames s' = rest \<and> data s' = data s \<and> \<not> aborted S s'"
    and exec_rollback_to: "frames s = up @ (Some n, x) # rest \<Longrightarrow> Some n \<notin> fst ` set up
      \<Longrightarrow> \<exists>s'. exec S (''ROLLBACK TO SAVEPOINT '' @ n) s = (s', True)
      \<and> frames s' = (Some n, x) # rest \<and> data s' = x \<and> \<not> aborted S s'"
    and exec_commit: "frames s \<noteq> [] \<Longrightarrow> \<not> aborted S s \<Longrightarrow> \<exists>s'. exec S ''COMMIT'' s = (s', True)
      \<and> frames s' = [] \<and> data s' = data s \<and> \<not> aborted S s'"
    and exec_rollback: "frames s = up @ [(m, x)] \<Longrightarrow> \<exists>s'. exec S ''ROLLBACK'' s = (s', True)
      \<and> frames s' = [] \<and> data s' = x \<and> \<not> aborted S s'"
    and exec_plain: "q \<in> plain \<Longrightarrow> \<not> aborted S s \<Longrightarrow> \<exists>s'. exec S q s = (s', True)
      \<and> frames s' = frames s \<and> data s' = eff q (data s) \<and> \<not> aborted S s'"

definition frame_name :: "nat \<Rightarrow> string option" where
  "frame_name d = (if d = 0 then None else Some (savepoint_name d))"

text \<open>
  \<^verbatim>\<open>ROLLBACK TO SAVEPOINT\<close> leaves the savepoint itself in place, so the frames of a
  connection at depth \<open>d\<close> are those of its open transactions and, anywhere above them,
  left-over savepoints with the number of the depth they were opened at.
\<close>

inductive nested :: "nat \<Rightarrow> 'd list \<Rightarrow> (string option \<times> 'd) list \<Rightarrow> bool" where
  nested_none: "nested 0 [] []"
| nested_open: "nested d ss fs \<Longrightarrow> nested (Suc d) (x # ss) ((frame_name d, x) # fs)"
| nested_left: "nested d ss fs \<Longrightarrow> 0 < d \<Longrightarrow> d \<le> k \<Longrightarrow> nested d ss ((Some (savepoint_name k), x) # fs)"

inductive_cases nested_0E: "nested 0 ss fs"
inductive_cases nested_SucE: "nested (Suc d) ss fs"

lemma savepoint_name_inject [simp]: "savepoint_name m = savepoint_name n \<longleftrightarrow> m = n"
  by (simp add: savepoint_name_def)

lemma nested_0: "nested 0 ss fs \<longleftrightarrow> ss = [] \<and> fs = []"
  by (auto intro: nested_none elim: nested_0E)

lemma nested_length: "nested d ss fs \<Longrightarrow> length ss = d"
  by (induction rule: nested.induct) auto

lemma nested_Suc_ne: "nested (Suc d) ss fs \<Longrightarrow> fs \<noteq> []"
  by (auto elim: nested_SucE)

lemma nested_split:
  assumes "nested d ss fs" and "d = Suc e"
  shows "\<exists>x ss' up rest. ss = x # ss' \<and> fs = up @ (frame_name e, x) # rest \<and> nested e ss' rest
    \<and> (\<forall>f \<in> set up. \<exists>k \<ge> Suc e. fst f = Some (savepoint_name k))"
  using assms
proof (induction rule: nested.induct)
  case (nested_open d ss fs x)
  then show ?case
    by (intro exI [of _ x] exI [of _ ss] exI [of _ "[]"] exI [of _ fs]) simp
next
  case (nested_left d ss fs k x)
  then obtain y ss' up rest where "ss = y # ss'" "fs = up @ (frame_name e, y) # rest" "nested e ss' rest"
      "\<forall>f \<in> set up. \<exists>k \<ge> Suc e. fst f = Some (savepoint_name k)"
    by blast
  with nested_left.hyps nested_left.prems show ?case
    by (intro exI [of _ y] exI [of _ ss'] exI [of _ "(Some (savepoint_name k), x) # up"] exI [of _ rest])
      auto
qed simp

lemma frame_name_neq: "d < j \<Longrightarrow> frame_name d \<noteq> Some (savepoint_name j)"
  by (simp add: frame_name_def)

lemma nested_filter:
  "nested d ss fs \<Longrightarrow> d \<le> j \<Longrightarrow> 0 < j \<Longrightarrow>
   nested d ss (filter (\<lambda>f. c \<or> fst f \<noteq> Some (savepoint_name j)) fs)"
  by (induction rule: nested.induct) (auto simp: frame_name_neq intro: nested.intros)

context savepoint_server
begin

definition tracks :: "'d list \<Rightarrow> 'd \<Rightarrow> 's \<Rightarrow> bool" where
  "tracks ss d s \<longleftrightarrow> nested (length ss) ss (frames s) \<and> data s = d \<and> \<not> aborted S s"

lemma tracks_begin:
  assumes "tracks ss d s"
  shows "\<exists>s'. exec S (begin_ansi_transaction_sql (length ss)) s = (s', True) \<and> tracks (d # ss) d s' \<and> in_tx S s'"
proof (cases "ss = []")
  case True
  then have "frames s = []" "\<not> aborted S s" "data s = d" using assms by (auto simp: tracks_def nested_0)
  then obtain s' where s': "exec S ''BEGIN'' s = (s', True)" "frames s' = [(frame_name 0, d)]" "data s' = d"
      "\<not> aborted S s'"
    using exec_begin by (auto simp: frame_name_def)
  have "tracks [d] d s'" unfolding tracks_def using s' nested_open [OF nested_none, of d] by simp
  with s' True show ?thesis by (auto simp: begin_ansi_transaction_sql_def in_tx_frames)
next
  case False
  then obtain e where e: "length ss = Suc e" by (cases ss) auto
  then have n: "nested (length ss) ss (frames s)" "\<not> aborted S s" "data s = d" "frames s \<noteq> []"
    using assms nested_Suc_ne [of e ss] by (auto simp: tracks_def)
  obtain s' where s': "exec S (''SAVEPOINT '' @ savepoint_name (length ss)) s = (s', True)"
      "frames s' = (frame_name (length ss), d)
         # filter (\<lambda>f. keeps \<or> fst f \<noteq> Some (savepoint_name (length ss))) (frames s)"
      "data s' = d" "\<not> aborted S s'"
    using exec_savepoint [OF n(4,2), of "savepoint_name (length ss)"] n(3) False
    by (auto simp: frame_name_def)
  have "nested (length (d # ss)) (d # ss) (frames s')"
    unfolding s'(2) using n(1) False by (simp add: nested_open nested_filter)
  with s' False show ?thesis by (auto simp: begin_ansi_transaction_sql_def tracks_def in_tx_frames)
qed

lemma tracks_frames:
  assumes "nested (length (x # ss)) (x # ss) (frames s)"
  obtains up rest where "frames s = up @ (frame_name (length ss), x) # rest" "nested (length ss) ss rest"
    "Some (savepoint_name (length ss)) \<notin> fst ` set up"
  using nested_split [OF assms, of "length ss"] by fastforce

lemma tracks_commit:
  assumes "tracks (x # ss) d s"
  shows "\<exists>s'. exec S (commit_ansi_transaction_sql (Suc (length ss))) s = (s', True) \<and> tracks ss d s'"
proof -
  have n: "nested (length (x # ss)) (x # ss) (frames s)" "\<not> aborted S s" "data s = d"
    using assms by (auto simp: tracks_def)
  obtain up rest where f: "frames s = up @ (frame_name (length ss), x) # rest"
      "nested (length ss) ss rest" "Some (savepoint_name (length ss)) \<notin> fst ` set up"
    using tracks_frames [OF n(1)] .
  show ?thesis
  proof (cases "ss = []")
    case True
    then show ?thesis using f n exec_commit [of s]
      by (auto simp: commit_ansi_transaction_sql_def tracks_def nested_0)
  next
    case False
    then show ?thesis using f n exec_release [OF _ f(3), of s x rest]
      by (auto simp: commit_ansi_transaction_sql_def tracks_def frame_name_def)
  qed
qed

lemma tracks_rollback:
  assumes "nested (length (x # ss)) (x # ss) (frames s)"
  shows "\<exists>s'. exec S (rollback_ansi_transaction_sql (Suc (length ss))) s = (s', True) \<and> tracks ss x s'"
proof -
  obtain up rest where f: "frames s = up @ (frame_name (length ss), x) # rest"
      "nested (length ss) ss rest" "Some (savepoint_name (length ss)) \<notin> fst ` set up"
    using tracks_frames [OF assms] .
  show ?thesis
  proof (cases "ss = []")
    case True
    then show ?thesis using f exec_rollback [of s up]
      by (auto simp: rollback_ansi_transaction_sql_def tracks_def nested_0)
  next
    case False
    then have "nested (length ss) ss ((frame_name (length ss), x) # rest)"
      using f(2) nested_left [OF f(2), of "length ss" x] by (simp add: frame_name_def)
    with False show ?thesis using f exec_rollback_to [OF _ f(3), of s x rest]
      by (auto simp: rollback_ansi_transaction_sql_def tracks_def frame_name_def)
  qed
qed

lemma tracks_plain:
  "q \<in> plain \<Longrightarrow> tracks ss d s \<Longrightarrow> \<exists>s'. exec S q s = (s', True) \<and> tracks ss (eff q d) s'"
  using exec_plain [of q s] by (auto simp: tracks_def)

lemma tracks_in_tx: "tracks ss d s \<Longrightarrow> in_tx S s \<longleftrightarrow> ss \<noteq> []"
  by (cases ss) (auto simp: tracks_def in_tx_frames nested_0 dest: nested_Suc_ne)

end

subsection \<open>A reference server\<close>

text \<open>A server that keeps the list of the plain statements in effect, for witnesses.\<close>

record ref_state =
  rs_frames :: "(string option \<times> string list) list"
  rs_data :: "string list"
  rs_aborted :: bool

definition ref_fail :: "ref_state \<Rightarrow> ref_state \<times> bool" where
  "ref_fail s = (s\<lparr>rs_aborted := rs_frames s \<noteq> []\<rparr>, False)"

definition ref_end :: "bool \<Rightarrow> ref_state \<Rightarrow> ref_state \<times> bool" where
  "ref_end undo s =
     (if rs_frames s = [] then s
      else s\<lparr>rs_frames := [], rs_aborted := False,
             rs_data := (if undo then snd (last (rs_frames s)) else rs_data s)\<rparr>, True)"

definition ref_after :: "string \<Rightarrow> string \<Rightarrow> string option" where
  "ref_after p q = (if take (length p) q = p then Some (drop (length p) q) else None)"

definition ref_to_savepoint :: "string \<Rightarrow> (ref_state \<Rightarrow> (string option \<times> string list) list \<Rightarrow> ref_state) \<Rightarrow> ref_state \<Rightarrow> ref_state \<times> bool" where
  "ref_to_savepoint n f s =
     (case dropWhile (\<lambda>fr. fst fr \<noteq> Some n) (rs_frames s) of
        [] \<Rightarrow> ref_fail s
      | fs \<Rightarrow> (f s fs, True))"

definition ref_exec :: "bool \<Rightarrow> string \<Rightarrow> ref_state \<Rightarrow> ref_state \<times> bool" where
  "ref_exec keeps q s =
     (if q = ''BEGIN'' then
        (if rs_frames s = [] then s\<lparr>rs_frames := [(None, rs_data s)]\<rparr> else s, True)
      else if q = ''COMMIT'' then ref_end (rs_aborted s) s
      else if q = ''ROLLBACK'' then ref_end True s
      else case ref_after ''ROLLBACK TO SAVEPOINT '' q of
        Some n \<Rightarrow> ref_to_savepoint n
          (\<lambda>s fs. s\<lparr>rs_frames := fs, rs_data := snd (hd fs), rs_aborted := False\<rparr>) s
      | None \<Rightarrow>
      if rs_aborted s then ref_fail s
      else case ref_after ''RELEASE SAVEPOINT '' q of
        Some n \<Rightarrow> ref_to_savepoint n (\<lambda>s fs. s\<lparr>rs_frames := tl fs\<rparr>) s
      | None \<Rightarrow>
      (case ref_after ''SAVEPOINT '' q of
        Some n \<Rightarrow>
          if rs_frames s = [] then ref_fail s
          else (s\<lparr>rs_frames := (Some n, rs_data s) # filter (\<lambda>f. keeps \<or> fst f \<noteq> Some n) (rs_frames s)\<rparr>, True)
      | None \<Rightarrow> (s\<lparr>rs_data := rs_data s @ [q]\<rparr>, True)))"

definition ref_server :: "bool \<Rightarrow> ref_state server" where
  "ref_server keeps = \<lparr>exec = ref_exec keeps, in_tx = (\<lambda>s. rs_frames s \<noteq> []), aborted = rs_aborted\<rparr>"

definition ref_plain :: "string \<Rightarrow> bool" where
  "ref_plain q \<longleftrightarrow> q \<notin> {''BEGIN'', ''COMMIT'', ''ROLLBACK''} \<and> ref_after ''ROLLBACK TO SAVEPOINT '' q = None
     \<and> ref_after ''RELEASE SAVEPOINT '' q = None \<and> ref_after ''SAVEPOINT '' q = None"

lemma dropWhile_frame:
  "Some n \<notin> fst ` set up \<Longrightarrow>
   dropWhile (\<lambda>fr. fst fr \<noteq> Some n) (up @ (Some n, x) # rest) = (Some n, x) # rest"
  by (subst dropWhile_append2) force+

interpretation ref: savepoint_server "ref_server keeps" rs_frames rs_data keeps
    "\<lambda>q d. d @ [q]" "{q. ref_plain q}" for keeps
proof
  fix s :: ref_state and up n x rest
  assume "rs_frames s = up @ (Some n, x) # rest" "Some n \<notin> fst ` set up"
  then have "dropWhile (\<lambda>fr. fst fr \<noteq> Some n) (rs_frames s) = (Some n, x) # rest"
    by (simp add: dropWhile_frame)
  then show
    "\<not> aborted (ref_server keeps) s \<Longrightarrow>
       \<exists>s'. exec (ref_server keeps) (''RELEASE SAVEPOINT '' @ n) s = (s', True)
       \<and> rs_frames s' = rest \<and> rs_data s' = rs_data s \<and> \<not> aborted (ref_server keeps) s'"
    "\<exists>s'. exec (ref_server keeps) (''ROLLBACK TO SAVEPOINT '' @ n) s = (s', True)
       \<and> rs_frames s' = (Some n, x) # rest \<and> rs_data s' = x \<and> \<not> aborted (ref_server keeps) s'"
    by (simp_all add: ref_server_def ref_exec_def ref_after_def ref_to_savepoint_def)
qed (auto simp: ref_server_def ref_exec_def ref_after_def ref_end_def ref_plain_def split: option.splits)

end
