(* ===== verification/Pg_Connection.thy ===== *)
theory Pg_Connection
  imports Pg_Backend Tx_Core
begin

section \<open>The PostgreSQL connection: \<^verbatim>\<open>sqlx-postgres/src/connection\<close> and \<^verbatim>\<open>transaction.rs\<close>\<close>

text \<open>
  The stream delivers framed messages; \<^verbatim>\<open>recv\<close> handles the asynchronous ones itself.  The
  connection queues messages in its write buffer and counts the \<^verbatim>\<open>ReadyForQuery\<close> messages
  it has still to read.  The server is a parameter: \<open>answer\<close> writes down what the protocol
  prescribes it to send for a simple query or a \<^verbatim>\<open>Sync\<close>.  Flushing the write buffer and
  receiving one message are awaits.  The arithmetic of \<^verbatim>\<open>parse_server_version\<close> is checked, as in
  a build with overflow checks.
\<close>

subsection \<open>Receiving\<close>

definition parse_u32 :: "bytes \<Rightarrow> u32 option" where
  "parse_u32 ds = map_option of_nat (parse_unsigned 32 ds)"

text \<open>The scan: the rest of the text, the segment since the last dot, the parts so far.\<close>

fun version_parts :: "bytes \<Rightarrow> bytes \<Rightarrow> u32 list \<Rightarrow> u32 list" where
  "version_parts [] seg parts = parts"
| "version_parts (ch # chs) seg parts =
     (if ch = 46 then
        (case parse_u32 seg of Some num \<Rightarrow> version_parts chs [] (parts @ [num]) | None \<Rightarrow> parts)
      else if digit_byte ch then
        (if chs = [] then (case parse_u32 (seg @ [ch]) of Some num \<Rightarrow> parts @ [num] | None \<Rightarrow> parts)
         else version_parts chs (seg @ [ch]) parts)
      else (case parse_u32 seg of Some num \<Rightarrow> parts @ [num] | None \<Rightarrow> parts))"

definition checked_u32 :: "nat \<Rightarrow> u32 option result" where
  "checked_u32 n = (if n < 2 ^ 32 then Ok (Some (of_nat n)) else Panic)"

definition parse_server_version :: "bytes \<Rightarrow> u32 option result" where
  "parse_server_version s =
     (case version_parts s [] [] of
        [major, minor, r] \<Rightarrow> checked_u32 ((100 * unat major + unat minor) * 100 + unat r)
      | [major, minor] \<Rightarrow>
          if 10 \<le> major then checked_u32 (100 * 100 * unat major + unat minor)
          else checked_u32 ((100 * unat major + unat minor) * 100)
      | [major] \<Rightarrow> checked_u32 (100 * 100 * unat major)
      | _ \<Rightarrow> Ok None)"

record pg_stream =
  rx :: "received_message list"
  notifications :: "notification list option"
  parameter_statuses :: "bytes \<rightharpoonup> bytes"
  server_version_num :: "u32 option"

definition database_error :: "notice \<Rightarrow> error" where
  "database_error n =
     Database (slice (notice_storage n) (code_range n)) (slice (notice_storage n) (message_range n))"

text \<open>\<^verbatim>\<open>PgStream::recv\<close>; \<open>None\<close> while it waits for more data.\<close>

fun recv_loop :: "bytes_api \<Rightarrow> received_message list \<Rightarrow> pg_stream \<Rightarrow> pg_stream \<times> received_message result option" where
  "recv_loop B [] st = (st\<lparr>rx := []\<rparr>, None)"
| "recv_loop B (m # ms) st =
     (let stop = (\<lambda>r. (st\<lparr>rx := ms\<rparr>, Some r)) in
      case msg_format m of
        ErrorResponse \<Rightarrow>
          stop (rbind (message_decode ErrorResponse (notice_decode B) m) (\<lambda>n. Err (database_error n)))
      | NotificationResponse \<Rightarrow>
          (case notifications st of
             None \<Rightarrow> stop (Ok m)
           | Some buffer \<Rightarrow>
               (case message_decode NotificationResponse (notification_decode B) m of
                  Ok n \<Rightarrow> recv_loop B ms (st\<lparr>notifications := Some (buffer @ [n])\<rparr>)
                | Err e \<Rightarrow> stop (Err e)
                | Panic \<Rightarrow> stop Panic))
      | ParameterStatus \<Rightarrow>
          (case message_decode ParameterStatus (parameter_status_decode B) m of
             Ok (name, val) \<Rightarrow>
               if name = ascii ''server_version'' then
                 (case parse_server_version val of
                    Ok v \<Rightarrow> recv_loop B ms (st\<lparr>server_version_num := v\<rparr>)
                  | Err e \<Rightarrow> stop (Err e)
                  | Panic \<Rightarrow> stop Panic)
               else recv_loop B ms (st\<lparr>parameter_statuses := (parameter_statuses st)(name \<mapsto> val)\<rparr>)
           | Err e \<Rightarrow> stop (Err e)
           | Panic \<Rightarrow> stop Panic)
      | NoticeResponse \<Rightarrow>
          (case message_decode NoticeResponse (notice_decode B) m of
             Ok n \<Rightarrow> recv_loop B ms st
           | Err e \<Rightarrow> stop (Err e)
           | Panic \<Rightarrow> stop Panic)
      | _ \<Rightarrow> stop (Ok m))"

definition recv :: "bytes_api \<Rightarrow> pg_stream \<Rightarrow> pg_stream \<times> received_message result option" where
  "recv B st = recv_loop B (rx st) st"

subsection \<open>The connection\<close>

datatype out_msg = OutQuery string | OutSync

record 's pg_conn =
  pg_server :: 's
  write_buffer :: "out_msg list"
  stream :: pg_stream
  pending_ready_for_query_count :: nat
  transaction_status :: TransactionStatus
  transaction_depth :: nat

definition status_byte :: "TransactionStatus \<Rightarrow> u8" where
  "status_byte t = (case t of Idle \<Rightarrow> 73 | Transaction \<Rightarrow> 84 | TxError \<Rightarrow> 69)"

definition ready_message :: "TransactionStatus \<Rightarrow> received_message" where
  "ready_message t = \<lparr>msg_format = ReadyForQuery, contents = [status_byte t]\<rparr>"

definition complete_message :: received_message where
  "complete_message = \<lparr>msg_format = CommandComplete, contents = [79, 75, 0]\<rparr>"

definition error_message :: received_message where
  "error_message = \<lparr>msg_format = ErrorResponse,
     contents = notice_bytes [(tagV, ascii ''ERROR''), (tagC, ascii ''25P02''), (tagM, ascii ''failed'')] @ [0]\<rparr>"

definition server_status :: "'s server \<Rightarrow> 's \<Rightarrow> TransactionStatus" where
  "server_status S s = (if aborted S s then TxError else if in_tx S s then Transaction else Idle)"

primrec answer :: "'s server \<Rightarrow> out_msg \<Rightarrow> 's \<Rightarrow> 's \<times> received_message list" where
  "answer S (OutQuery q) s =
     (case exec S q s of (s', ok) \<Rightarrow>
        (s', [if ok then complete_message else error_message, ready_message (server_status S s')]))"
| "answer S OutSync s = (s, [ready_message (server_status S s)])"

primrec answers :: "'s server \<Rightarrow> out_msg list \<Rightarrow> 's \<Rightarrow> 's \<times> received_message list" where
  "answers S [] s = (s, [])"
| "answers S (q # qs) s =
     (case answer S q s of (s1, r1) \<Rightarrow> case answers S qs s1 of (s2, r2) \<Rightarrow> (s2, r1 @ r2))"

definition flush_buffer :: "'s server \<Rightarrow> 's pg_conn \<Rightarrow> 's pg_conn \<times> unit result" where
  "flush_buffer S c =
     (case answers S (write_buffer c) (pg_server c) of (s, ms) \<Rightarrow>
        (c\<lparr>pg_server := s, write_buffer := [], stream := (stream c)\<lparr>rx := rx (stream c) @ ms\<rparr>\<rparr>, Ok ()))"

definition flush :: "'s server \<Rightarrow> ('s pg_conn, unit) async" where
  "flush S = await (flush_buffer S)"

definition handle_ready_for_query :: "received_message \<Rightarrow> 's pg_conn \<Rightarrow> 's pg_conn \<times> unit result" where
  "handle_ready_for_query m c =
     (if pending_ready_for_query_count c = 0
      then (c, Err (Protocol ''received more ReadyForQuery messages than expected''))
      else
        let c = c\<lparr>pending_ready_for_query_count := pending_ready_for_query_count c - 1\<rparr> in
        case message_decode ReadyForQuery ready_for_query_decode m of
          Ok t \<Rightarrow> (c\<lparr>transaction_status := t\<rparr>, Ok ())
        | Err e \<Rightarrow> (c, Err e)
        | Panic \<Rightarrow> (c, Panic))"

fun wait_loop :: "bytes_api \<Rightarrow> ('s pg_conn, unit) async" where
  "wait_loop B 0 c = (if pending_ready_for_query_count c = 0 then (c, 0, Some (Ok ())) else (c, 0, None))"
| "wait_loop B (Suc k) c =
     (if pending_ready_for_query_count c = 0 then (c, Suc k, Some (Ok ()))
      else case recv B (stream c) of
          (st, None) \<Rightarrow> (c\<lparr>stream := st\<rparr>, 0, None)
        | (st, Some (Err e)) \<Rightarrow> (c\<lparr>stream := st\<rparr>, k, Some (Err e))
        | (st, Some Panic) \<Rightarrow> (c\<lparr>stream := st\<rparr>, k, Some Panic)
        | (st, Some (Ok m)) \<Rightarrow>
            if msg_format m = ReadyForQuery then
              (case handle_ready_for_query m (c\<lparr>stream := st\<rparr>) of
                 (c, Ok _) \<Rightarrow> wait_loop B k c
               | (c, Err e) \<Rightarrow> (c, k, Some (Err e))
               | (c, Panic) \<Rightarrow> (c, k, Some Panic))
            else wait_loop B k (c\<lparr>stream := st\<rparr>))"

definition wait_until_ready :: "bytes_api \<Rightarrow> 's server \<Rightarrow> ('s pg_conn, unit) async" where
  "wait_until_ready B S k c =
     (if write_buffer c = [] then wait_loop B k c
      else abind (flush S) (\<lambda>_. wait_loop B) k c)"

text \<open>The \<^verbatim>\<open>Query\<close> message has a length prefix of 31 bits.\<close>

definition queue_simple_query :: "string \<Rightarrow> 's pg_conn \<Rightarrow> 's pg_conn \<times> unit result" where
  "queue_simple_query q c =
     (if length q + 1 + 4 < 2 ^ 31
      then (c\<lparr>write_buffer := write_buffer c @ [OutQuery q],
              pending_ready_for_query_count := pending_ready_for_query_count c + 1\<rparr>, Ok ())
      else (c, Err (Protocol ''message size out of range for protocol'')))"

definition write_sync :: "'s pg_conn \<Rightarrow> 's pg_conn" where
  "write_sync c =
     c\<lparr>write_buffer := write_buffer c @ [OutSync],
       pending_ready_for_query_count := pending_ready_for_query_count c + 1\<rparr>"

definition ping :: "bytes_api \<Rightarrow> 's server \<Rightarrow> ('s pg_conn, unit) async" where
  "ping B S = abind (amodify write_sync) (\<lambda>_. wait_until_ready B S)"

definition in_transaction :: "'s pg_conn \<Rightarrow> bool" where
  "in_transaction c \<longleftrightarrow> transaction_status c = Transaction"

definition sync :: "('s \<Rightarrow> 's \<times> 'a result) \<Rightarrow> ('s, 'a) async" where
  "sync f k c = (case f c of (c', r) \<Rightarrow> (c', k, Some r))"

text \<open>\<^verbatim>\<open>PgConnection::run\<close> for a query without arguments, its rows discarded.\<close>

fun run_loop :: "bytes_api \<Rightarrow> ('s pg_conn, unit) async" where
  "run_loop B 0 c = (c, 0, None)"
| "run_loop B (Suc k) c =
     (case recv B (stream c) of
        (st, None) \<Rightarrow> (c\<lparr>stream := st\<rparr>, 0, None)
      | (st, Some (Err e)) \<Rightarrow> (c\<lparr>stream := st\<rparr>, k, Some (Err e))
      | (st, Some Panic) \<Rightarrow> (c\<lparr>stream := st\<rparr>, k, Some Panic)
      | (st, Some (Ok m)) \<Rightarrow>
          let c = c\<lparr>stream := st\<rparr>; go = (\<lambda>r. case r of Ok _ \<Rightarrow> run_loop B k c
                | Err e \<Rightarrow> (c, k, Some (Err e)) | Panic \<Rightarrow> (c, k, Some Panic)) in
          if msg_format m \<in> {BindComplete, ParseComplete, ParameterDescription, NoData, CloseComplete,
               CommandComplete, EmptyQueryResponse, PortalSuspended} then run_loop B k c
          else if msg_format m = RowDescription then
            go (rmap (\<lambda>_. ()) (message_decode RowDescription (row_description_decode B) m))
          else if msg_format m = DataRow then go (rmap (\<lambda>_. ()) (message_decode DataRow data_row_decode m))
          else if msg_format m = ReadyForQuery then
            (case handle_ready_for_query m c of (c, r) \<Rightarrow> (c, k, Some r))
          else (c, k, Some (Err (Protocol ''execute: unexpected message''))))"

definition execute :: "bytes_api \<Rightarrow> 's server \<Rightarrow> string \<Rightarrow> ('s pg_conn, unit) async" where
  "execute B S q =
     abind (wait_until_ready B S) (\<lambda>_.
     abind (sync (queue_simple_query q)) (\<lambda>_.
     abind (flush S) (\<lambda>_. run_loop B)))"

subsection \<open>\<^verbatim>\<open>PgTransactionManager\<close>\<close>

definition pg_start_rollback :: "'s pg_conn \<Rightarrow> 's pg_conn" where
  "pg_start_rollback c =
     (if 0 < transaction_depth c then
        (fst (queue_simple_query (rollback_ansi_transaction_sql (transaction_depth c)) c))
          \<lparr>transaction_depth := transaction_depth c - 1\<rparr>
      else c)"

definition pg_begin :: "bytes_api \<Rightarrow> 's server \<Rightarrow> string option \<Rightarrow> ('s pg_conn, unit) async" where
  "pg_begin B S stmt k c =
     (let depth = transaction_depth c in
      if stmt \<noteq> None \<and> 0 < depth then (c, k, Some (Err InvalidSavePointStatement))
      else
        let sql = (case stmt of Some q \<Rightarrow> q | None \<Rightarrow> begin_ansi_transaction_sql depth) in
        guarded pg_start_rollback
          (abind (sync (queue_simple_query sql)) (\<lambda>_.
           abind (wait_until_ready B S) (\<lambda>_.
           sync (\<lambda>c. if \<not> in_transaction c then (c, Err BeginFailed)
                      else (c\<lparr>transaction_depth := transaction_depth c + 1\<rparr>, Ok ()))))) k c)"

definition pg_finish :: "(nat \<Rightarrow> string) \<Rightarrow> bytes_api \<Rightarrow> 's server \<Rightarrow> ('s pg_conn, unit) async" where
  "pg_finish sql B S k c =
     (if 0 < transaction_depth c then
        abind (execute B S (sql (transaction_depth c))) (\<lambda>_.
          amodify (\<lambda>c. c\<lparr>transaction_depth := transaction_depth c - 1\<rparr>)) k c
      else (c, k, Some (Ok ())))"

definition pg_commit :: "bytes_api \<Rightarrow> 's server \<Rightarrow> ('s pg_conn, unit) async" where
  "pg_commit B S = pg_finish commit_ansi_transaction_sql B S"

definition pg_rollback :: "bytes_api \<Rightarrow> 's server \<Rightarrow> ('s pg_conn, unit) async" where
  "pg_rollback B S = pg_finish rollback_ansi_transaction_sql B S"

definition pg_manager :: "bytes_api \<Rightarrow> 's server \<Rightarrow> 's pg_conn manager" where
  "pg_manager B S = \<lparr>mgr_begin = pg_begin B S, mgr_commit = pg_commit B S,
     mgr_rollback = pg_rollback B S, mgr_start_rollback = pg_start_rollback\<rparr>"


subsection \<open>Quiet connections\<close>

text \<open>A connection whose unread messages are completions, and whose queued statements succeed.\<close>

definition good_message :: "received_message \<Rightarrow> bool" where
  "good_message m \<longleftrightarrow> m = complete_message \<or> (\<exists>t. m = ready_message t)"

definition ready_count :: "received_message list \<Rightarrow> nat" where
  "ready_count ms = length (filter (\<lambda>m. msg_format m = ReadyForQuery) ms)"

definition good_rx :: "received_message list \<Rightarrow> bool" where
  "good_rx ms \<longleftrightarrow> list_all good_message ms \<and> (ms = [] \<or> msg_format (last ms) = ReadyForQuery)"

primrec all_succeed :: "'s server \<Rightarrow> out_msg list \<Rightarrow> 's \<Rightarrow> 's option" where
  "all_succeed S [] s = Some s"
| "all_succeed S (q # qs) s =
     (case q of
        OutSync \<Rightarrow> all_succeed S qs s
      | OutQuery x \<Rightarrow> (case exec S x s of (s', ok) \<Rightarrow> if ok then all_succeed S qs s' else None))"

definition quiet :: "'s server \<Rightarrow> 's pg_conn \<Rightarrow> 's \<Rightarrow> bool" where
  "quiet S c s \<longleftrightarrow> good_rx (rx (stream c))
     \<and> ready_count (rx (stream c)) + length (write_buffer c) = pending_ready_for_query_count c
     \<and> all_succeed S (write_buffer c) (pg_server c) = Some s"

fun last_status :: "received_message list \<Rightarrow> TransactionStatus \<Rightarrow> TransactionStatus" where
  "last_status [] t = t"
| "last_status (m # ms) t =
     last_status ms (case ready_for_query_decode (contents m) of
        Ok t' \<Rightarrow> if msg_format m = ReadyForQuery then t' else t | _ \<Rightarrow> t)"

definition settled :: "'s pg_conn \<Rightarrow> 's \<Rightarrow> TransactionStatus \<Rightarrow> 's pg_conn" where
  "settled c s t = c\<lparr>pg_server := s, write_buffer := [], stream := (stream c)\<lparr>rx := []\<rparr>,
     pending_ready_for_query_count := 0, transaction_status := t\<rparr>"

lemma ready_message_sel [simp]:
  "msg_format (ready_message t) = ReadyForQuery" "msg_format complete_message = CommandComplete"
  "ready_for_query_decode (contents (ready_message t)) = Ok t"
  "message_decode ReadyForQuery ready_for_query_decode (ready_message t) = Ok t"
  by (cases t; simp add: ready_message_def complete_message_def ready_for_query_decode_def
      status_byte_def message_decode_def)+

lemma ready_count_simps [simp]:
  "ready_count [] = 0" "ready_count (a @ b) = ready_count a + ready_count b"
  "ready_count (m # ms) = (if msg_format m = ReadyForQuery then Suc (ready_count ms) else ready_count ms)"
  by (simp_all add: ready_count_def)

lemma recv_good:
  "rx st = m # ms \<Longrightarrow> good_message m \<Longrightarrow> recv B st = (st\<lparr>rx := ms\<rparr>, Some (Ok m))"
  by (auto simp: recv_def good_message_def)

lemma good_rx_Cons: "good_rx (m # ms) \<Longrightarrow> good_message m \<and> good_rx ms"
  by (auto simp: good_rx_def split: if_splits)

lemma good_rx_unready: "good_rx ms \<Longrightarrow> ready_count ms = 0 \<Longrightarrow> ms = []"
  by (cases ms rule: rev_cases) (auto simp: good_rx_def)

lemma answers_succeed:
  "all_succeed S qs s = Some s' \<Longrightarrow>
   \<exists>ms. answers S qs s = (s', ms) \<and> good_rx ms \<and> ready_count ms = length qs
     \<and> (qs \<noteq> [] \<longrightarrow> (\<forall>t. last_status ms t = server_status S s'))"
proof (induction qs arbitrary: s)
  case (Cons q qs)
  show ?case
  proof (cases q)
    case (OutQuery x)
    obtain s1 where s1: "exec S x s = (s1, True)" "all_succeed S qs s1 = Some s'"
      using Cons.prems by (auto simp: OutQuery split: prod.splits if_splits)
    with Cons.IH [OF s1(2)] show ?thesis
      by (cases qs) (auto simp: OutQuery good_rx_def good_message_def complete_message_def)
  next
    case OutSync
    with Cons.IH [of s] Cons.prems show ?thesis
      by (cases qs) (auto simp: good_rx_def good_message_def)
  qed
qed (auto simp: good_rx_def)

lemma last_status_append: "last_status (a @ b) t = last_status b (last_status a t)"
  by (induction a arbitrary: t) auto

lemma wait_loop_settles:
  assumes "good_rx (rx (stream c))" and "ready_count (rx (stream c)) = pending_ready_for_query_count c"
  shows "wait_loop B (length (rx (stream c)) + k) c =
    (c\<lparr>stream := (stream c)\<lparr>rx := []\<rparr>, pending_ready_for_query_count := 0,
       transaction_status := last_status (rx (stream c)) (transaction_status c)\<rparr>, k, Some (Ok ()))"
  using assms
proof (induction "rx (stream c)" arbitrary: c)
  case Nil
  then have "rx (stream c) = []" "pending_ready_for_query_count c = 0" by simp_all
  then show ?case by (cases k) simp_all
next
  case (Cons m ms)
  have rx: "rx (stream c) = m # ms" using Cons.hyps(2) by simp
  have m: "good_message m" "good_rx ms" using Cons.prems(1) rx good_rx_Cons by simp_all
  have pos: "0 < pending_ready_for_query_count c"
    using good_rx_unready [of "m # ms"] Cons.prems rx by (cases "pending_ready_for_query_count c") simp_all
  let ?c = "c\<lparr>stream := (stream c)\<lparr>rx := ms\<rparr>\<rparr>"
  from m(1) consider "m = complete_message" | t where "m = ready_message t"
    by (auto simp: good_message_def)
  then show ?case
  proof cases
    case 1
    have "wait_loop B (length ms + k) ?c = (?c\<lparr>stream := (stream ?c)\<lparr>rx := []\<rparr>, pending_ready_for_query_count := 0,
       transaction_status := last_status ms (transaction_status ?c)\<rparr>, k, Some (Ok ()))"
      using Cons.hyps(1) [of ?c] Cons.prems m(2) rx 1 by simp
    then show ?thesis using pos rx 1 recv_good [OF rx m(1), of B]
      by (simp add: complete_message_def split: result.splits)
  next
    case 2
    let ?d = "?c\<lparr>pending_ready_for_query_count := pending_ready_for_query_count c - 1, transaction_status := t\<rparr>"
    have "wait_loop B (length ms + k) ?d = (?d\<lparr>stream := (stream ?d)\<lparr>rx := []\<rparr>, pending_ready_for_query_count := 0,
       transaction_status := last_status ms (transaction_status ?d)\<rparr>, k, Some (Ok ()))"
      using Cons.hyps(1) [of ?d] Cons.prems m(2) rx 2 by auto
    then show ?thesis using pos rx 2 recv_good [OF rx m(1), of B]
      by (simp add: handle_ready_for_query_def Let_def)
  qed
qed

lemma length_dec_string_le: "n < 10 ^ k \<Longrightarrow> 0 < k \<Longrightarrow> length (dec_string n) \<le> k"
proof (induction k arbitrary: n)
  case (Suc k)
  show ?case
  proof (cases "n < 10")
    case True
    then show ?thesis by (simp add: dec_string.simps [of n])
  next
    case False
    then have "n div 10 < 10 ^ k" "0 < k" using Suc.prems(1) by (auto intro: gr0I)
    with Suc.IH False show ?thesis by (simp add: dec_string.simps [of n])
  qed
qed simp

definition max_depth :: nat where
  "max_depth = 2 ^ 64"

lemma depth_string: "n \<le> max_depth \<Longrightarrow> length (dec_string n) \<le> 20"
  by (rule length_dec_string_le) (simp_all add: max_depth_def)

lemma tx_sql_fits:
  "d \<le> max_depth \<Longrightarrow> length (begin_ansi_transaction_sql d) + 1 + 4 < 2 ^ 31"
  "d \<le> max_depth \<Longrightarrow> length (commit_ansi_transaction_sql d) + 1 + 4 < 2 ^ 31"
  "d \<le> max_depth \<Longrightarrow> length (rollback_ansi_transaction_sql d) + 1 + 4 < 2 ^ 31"
proof -
  assume "d \<le> max_depth"
  then have "length (dec_string d) \<le> 20" "length (dec_string (d - 1)) \<le> 20"
    by (simp_all add: depth_string)
  then show "length (begin_ansi_transaction_sql d) + 1 + 4 < 2 ^ 31"
    "length (commit_ansi_transaction_sql d) + 1 + 4 < 2 ^ 31"
    "length (rollback_ansi_transaction_sql d) + 1 + 4 < 2 ^ 31"
    by (simp_all add: begin_ansi_transaction_sql_def commit_ansi_transaction_sql_def
        rollback_ansi_transaction_sql_def savepoint_name_def)
qed

lemma all_succeed_append:
  "all_succeed S (qs @ rs) s = Option.bind (all_succeed S qs s) (all_succeed S rs)"
  by (induction qs arbitrary: s) (auto split: out_msg.splits prod.splits)

lemma completes_sync: "f c = (c', Ok x) \<Longrightarrow> completes (sync f) c x c'"
  unfolding completes_def by (rule exI [of _ 0]) (simp add: sync_def)

lemma completes_wait_loop:
  assumes "good_rx (rx (stream c))" and "ready_count (rx (stream c)) = pending_ready_for_query_count c"
  shows "completes (wait_loop B) c () (c\<lparr>stream := (stream c)\<lparr>rx := []\<rparr>, pending_ready_for_query_count := 0,
       transaction_status := last_status (rx (stream c)) (transaction_status c)\<rparr>)"
  unfolding completes_def using wait_loop_settles [OF assms] by blast

lemma good_rx_append: "good_rx a \<Longrightarrow> good_rx b \<Longrightarrow> good_rx (a @ b)"
  by (auto simp: good_rx_def last_append)

lemma wait_settles:
  assumes "quiet S c s"
  shows "\<exists>t. completes (wait_until_ready B S) c () (settled c s t)
    \<and> (write_buffer c \<noteq> [] \<longrightarrow> t = server_status S s)"
proof (cases "write_buffer c = []")
  case True
  then have "settled c s t = c\<lparr>stream := (stream c)\<lparr>rx := []\<rparr>, pending_ready_for_query_count := 0,
      transaction_status := t\<rparr>" for t
    using assms by (cases c) (simp add: quiet_def settled_def)
  then have "completes (wait_loop B) c () (settled c s (last_status (rx (stream c)) (transaction_status c)))"
    using completes_wait_loop [of c B] assms True by (simp add: quiet_def)
  then have "completes (wait_until_ready B S) c () (settled c s (last_status (rx (stream c)) (transaction_status c)))"
    using True by (simp add: completes_def wait_until_ready_def)
  with True show ?thesis by blast
next
  case False
  obtain ms where ms: "answers S (write_buffer c) (pg_server c) = (s, ms)" "good_rx ms"
      "ready_count ms = length (write_buffer c)" "\<And>t. last_status ms t = server_status S s"
    using answers_succeed [of S "write_buffer c" "pg_server c" s] assms False by (auto simp: quiet_def)
  let ?c = "c\<lparr>pg_server := s, write_buffer := [], stream := (stream c)\<lparr>rx := rx (stream c) @ ms\<rparr>\<rparr>"
  have "completes (flush S) c () ?c"
    unfolding flush_def by (rule completes_await) (simp add: flush_buffer_def ms)
  moreover have "completes (wait_loop B) ?c () (settled c s (server_status S s))"
    using completes_wait_loop [of ?c B] assms ms
    by (simp add: quiet_def settled_def good_rx_append last_status_append)
  ultimately have "completes (abind (flush S) (\<lambda>_. wait_loop B)) c () (settled c s (server_status S s))"
    by (rule completes_abind)
  with False show ?thesis by (auto simp: completes_def wait_until_ready_def)
qed

lemma quiet_queue:
  assumes "quiet S c s" and "exec S q s = (s', True)"
  shows "quiet S (c\<lparr>write_buffer := write_buffer c @ [OutQuery q],
     pending_ready_for_query_count := pending_ready_for_query_count c + 1, transaction_depth := d\<rparr>) s'"
  using assms by (simp add: quiet_def all_succeed_append)

lemma quiet_settled: "quiet S (settled c s t) s"
  by (simp add: quiet_def settled_def good_rx_def)

lemma quiet_depth: "quiet S (c\<lparr>transaction_depth := d\<rparr>) s = quiet S c s"
  by (simp add: quiet_def)

lemma run_loop_one:
  assumes "rx (stream c) = [complete_message, ready_message t]" and "pending_ready_for_query_count c = 1"
  shows "completes (run_loop B) c () (c\<lparr>stream := (stream c)\<lparr>rx := []\<rparr>, pending_ready_for_query_count := 0,
       transaction_status := t\<rparr>)"
  unfolding completes_def
proof (intro exI allI)
  fix k
  show "run_loop B (2 + k) c = (c\<lparr>stream := (stream c)\<lparr>rx := []\<rparr>, pending_ready_for_query_count := 0,
       transaction_status := t\<rparr>, k, Some (Ok ()))"
    using assms by (simp add: numeral_2_eq_2 recv_def Let_def handle_ready_for_query_def)
qed

lemma execute_settles:
  assumes "quiet S c s" and "exec S q s = (s', True)" and "length q + 1 + 4 < 2 ^ 31"
  shows "\<exists>t. completes (execute B S q) c () (settled c s' t)"
proof -
  obtain t where 1: "completes (wait_until_ready B S) c () (settled c s t)"
    using wait_settles [OF assms(1)] by blast
  let ?c2 = "(settled c s t)\<lparr>write_buffer := [OutQuery q], pending_ready_for_query_count := 1\<rparr>"
  let ?c3 = "(settled c s' t)\<lparr>stream := (stream c)\<lparr>rx := [complete_message, ready_message (server_status S s')]\<rparr>,
      pending_ready_for_query_count := 1\<rparr>"
  have 2: "completes (sync (queue_simple_query q)) (settled c s t) () ?c2"
    using assms(3) by (intro completes_sync) (simp add: queue_simple_query_def settled_def)
  have 3: "completes (flush S) ?c2 () ?c3"
    unfolding flush_def using assms(2)
    by (intro completes_await) (simp add: flush_buffer_def settled_def)
  have 4: "completes (run_loop B) ?c3 () (settled c s' (server_status S s'))"
    using run_loop_one [of ?c3 "server_status S s'" B] by (simp add: settled_def)
  show ?thesis unfolding execute_def
    by (rule exI, rule completes_abind [OF 1], rule completes_abind [OF 2], rule completes_abind [OF 3], rule 4)
qed

subsection \<open>Nested transactions\<close>

context savepoint_server
begin

definition pg_tracks :: "'d list \<Rightarrow> 'd \<Rightarrow> 's pg_conn \<Rightarrow> bool" where
  "pg_tracks ss d c \<longleftrightarrow> transaction_depth c = length ss \<and> length ss \<le> max_depth
     \<and> (\<exists>s. quiet S c s \<and> tracks ss d s)"

lemma pg_tracksI:
  "quiet S c s \<Longrightarrow> tracks ss d s \<Longrightarrow> length ss \<le> max_depth
   \<Longrightarrow> pg_tracks ss d (c\<lparr>transaction_depth := length ss\<rparr>)"
  unfolding pg_tracks_def using quiet_depth [where S = S and c = c and d = "length ss" and s = s] by auto

lemma pg_begin_tracks:
  assumes "pg_tracks ss d c" and "length ss < max_depth"
  shows "\<exists>c'. completes (pg_begin B S None) c () c' \<and> pg_tracks (d # ss) d c'"
proof -
  obtain s where s: "quiet S c s" "tracks ss d s" "transaction_depth c = length ss"
    using assms by (auto simp: pg_tracks_def)
  let ?q = "begin_ansi_transaction_sql (length ss)"
  obtain s' where s': "exec S ?q s = (s', True)" "tracks (d # ss) d s'" "in_tx S s'"
    using tracks_begin [OF s(2)] by blast
  let ?c1 = "c\<lparr>write_buffer := write_buffer c @ [OutQuery ?q],
     pending_ready_for_query_count := pending_ready_for_query_count c + 1\<rparr>"
  have 1: "completes (sync (queue_simple_query ?q)) c () ?c1"
    using tx_sql_fits(1) [of "length ss"] assms(2)
    by (intro completes_sync) (simp add: queue_simple_query_def)
  have "quiet S ?c1 s'"
    using quiet_queue [OF s(1) s'(1), of "transaction_depth c"] by (simp add: quiet_def)
  then have 2: "completes (wait_until_ready B S) ?c1 () (settled ?c1 s' (server_status S s'))"
    using wait_settles [of S ?c1 s' B] by auto
  let ?c2 = "settled ?c1 s' (server_status S s')"
  have "in_transaction ?c2"
    using s' by (simp add: in_transaction_def settled_def server_status_def tracks_def)
  then have 3: "completes (sync (\<lambda>c. if \<not> in_transaction c then (c, Err BeginFailed)
      else (c\<lparr>transaction_depth := transaction_depth c + 1\<rparr>, Ok ()))) ?c2 ()
      (?c2\<lparr>transaction_depth := length (d # ss)\<rparr>)"
    using s(3) by (intro completes_sync) (simp add: settled_def)
  have "completes (guarded pg_start_rollback (abind (sync (queue_simple_query ?q)) (\<lambda>_.
           abind (wait_until_ready B S) (\<lambda>_.
           sync (\<lambda>c. if \<not> in_transaction c then (c, Err BeginFailed)
                      else (c\<lparr>transaction_depth := transaction_depth c + 1\<rparr>, Ok ())))))) c ()
      (?c2\<lparr>transaction_depth := length (d # ss)\<rparr>)"
    by (intro completes_guarded completes_abind [OF 1] completes_abind [OF 2] 3)
  then have "completes (pg_begin B S None) c () (?c2\<lparr>transaction_depth := length (d # ss)\<rparr>)"
    using s(3) by (simp add: completes_def pg_begin_def Let_def)
  moreover have "pg_tracks (d # ss) d (?c2\<lparr>transaction_depth := length (d # ss)\<rparr>)"
    using assms(2) by (intro pg_tracksI [OF quiet_settled s'(2)]) simp
  ultimately show ?thesis by blast
qed

lemma pg_finish_tracks:
  assumes "pg_tracks (x # ss) d c"
    and "\<And>s. tracks (x # ss) d s \<Longrightarrow> \<exists>s'. exec S (sql (Suc (length ss))) s = (s', True) \<and> tracks ss d' s'"
    and "length (sql (Suc (length ss))) + 1 + 4 < 2 ^ 31"
  shows "\<exists>c'. completes (pg_finish sql B S) c () c' \<and> pg_tracks ss d' c'"
proof -
  obtain s where s: "quiet S c s" "tracks (x # ss) d s" "transaction_depth c = Suc (length ss)"
      "length (x # ss) \<le> max_depth"
    using assms by (auto simp: pg_tracks_def)
  obtain s' where s': "exec S (sql (Suc (length ss))) s = (s', True)" "tracks ss d' s'"
    using assms(2) [OF s(2)] by blast
  obtain t where t: "completes (execute B S (sql (Suc (length ss)))) c () (settled c s' t)"
    using execute_settles [OF s(1) s'(1) assms(3)] by blast
  have "completes (abind (execute B S (sql (Suc (length ss)))) (\<lambda>_.
      amodify (\<lambda>c. c\<lparr>transaction_depth := transaction_depth c - 1\<rparr>))) c ()
      ((settled c s' t)\<lparr>transaction_depth := transaction_depth (settled c s' t) - 1\<rparr>)"
    by (rule completes_abind [OF t completes_amodify])
  then have "completes (pg_finish sql B S) c () ((settled c s' t)\<lparr>transaction_depth := length ss\<rparr>)"
    using s(3) by (simp add: completes_def pg_finish_def settled_def)
  moreover have "pg_tracks ss d' ((settled c s' t)\<lparr>transaction_depth := length ss\<rparr>)"
    using s(4) by (intro pg_tracksI [OF quiet_settled s'(2)]) simp
  ultimately show ?thesis by blast
qed

lemma pg_start_rollback_tracks:
  assumes "pg_tracks (x # ss) d c"
  shows "pg_tracks ss x (pg_start_rollback c)"
proof -
  obtain s where s: "quiet S c s" "tracks (x # ss) d s" "transaction_depth c = Suc (length ss)"
      "length (x # ss) \<le> max_depth"
    using assms by (auto simp: pg_tracks_def)
  obtain s' where s': "exec S (rollback_ansi_transaction_sql (Suc (length ss))) s = (s', True)" "tracks ss x s'"
    using tracks_rollback [of x ss s] s(2) by (auto simp: tracks_def)
  have "pg_start_rollback c = c\<lparr>write_buffer := write_buffer c @ [OutQuery (rollback_ansi_transaction_sql (Suc (length ss)))],
     pending_ready_for_query_count := pending_ready_for_query_count c + 1, transaction_depth := length ss\<rparr>"
    using s(3,4) tx_sql_fits(3) [of "Suc (length ss)"]
    by (simp add: pg_start_rollback_def queue_simple_query_def)
  then show ?thesis
    using quiet_queue [OF s(1) s'(1), of "length ss"] s'(2) s(4) unfolding pg_tracks_def by auto
qed

lemma pg_execute_tracks:
  assumes "q \<in> plain" and "length q + 1 + 4 < 2 ^ 31" and "pg_tracks ss d c"
  shows "\<exists>c'. completes (execute B S q) c () c' \<and> pg_tracks ss (eff q d) c'"
proof -
  obtain s where s: "quiet S c s" "tracks ss d s" "transaction_depth c = length ss" "length ss \<le> max_depth"
    using assms by (auto simp: pg_tracks_def)
  obtain s' where s': "exec S q s = (s', True)" "tracks ss (eff q d) s'"
    using tracks_plain [OF assms(1) s(2)] by blast
  obtain t where t: "completes (execute B S q) c () (settled c s' t)"
    using execute_settles [OF s(1) s'(1) assms(2)] by blast
  have "(settled c s' t)\<lparr>transaction_depth := length ss\<rparr> = settled c s' t"
    using s(3) by (simp add: settled_def)
  with pg_tracksI [OF quiet_settled s'(2), of c t] s(4) t show ?thesis by auto
qed

end

sublocale savepoint_server \<subseteq> pg: tx_manager "pg_manager B S" "execute B S" pg_tracks eff
    "{q \<in> plain. length q + 1 + 4 < 2 ^ 31}" max_depth for B
proof
  fix x ss d c
  assume c: "pg_tracks (x # ss) d c"
  then have "Suc (length ss) \<le> max_depth" by (simp add: pg_tracks_def)
  note fits = tx_sql_fits(2) [OF this] tx_sql_fits(3) [OF this]
  show "\<exists>c'. completes (mgr_commit (pg_manager B S)) c () c' \<and> pg_tracks ss d c'"
    using pg_finish_tracks [where sql = commit_ansi_transaction_sql and B = B, OF c tracks_commit fits(1)] by (simp add: pg_manager_def pg_commit_def)
  show "\<exists>c'. completes (mgr_rollback (pg_manager B S)) c () c' \<and> pg_tracks ss x c'"
    using pg_finish_tracks [where sql = rollback_ansi_transaction_sql and d' = x and B = B, OF c _ fits(2)]
      tracks_rollback
    by (simp add: pg_manager_def pg_rollback_def tracks_def)
qed (simp_all add: pg_manager_def pg_begin_tracks pg_start_rollback_tracks pg_execute_tracks)

definition idle_conn :: "'s pg_conn \<Rightarrow> bool" where
  "idle_conn c \<longleftrightarrow> write_buffer c = [] \<and> rx (stream c) = [] \<and> pending_ready_for_query_count c = 0
     \<and> transaction_depth c = 0"

lemma nested_bottom: "nested d ss fs \<Longrightarrow> 0 < d \<Longrightarrow> \<exists>up. fs = up @ [(None, last ss)]"
proof (induction rule: nested.induct)
  case (nested_open d ss fs x)
  show ?case
  proof (cases d)
    case 0
    with nested_open show ?thesis by (simp add: nested_0 frame_name_def)
  next
    case (Suc e)
    with nested_open obtain up where "fs = up @ [(None, last ss)]" "ss \<noteq> []"
      using nested_length by fastforce
    then show ?thesis by (intro exI [of _ "(frame_name d, x) # up"]) simp
  qed
next
  case (nested_left d ss fs k x)
  then obtain up where "fs = up @ [(None, last ss)]" by blast
  then show ?case by (intro exI [of _ "(Some (savepoint_name k), x) # up"]) simp
qed simp

context savepoint_server
begin

lemma pg_tracks_idle:
  assumes "idle_conn c" and "frames (pg_server c) = []" and "\<not> aborted S (pg_server c)"
  shows "pg_tracks [] (data (pg_server c)) c"
  using assms by (auto simp: pg_tracks_def idle_conn_def quiet_def good_rx_def tracks_def nested_0)

lemma pg_tracks_settles:
  assumes "pg_tracks ss d c"
  shows "\<exists>c'. completes (wait_until_ready B S) c () c' \<and> tracks ss d (pg_server c')"
proof -
  obtain s where "quiet S c s" "tracks ss d s" using assms by (auto simp: pg_tracks_def)
  with wait_settles [of S c s B] show ?thesis by (auto simp: settled_def)
qed

lemma pg_nested:
  assumes "idle_conn c" and "frames (pg_server c) = []" and "\<not> aborted S (pg_server c)"
    and "spec_ops eff ops ([], data (pg_server c)) = Some (ss, d)"
    and "list_all (plain_op {q \<in> plain. length q + 1 + 4 < 2 ^ 31}) ops" and "length ops \<le> 2 ^ 64"
  shows "\<exists>c' c''. completes (run_ops (pg_manager B S) (execute B S) ops) c () c'
    \<and> transaction_depth c' = length ss
    \<and> completes (wait_until_ready B S) c' () c''
    \<and> data (pg_server c'') = d \<and> nested (length ss) ss (frames (pg_server c''))"
proof -
  obtain c' where c': "completes (run_ops (pg_manager B S) (execute B S) ops) c () c'" "pg_tracks ss d c'"
    using pg.run_ops_refines [OF pg_tracks_idle [OF assms(1-3)] assms(4,5)] assms(6)
    by (auto simp: max_depth_def)
  then show ?thesis
    using pg_tracks_settles [OF c'(2), of B] by (auto simp: pg_tracks_def tracks_def)
qed

lemma pg_cancelled_savepoint:
  assumes "pg_tracks [x] d c"
  shows "\<exists>c1 c2. pg_begin B S None 0 c = (c1, 0, None)
    \<and> transaction_commit (pg_manager B S) k c1 = (c1, k, Some (Ok ()))
    \<and> completes (wait_until_ready B S) c1 () c2 \<and> frames (pg_server c2) = [] \<and> data (pg_server c2) = x"
proof -
  obtain s where s: "quiet S c s" "tracks [x] d s" "transaction_depth c = 1"
    using assms by (auto simp: pg_tracks_def)
  obtain s1 where s1: "exec S (begin_ansi_transaction_sql 1) s = (s1, True)" "tracks [d, x] d s1"
    using tracks_begin [OF s(2)] by auto
  have "nested (length [d, x]) [d, x] (frames s1)" using s1(2) unfolding tracks_def by blast
  then obtain up where "frames s1 = up @ [(None, x)]" using nested_bottom by fastforce
  from exec_rollback [OF this]
  obtain s2 where s2: "exec S ''ROLLBACK'' s1 = (s2, True)" "frames s2 = []" "data s2 = x" by blast
  let ?c1 = "c\<lparr>write_buffer := write_buffer c @ [OutQuery (begin_ansi_transaction_sql 1), OutQuery ''ROLLBACK''],
    pending_ready_for_query_count := pending_ready_for_query_count c + 2, transaction_depth := 0\<rparr>"
  have "quiet S ?c1 s2" using s(1) s1(1) s2(1) by (simp add: quiet_def all_succeed_append)
  from wait_settles [OF this, of B]
  obtain t where t: "completes (wait_until_ready B S) ?c1 () (settled ?c1 s2 t)" by blast
  have "pg_begin B S None 0 c = (?c1, 0, None)"
    using s(3) tx_sql_fits(1) [of 1]
    by (simp add: pg_begin_def Let_def guarded_def abind_def sync_def queue_simple_query_def max_depth_def
        wait_until_ready_def flush_def await_def pg_start_rollback_def rollback_ansi_transaction_sql_def)
  moreover have "transaction_commit (pg_manager B S) k ?c1 = (?c1, k, Some (Ok ()))"
    by (simp add: transaction_commit_def guarded_def pg_manager_def pg_commit_def pg_finish_def)
  ultimately show ?thesis using t s2 by (auto simp: settled_def)
qed

lemma pg_cancelled_outer:
  assumes "idle_conn c" and "frames (pg_server c) = []" and "\<not> aborted S (pg_server c)"
  shows "\<exists>c1. pg_begin B S None 1 c = (c1, 0, None) \<and> transaction_depth c1 = 0 \<and> in_tx S (pg_server c1)"
proof -
  obtain s where s: "exec S ''BEGIN'' (pg_server c) = (s, True)" "in_tx S s"
    using exec_begin [OF assms(2,3)] by (auto simp: in_tx_frames)
  with assms(1) show ?thesis
    by (simp add: pg_begin_def Let_def guarded_def abind_def sync_def queue_simple_query_def idle_conn_def
        begin_ansi_transaction_sql_def wait_until_ready_def flush_def await_def flush_buffer_def
        pg_start_rollback_def)
qed

end

text \<open>C4. Any program of nested \<^verbatim>\<open>begin\<close>, statements, \<^verbatim>\<open>commit\<close>, \<^verbatim>\<open>rollback\<close> and dropped
  transactions runs to completion, tracks its depth exactly, and, once the queued messages
  are flushed, leaves on the server the data of the abstract stack-of-snapshots semantics, for
  every server with the documented savepoint behaviour.\<close>

theorem pg_nested_transactions:
  assumes "savepoint_server S frames data keeps eff plain"
    and "idle_conn c" and "frames (pg_server c) = []" and "\<not> aborted S (pg_server c)"
    and "spec_ops eff ops ([], data (pg_server c)) = Some (ss, d)"
    and "list_all (plain_op {q \<in> plain. length q + 1 + 4 < 2 ^ 31}) ops" and "length ops \<le> 2 ^ 64"
  shows "\<exists>c' c''. completes (run_ops (pg_manager B S) (execute B S) ops) c () c'
    \<and> transaction_depth c' = length ss
    \<and> completes (wait_until_ready B S) c' () c''
    \<and> data (pg_server c'') = d \<and> nested (length ss) ss (frames (pg_server c''))"
  by (rule savepoint_server.pg_nested [OF assms])

definition demo_conn :: "ref_state pg_conn" where
  "demo_conn = \<lparr>pg_server = \<lparr>rs_frames = [], rs_data = [], rs_aborted = False\<rparr>, write_buffer = [],
     stream = \<lparr>rx = [], notifications = None, parameter_statuses = Map.empty, server_version_num = None\<rparr>,
     pending_ready_for_query_count = 0, transaction_status = Idle, transaction_depth = 0\<rparr>"

theorem pg_nested_transactions_witness:
  "\<exists>c' c''. completes (run_ops (pg_manager list_bytes (ref_server True)) (execute list_bytes (ref_server True))
       [TxBegin, TxRun ''a'', TxBegin, TxRun ''b'', TxDrop, TxRun ''c'', TxCommit]) demo_conn () c'
    \<and> transaction_depth c' = 0
    \<and> completes (wait_until_ready list_bytes (ref_server True)) c' () c''
    \<and> rs_data (pg_server c'') = [''a'', ''c'']"
proof -
  let ?ops = "[TxBegin, TxRun ''a'', TxBegin, TxRun ''b'', TxDrop, TxRun ''c'', TxCommit]"
  have 1: "idle_conn demo_conn" "rs_frames (pg_server demo_conn) = []"
    "\<not> aborted (ref_server True) (pg_server demo_conn)" "rs_data (pg_server demo_conn) = []"
    by (simp_all add: demo_conn_def idle_conn_def ref_server_def)
  have 2: "spec_ops (\<lambda>q d. d @ [q]) ?ops ([], rs_data (pg_server demo_conn)) = Some ([], [''a'', ''c''])"
    by (simp add: 1)
  have 3: "list_all (plain_op {q \<in> {q. ref_plain q}. length q + 1 + 4 < 2 ^ 31}) ?ops"
    by (simp add: ref_plain_def ref_after_def plain_op_def)
  have 4: "length ?ops \<le> 2 ^ 64" by simp
  from pg_nested_transactions [OF ref.savepoint_server_axioms [of True] 1(1-3) 2 3 4, of list_bytes]
  obtain c' c'' where "completes (run_ops (pg_manager list_bytes (ref_server True))
      (execute list_bytes (ref_server True)) ?ops) demo_conn () c'" "transaction_depth c' = 0"
      "completes (wait_until_ready list_bytes (ref_server True)) c' () c''"
      "rs_data (pg_server c'') = [''a'', ''c'']"
    unfolding list.size by blast
  then show ?thesis by blast
qed

text \<open>C22. Dropping the future of a nested \<^verbatim>\<open>begin\<close> before it completes (a timeout, a
  \<^verbatim>\<open>select!\<close>) rolls back the enclosing transaction: the guard's rollback uses the depth before
  the increment.  Committing the enclosing transaction then returns \<^verbatim>\<open>Ok\<close> without sending
  anything, and the server ends with the data from before it.\<close>

theorem pg_cancelled_begin_loses_outer:
  assumes "savepoint_server S frames data keeps eff plain"
    and "savepoint_server.pg_tracks S frames data [x] d c"
  shows "\<exists>c1 c2. pg_begin B S None 0 c = (c1, 0, None)
    \<and> transaction_commit (pg_manager B S) k c1 = (c1, k, Some (Ok ()))
    \<and> completes (wait_until_ready B S) c1 () c2 \<and> frames (pg_server c2) = [] \<and> data (pg_server c2) = x"
  by (rule savepoint_server.pg_cancelled_savepoint [OF assms])

theorem pg_cancelled_begin_loses_outer_witness:
  "\<exists>c c1 c2. completes (run_ops (pg_manager list_bytes (ref_server True)) (execute list_bytes (ref_server True))
       [TxBegin, TxRun ''a'']) demo_conn () c
    \<and> pg_begin list_bytes (ref_server True) None 0 c = (c1, 0, None)
    \<and> transaction_commit (pg_manager list_bytes (ref_server True)) 0 c1 = (c1, 0, Some (Ok ()))
    \<and> completes (wait_until_ready list_bytes (ref_server True)) c1 () c2 \<and> rs_data (pg_server c2) = []"
proof -
  let ?ops = "[TxBegin, TxRun ''a'']"
  have 1: "ref.pg_tracks True [] [] demo_conn"
    using ref.pg_tracks_idle [of demo_conn True] by (simp add: demo_conn_def idle_conn_def ref_server_def)
  have 2: "spec_ops (\<lambda>q d. d @ [q]) ?ops ([], []) = Some ([[]], [''a''])" by simp
  have 3: "list_all (plain_op {q \<in> {q. ref_plain q}. length q + 1 + 4 < 2 ^ 31}) ?ops"
    by (simp add: ref_plain_def ref_after_def plain_op_def)
  have 4: "length ([] :: string list list) + length ?ops \<le> max_depth" by (simp add: max_depth_def)
  obtain c where c: "completes (run_ops (pg_manager list_bytes (ref_server True))
      (execute list_bytes (ref_server True)) ?ops) demo_conn () c" "ref.pg_tracks True [[]] [''a''] c"
    using ref.pg.run_ops_refines [OF 1 2 3 4, of list_bytes] by blast
  from pg_cancelled_begin_loses_outer [OF ref.savepoint_server_axioms [of True] c(2), of list_bytes 0] c(1)
  show ?thesis by blast
qed

text \<open>Dropping the future of an outermost \<^verbatim>\<open>begin\<close> after its statement is sent leaves the
  connection in a transaction that no \<^verbatim>\<open>Transaction\<close> value owns: the depth stays zero, so the guard
  sends no rollback.\<close>

theorem pg_cancelled_begin_leaks:
  assumes "savepoint_server S frames data keeps eff plain"
    and "idle_conn c" and "frames (pg_server c) = []" and "\<not> aborted S (pg_server c)"
  shows "\<exists>c1. pg_begin B S None 1 c = (c1, 0, None) \<and> transaction_depth c1 = 0 \<and> in_tx S (pg_server c1)"
  by (rule savepoint_server.pg_cancelled_outer [OF assms])

theorem pg_cancelled_begin_leaks_witness:
  "\<exists>c1. pg_begin list_bytes (ref_server True) None 1 demo_conn = (c1, 0, None)
    \<and> transaction_depth c1 = 0 \<and> rs_frames (pg_server c1) \<noteq> []"
  using pg_cancelled_begin_leaks [OF ref.savepoint_server_axioms [of True], of demo_conn list_bytes]
  by (simp add: demo_conn_def idle_conn_def ref_server_def)

subsection \<open>Server versions\<close>

lemma parse_u32_dec: "n < 2 ^ 32 \<Longrightarrow> parse_u32 (ascii (dec_string n)) = Some (of_nat n)"
  by (simp add: parse_u32_def)

lemma version_parts_digits:
  "list_all digit_byte ds \<Longrightarrow> r \<noteq> [] \<Longrightarrow> version_parts (ds @ r) seg ps = version_parts r (seg @ ds) ps"
  by (induction ds arbitrary: seg) (auto simp: digit_byte_def)

lemma version_parts_dot:
  "n < 2 ^ 32 \<Longrightarrow> version_parts (ascii (dec_string n) @ 46 # r) [] ps = version_parts r [] (ps @ [of_nat n])"
  by (simp add: version_parts_digits digit_byte_ascii parse_u32_dec)

lemma version_parts_last: "n < 2 ^ 32 \<Longrightarrow> version_parts (ascii (dec_string n)) [] ps = ps @ [of_nat n]"
proof -
  assume n: "n < 2 ^ 32"
  obtain ds x where ds: "ascii (dec_string n) = ds @ [x]"
    by (cases "ascii (dec_string n)" rule: rev_cases) (simp add: dec_string.simps [of n] ascii_def split: if_splits)
  with digit_byte_ascii [of n] have "list_all digit_byte ds" "digit_byte x" by simp_all
  then have "version_parts (ds @ [x]) [] ps = ps @ [of_nat n]"
    using version_parts_digits [of ds "[x]" "[]" ps] parse_u32_dec [OF n] ds by (auto simp: digit_byte_def)
  with ds show ?thesis by simp
qed

lemma version_parts_word:
  "n < 2 ^ 32 \<Longrightarrow> \<not> digit_byte x \<Longrightarrow> x \<noteq> 46 \<Longrightarrow>
   version_parts (ascii (dec_string n) @ x # r) [] ps = ps @ [of_nat n]"
  by (simp add: version_parts_digits digit_byte_ascii parse_u32_dec)

text \<open>The version numbers that servers report, \<^verbatim>\<open>9.6.1\<close>, \<^verbatim>\<open>10.1\<close>, \<^verbatim>\<open>13devel\<close>, are read
  as \<^verbatim>\<open>libpq\<close>'s integers; a version part that does not fit overflows the computation.\<close>

theorem server_version:
  assumes "a < 2 ^ 32" and "b < 2 ^ 32" and "r < 2 ^ 32" and "\<not> digit_byte x" and "x \<noteq> 46"
  shows "parse_server_version (ascii (dec_string a) @ 46 # ascii (dec_string b) @ 46 # ascii (dec_string r)) =
      (if (100 * a + b) * 100 + r < 2 ^ 32 then Ok (Some (of_nat ((100 * a + b) * 100 + r))) else Panic)
    \<and> (10 \<le> a \<longrightarrow> parse_server_version (ascii (dec_string a) @ 46 # ascii (dec_string b)) =
      (if 10000 * a + b < 2 ^ 32 then Ok (Some (of_nat (10000 * a + b))) else Panic))
    \<and> parse_server_version (ascii (dec_string a) @ x # suffix) =
      (if 10000 * a < 2 ^ 32 then Ok (Some (of_nat (10000 * a))) else Panic)"
proof -
  have u: "unat (of_nat a :: u32) = a" "unat (of_nat b :: u32) = b" "unat (of_nat r :: u32) = r"
    using assms by (simp_all add: unat_of_nat)
  have "10 \<le> a \<longrightarrow> (10 :: u32) \<le> of_nat a" using u by (simp add: word_le_nat_alt)
  then show ?thesis using assms u
    by (simp add: parse_server_version_def version_parts_dot version_parts_last version_parts_word
        checked_u32_def del: of_nat_add of_nat_mult)
qed

theorem server_version_witness:
  "parse_server_version (ascii (dec_string 9) @ 46 # ascii (dec_string 6) @ 46 # ascii (dec_string 1)) =
     Ok (Some 90601)
   \<and> parse_server_version (ascii (dec_string 13) @ 100 # ascii ''evel'') = Ok (Some 130000)"
  using server_version [of 9 6 1 100 "[]"] server_version [of 13 0 0 100 "ascii ''evel''"]
  by (simp add: digit_byte_def)

end
