(* ===== verification/Pg_Numeric.thy ===== *)
theory Pg_Numeric
  imports Complex_Main Pg_Backend
begin

section \<open>PostgreSQL \<^verbatim>\<open>NUMERIC\<close>\<close>

text \<open>
  \<^verbatim>\<open>types/numeric.rs\<close>, \<^verbatim>\<open>types/bigdecimal.rs\<close> and the encoder of \<^verbatim>\<open>types/rust_decimal.rs\<close> in
  \<^verbatim>\<open>sqlx-postgres\<close>: the base-10000 wire format, and the conversions between it and decimal numbers.
  Big integers and decimals come from other crates; records hold their operations, locales what they document.
\<close>

datatype PgNumericSign = Positive | Negative

datatype PgNumeric =
    NotANumber
  | Number PgNumericSign "16 word list" "16 word" "16 word"

datatype bigint_sign = Minus | NoSign | Plus

record 'i bigint_api =
  to_radix_be :: "'i \<Rightarrow> nat \<Rightarrow> bigint_sign \<times> u8 list"
  from_radix_be :: "bigint_sign \<Rightarrow> u8 list \<Rightarrow> nat \<Rightarrow> 'i option"

record ('d, 'i) bigdecimal_api =
  as_bigint_and_exponent :: "'d \<Rightarrow> 'i \<times> int"
  BigDecimal_new :: "'i \<Rightarrow> int \<Rightarrow> 'd"

record 'r decimal_api =
  dec_scale :: "'r \<Rightarrow> nat"
  dec_mantissa :: "'r \<Rightarrow> int"
  is_sign_negative :: "'r \<Rightarrow> bool"

subsection \<open>The wire format\<close>

definition SIGN_POS :: u16 where "SIGN_POS = 0x0000"
definition SIGN_NEG :: u16 where "SIGN_NEG = 0x4000"
definition SIGN_NAN :: u16 where "SIGN_NAN = 0xC000"

definition numeric_sign_from_u16 :: "u16 \<Rightarrow> PgNumericSign result" where
  "numeric_sign_from_u16 val =
     (if val = SIGN_POS then Ok Positive else if val = SIGN_NEG then Ok Negative
      else if val = SIGN_NAN then Panic else Err (DecodeError ''invalid value for PgNumericSign''))"

definition sign_as_u16 :: "PgNumericSign \<Rightarrow> u16" where
  "sign_as_u16 s = (case s of Positive \<Rightarrow> SIGN_POS | Negative \<Rightarrow> SIGN_NEG)"

definition NUMERIC_ZERO :: PgNumeric where "NUMERIC_ZERO = Number Positive [] 0 0"

definition is_valid_digit :: "16 word \<Rightarrow> bool" where
  "is_valid_digit d \<longleftrightarrow> 0 \<le> sint d \<and> sint d < 10000"

definition numeric_decode :: "bytes_api \<Rightarrow> bytes \<Rightarrow> PgNumeric result" where
  "numeric_decode B buf =
     rbind (get_u16 B buf) (\<lambda>(num_digits, buf).
     rbind (get_u16 B buf) (\<lambda>(weight, buf).
     rbind (get_u16 B buf) (\<lambda>(sign, buf).
     rbind (get_u16 B buf) (\<lambda>(scale, buf).
       if sign = SIGN_NAN then Ok NotANumber
       else rbind (repeat_get (get_u16 B) (unat num_digits) buf) (\<lambda>(digits, _).
              rmap (\<lambda>s. Number s digits weight scale) (numeric_sign_from_u16 sign))))))"

primrec encode_digits :: "16 word list \<Rightarrow> bytes \<Rightarrow> bytes \<times> unit result" where
  "encode_digits [] buf = (buf, Ok ())"
| "encode_digits (d # ds) buf =
     (if \<not> is_valid_digit d then (buf, Err (EncodeError ''PgNumeric digit out of range''))
      else encode_digits ds (buf @ to_be_bytes d))"

definition numeric_encode :: "PgNumeric \<Rightarrow> bytes \<Rightarrow> bytes \<times> unit result" where
  "numeric_encode n buf =
     (case n of
        Number sign digits weight scale \<Rightarrow>
          if length digits < 2 ^ 15
          then encode_digits digits (buf @ to_be_bytes (of_nat (length digits) :: u16) @ to_be_bytes weight
                 @ to_be_bytes (sign_as_u16 sign) @ to_be_bytes scale)
          else (buf, Err (EncodeError ''PgNumeric digits.len() should not overflow i16''))
      | NotANumber \<Rightarrow>
          (buf @ to_be_bytes (0 :: u16) @ to_be_bytes (0 :: u16) @ to_be_bytes SIGN_NAN @ to_be_bytes (0 :: u16), Ok ()))"

subsection \<open>From and to \<^verbatim>\<open>BigDecimal\<close>\<close>

definition i16_try_from :: "int \<Rightarrow> 16 word result" where
  "i16_try_from n =
     (if - (2 ^ 15) \<le> n \<and> n < 2 ^ 15 then Ok (of_int n)
      else Err (EncodeError ''out of range integral type conversion attempted''))"

definition sign_to_pg :: "bigint_sign \<Rightarrow> PgNumericSign" where
  "sign_to_pg s = (case s of Minus \<Rightarrow> Negative | _ \<Rightarrow> Positive)"

text \<open>The fold over \<^verbatim>\<open>i16\<close>.\<close>

definition base_10_to_10000 :: "u8 list \<Rightarrow> 16 word" where
  "base_10_to_10000 chunk = foldl (\<lambda>a d. a * 10 + ucast d) 0 chunk"

fun chunks4 :: "'a list \<Rightarrow> 'a list list" where
  "chunks4 [] = []"
| "chunks4 xs = take 4 xs # chunks4 (drop 4 xs)"

primrec pop_zeroes :: "16 word list \<Rightarrow> 16 word list" where
  "pop_zeroes [] = []"
| "pop_zeroes (d # ds) = (case pop_zeroes ds of [] \<Rightarrow> if d = 0 then [] else [d] | ds' \<Rightarrow> d # ds')"

definition numeric_weight :: "int \<Rightarrow> int" where
  "numeric_weight weight_10 =
     (if weight_10 \<le> 0 then - ((- weight_10) div 4) - 1 else (weight_10 - 1) div 4)"

definition numeric_digits :: "u8 list \<Rightarrow> nat \<Rightarrow> 16 word list" where
  "numeric_digits base_10 offset =
     pop_zeroes
       ((if offset \<le> length base_10 then
           (if take offset base_10 \<noteq> [] then [base_10_to_10000 (take offset base_10)] else [])
         else if offset \<noteq> 0 then [base_10_to_10000 base_10 * 10 ^ (offset - length base_10)]
         else [])
        @ (if offset \<le> length base_10
           then map (\<lambda>chunk. base_10_to_10000 chunk * 10 ^ (4 - length chunk)) (chunks4 (drop offset base_10))
           else []))"

definition from_bigdecimal :: "'i bigint_api \<Rightarrow> ('d, 'i) bigdecimal_api \<Rightarrow> 'd \<Rightarrow> PgNumeric result" where
  "from_bigdecimal I D decimal =
     (let (integer, ex) = as_bigint_and_exponent D decimal;
          (sign, base_10) = to_radix_be I integer 10;
          weight_10 = int (length base_10) - ex in
      if weight_10 < - (2 ^ 63) \<or> 2 ^ 63 \<le> weight_10 then Panic
      else
        rbind (i16_try_from (max 0 ex)) (\<lambda>scale.
        rbind (i16_try_from (numeric_weight weight_10)) (\<lambda>weight.
          Ok (Number (sign_to_pg sign) (numeric_digits base_10 (nat (weight_10 mod 4))) weight scale))))"

primrec to_cents :: "16 word list \<Rightarrow> u8 list result" where
  "to_cents [] = Ok []"
| "to_cents (d # ds) =
     (if \<not> is_valid_digit d then Err (DecodeError ''PgNumeric to BigDecimal: digit is out of range'')
      else rmap (\<lambda>cs. of_int (sint d div 100) # of_int (sint d mod 100) # cs) (to_cents ds))"

definition to_bigdecimal :: "'i bigint_api \<Rightarrow> ('d, 'i) bigdecimal_api \<Rightarrow> 'i \<Rightarrow> PgNumeric \<Rightarrow> 'd result" where
  "to_bigdecimal I D zero n =
     (case n of
        NotANumber \<Rightarrow> Err (DecodeError ''BigDecimal does not support NaN values'')
      | Number sign digits weight _ \<Rightarrow>
          if digits = [] then Ok (BigDecimal_new D zero 0)
          else
            let s = (case sign of Positive \<Rightarrow> Plus | Negative \<Rightarrow> Minus);
                scale = (int (length digits) - sint weight - 1) * 4 in
            rbind (to_cents digits) (\<lambda>cents.
              case from_radix_be I s cents 100 of
                Some bigint \<Rightarrow> Ok (BigDecimal_new D bigint scale)
              | None \<Rightarrow> Err (DecodeError ''PgNumeric contained an out-of-range digit'')))"

subsection \<open>From \<^verbatim>\<open>Decimal\<close>\<close>

text \<open>The mantissa is a 128-bit integer.\<close>

function base_10000 :: "nat \<Rightarrow> 16 word list" where
  "base_10000 mantissa = (if mantissa = 0 then [] else of_nat (mantissa mod 10000) # base_10000 (mantissa div 10000))"
  by auto
termination by (relation "measure (\<lambda>n. n)") auto

declare base_10000.simps [simp del]

definition from_decimal :: "'r decimal_api \<Rightarrow> 'r \<Rightarrow> PgNumeric result" where
  "from_decimal R decimal =
     (if dec_mantissa R decimal = 0 then Ok NUMERIC_ZERO
      else if 28 < dec_scale R decimal then Panic
      else
        let scale = dec_scale R decimal;
            mantissa = nat \<bar>dec_mantissa R decimal\<bar>;
            groups_diff = scale mod 4;
            mantissa = (if 0 < groups_diff then mantissa * 10 ^ (4 - groups_diff) else mantissa);
            digits = rev (base_10000 mantissa);
            digits_after_decimal = (scale + 3) div 4 in
        if 2 ^ 128 \<le> mantissa \<or> 8 < length digits then Panic
        else Ok (Number (if is_sign_negative R decimal then Negative else Positive) (pop_zeroes digits)
               (of_int (int (length digits) - int digits_after_decimal - 1)) (of_nat scale)))"

subsection \<open>Values\<close>

primrec num_sum :: "16 word list \<Rightarrow> int \<Rightarrow> real" where
  "num_sum [] w = 0"
| "num_sum (d # ds) w = of_int (sint d) * 10000 powi w + num_sum ds (w - 1)"

definition signed_value :: "PgNumericSign \<Rightarrow> real \<Rightarrow> real" where
  "signed_value s x = (case s of Positive \<Rightarrow> x | Negative \<Rightarrow> - x)"

definition numeric_value :: "PgNumeric \<Rightarrow> real option" where
  "numeric_value n =
     (case n of NotANumber \<Rightarrow> None | Number s ds w _ \<Rightarrow> Some (signed_value s (num_sum ds (sint w))))"

definition radix_value :: "nat \<Rightarrow> u8 list \<Rightarrow> nat" where
  "radix_value r ds = foldl (\<lambda>a d. a * r + unat d) 0 ds"

primrec dec_sum :: "u8 list \<Rightarrow> int \<Rightarrow> real" where
  "dec_sum [] p = 0"
| "dec_sum (b # bs) p = of_nat (unat b) * 10 powi p + dec_sum bs (p - 1)"

lemma foldl_radix: "foldl (\<lambda>a d. a * r + unat d) n ds = n * r ^ length ds + foldl (\<lambda>a d. a * r + unat d) 0 ds"
proof (induction ds arbitrary: n)
  case (Cons d ds)
  from Cons [of "n * r + unat d"] Cons [of "unat d"] show ?case by (simp add: algebra_simps)
qed simp

lemma radix_value_simps [simp]:
  "radix_value r [] = 0" "radix_value r (d # ds) = unat d * r ^ length ds + radix_value r ds"
  using foldl_radix [of r "unat d" ds] by (simp_all add: radix_value_def)

lemma radix_value_less: "\<forall>d \<in> set ds. unat d < r \<Longrightarrow> radix_value r ds < r ^ length ds"
proof (induction ds)
  case (Cons d ds)
  then have "unat d * r ^ length ds + radix_value r ds < unat d * r ^ length ds + r ^ length ds" by simp
  also have "\<dots> = Suc (unat d) * r ^ length ds" by simp
  also have "\<dots> \<le> r * r ^ length ds" using Cons.prems by (intro mult_le_mono1) simp
  finally show ?case by simp
qed simp

lemma powi_shift: "x \<noteq> 0 \<Longrightarrow> (x :: real) powi (n + 1) = x * x powi n"
  by (simp add: power_int_add)

lemma powi_nat_add: "x \<noteq> 0 \<Longrightarrow> (x :: real) powi (n + int k) = x ^ k * x powi n"
  by (simp add: power_int_add)

lemma dec_sum_radix: "dec_sum bs p = of_nat (radix_value 10 bs) * 10 powi (p + 1 - int (length bs))"
proof (induction bs arbitrary: p)
  case (Cons b bs)
  have "(10 :: real) powi p = 10 ^ length bs * 10 powi (p - int (length bs))"
    using powi_nat_add [of 10 "p - int (length bs)" "length bs"] by simp
  then show ?case by (simp add: Cons distrib_right algebra_simps)
qed simp

lemma dec_sum_append: "dec_sum (a @ b) p = dec_sum a p + dec_sum b (p - int (length a))"
  by (induction a arbitrary: p) (simp_all add: algebra_simps)

lemma powi_10000: "(10000 :: real) powi w = 10 powi (4 * w)"
  by (simp add: power_int_mult)

lemma num_sum_pop [simp]: "num_sum (pop_zeroes ds) w = num_sum ds w"
proof (induction ds arbitrary: w)
  case (Cons d ds)
  then show ?case by (cases "pop_zeroes ds") (auto simp flip: Cons)
qed simp

subsection \<open>Groups of four digits\<close>

definition decimal_digits :: "u8 list \<Rightarrow> bool" where
  "decimal_digits bs \<longleftrightarrow> (\<forall>b \<in> set bs. unat b < 10)"

lemma decimal_digits_simps [simp]:
  "decimal_digits []" "decimal_digits (a @ b) \<longleftrightarrow> decimal_digits a \<and> decimal_digits b"
  by (auto simp: decimal_digits_def)

lemma decimal_digits_parts: "decimal_digits bs \<Longrightarrow> decimal_digits (take n bs) \<and> decimal_digits (drop n bs)"
  by (auto simp: decimal_digits_def dest: in_set_takeD in_set_dropD)

lemma base_10_word: "base_10_to_10000 c = of_nat (radix_value 10 c)"
proof -
  have "foldl (\<lambda>a d. a * 10 + ucast d) (of_nat n) c = (of_nat (foldl (\<lambda>a d. a * 10 + unat d) n c) :: 16 word)" for n
  proof (induction c arbitrary: n)
    case (Cons d c)
    from Cons [of "n * 10 + unat d"] show ?case by simp
  qed simp
  from this [of 0] show ?thesis by (simp add: base_10_to_10000_def radix_value_def)
qed

lemma sint_small: "n < 10000 \<Longrightarrow> sint (of_nat n :: 16 word) = int n"
  by (subst sint_eq_unat) (simp_all add: unat_of_nat)

lemma group_value:
  assumes "decimal_digits c" and "length c + k \<le> 4"
  shows "sint (base_10_to_10000 c * 10 ^ k) = int (radix_value 10 c * 10 ^ k)" and "is_valid_digit (base_10_to_10000 c * 10 ^ k)"
proof -
  have "radix_value 10 c < 10 ^ length c" using radix_value_less [of c 10] assms(1) by (simp add: decimal_digits_def)
  then have "radix_value 10 c * 10 ^ k < 10 ^ length c * 10 ^ k" by simp
  also have "\<dots> \<le> 10 ^ 4" using assms(2) by (subst power_add [symmetric], intro power_increasing) simp_all
  finally have l: "radix_value 10 c * 10 ^ k < 10000" by simp
  have w: "base_10_to_10000 c * 10 ^ k = of_nat (radix_value 10 c * 10 ^ k)" by (simp add: base_10_word)
  show "sint (base_10_to_10000 c * 10 ^ k) = int (radix_value 10 c * 10 ^ k)"
    unfolding w by (rule sint_small [OF l])
  then show "is_valid_digit (base_10_to_10000 c * 10 ^ k)" using l by (simp add: is_valid_digit_def del: of_nat_mult of_nat_power)
qed

lemma group_dec_sum:
  assumes "decimal_digits c" and "length c + k \<le> 4" and "p + 1 = 4 * w + int (length c + k)"
  shows "of_int (sint (base_10_to_10000 c * 10 ^ k)) * 10000 powi w = dec_sum c p"
proof -
  have "p + 1 - int (length c) = 4 * w + int k" using assms(3) by simp
  then have "dec_sum c p = of_nat (radix_value 10 c) * (10 ^ k * 10 powi (4 * w))"
    by (simp add: dec_sum_radix powi_nat_add)
  then show ?thesis using group_value(1) [OF assms(1,2)] by (simp add: powi_10000)
qed

lemma chunks_dec_sum:
  "decimal_digits bs \<Longrightarrow>
   num_sum (map (\<lambda>c. base_10_to_10000 c * 10 ^ (4 - length c)) (chunks4 bs)) w = dec_sum bs (4 * w + 3)"
proof (induction bs arbitrary: w rule: chunks4.induct)
  case (2 b bs)
  let ?c = "take 4 (b # bs)" and ?r = "drop 4 (b # bs)"
  have dd: "decimal_digits (take 4 (b # bs)) \<and> decimal_digits (drop 4 (b # bs))" using 2 by (intro decimal_digits_parts)
  have e1: "of_int (sint (base_10_to_10000 ?c * 10 ^ (4 - length ?c))) * 10000 powi w = dec_sum ?c (4 * w + 3)"
    using dd by (intro group_dec_sum) auto
  have e2: "dec_sum ?r (4 * (w - 1) + 3) = dec_sum ?r (4 * w + 3 - int (length ?c))"
  proof (cases "?r = []")
    case False
    then have "length ?c = 4" by simp
    then show ?thesis by (simp del: take_Suc_Cons length_take)
  qed simp
  show ?case
    using e1 e2 2(1) [of "w - 1"] dd dec_sum_append [of ?c ?r "4 * w + 3"] by (simp del: take_Cons_numeral drop_Cons_numeral length_take)
qed simp

lemma chunks_valid:
  "decimal_digits bs \<Longrightarrow> d \<in> set (map (\<lambda>c. base_10_to_10000 c * 10 ^ (4 - length c)) (chunks4 bs)) \<Longrightarrow> is_valid_digit d"
proof (induction bs rule: chunks4.induct)
  case (2 b bs)
  have p: "decimal_digits (take 4 (b # bs)) \<and> decimal_digits (drop 4 (b # bs))" using 2 by (intro decimal_digits_parts)
  have "is_valid_digit (base_10_to_10000 (take 4 (b # bs)) * 10 ^ (4 - length (take 4 (b # bs))))"
    using p by (intro group_value(2)) auto
  with 2 p show ?case by (auto simp del: take_Cons_numeral drop_Cons_numeral length_take)
qed simp

lemma numeric_weight_floor: "numeric_weight w = (w - 1) div 4"
  unfolding numeric_weight_def by presburger

lemma weight_parts: "w = 4 * ((w - 1) div 4) + (if w mod 4 = 0 then 4 else w mod 4)" for w :: int
  by presburger

lemma pop_zeroes_set: "d \<in> set (pop_zeroes ds) \<Longrightarrow> d \<in> set ds"
  by (induction ds) (auto split: list.splits if_splits)

lemma length_pop_zeroes: "length (pop_zeroes ds) \<le> length ds"
  by (induction ds) (auto split: list.splits)

lemma pop_zeroes_last: "pop_zeroes ds \<noteq> [] \<Longrightarrow> last (pop_zeroes ds) \<noteq> 0"
  by (induction ds) (auto split: list.splits if_splits)

lemma numeric_groups:
  assumes "decimal_digits bs" and "k < 4" and w: "w = 4 * v + (if k = 0 then 4 else int k)"
  shows "num_sum (numeric_digits bs k) v = dec_sum bs (w - 1)"
proof -
  note p = decimal_digits_parts [OF assms(1), of k]
  consider "k = 0" | "k \<noteq> 0" "k \<le> length bs" | "k \<noteq> 0" "length bs < k" by linarith
  then show ?thesis
  proof cases
    case 1
    then have e: "w - 1 = 4 * v + 3" using w by simp
    show ?thesis unfolding e using 1 by (simp add: numeric_digits_def chunks_dec_sum [OF assms(1)])
  next
    case 2
    have "of_int (sint (base_10_to_10000 (take k bs) * 10 ^ 0)) * 10000 powi v = dec_sum (take k bs) (w - 1)"
      using p 2 w assms(2) by (intro group_dec_sum) auto
    moreover have "4 * (v - 1) + 3 = w - 1 - int (length (take k bs))" using 2 w by simp
    moreover have "take k bs \<noteq> []" using 2 by auto
    ultimately show ?thesis
      using 2 p chunks_dec_sum [of "drop k bs" "v - 1"] dec_sum_append [of "take k bs" "drop k bs" "w - 1"]
      by (simp add: numeric_digits_def diff_right_commute del: pop_zeroes.simps)
  next
    case 3
    have "of_int (sint (base_10_to_10000 bs * 10 ^ (k - length bs))) * 10000 powi v = dec_sum bs (w - 1)"
      using assms 3 by (intro group_dec_sum) auto
    with 3 show ?thesis by (simp add: numeric_digits_def del: pop_zeroes.simps)
  qed
qed

lemma numeric_digits_value:
  assumes "decimal_digits bs"
  shows "num_sum (numeric_digits bs (nat (w mod 4))) (numeric_weight w) = dec_sum bs (w - 1)"
proof (rule numeric_groups [OF assms])
  have z: "nat (w mod 4) = 0 \<longleftrightarrow> w mod 4 = 0" "int (nat (w mod 4)) = w mod 4" using pos_mod_sign [of 4 w] by auto
  show "w = 4 * numeric_weight w + (if nat (w mod 4) = 0 then 4 else int (nat (w mod 4)))"
    unfolding z numeric_weight_floor by (rule weight_parts)
qed auto

lemma numeric_digits_valid:
  assumes "decimal_digits bs" and "k < 4" and "d \<in> set (numeric_digits bs k)"
  shows "is_valid_digit d"
proof -
  note p = decimal_digits_parts [OF assms(1), of k]
  have 1: "is_valid_digit (base_10_to_10000 (take k bs))"
    using group_value(2) [of "take k bs" 0] p assms(2) by simp
  have 2: "is_valid_digit (base_10_to_10000 bs * 10 ^ (k - length bs))" if "length bs < k"
    using that assms(1,2) by (intro group_value(2)) auto
  have 3: "d \<in> set (map (\<lambda>c. base_10_to_10000 c * 10 ^ (4 - length c)) (chunks4 (drop k bs))) \<Longrightarrow> is_valid_digit d"
    using p by (intro chunks_valid [of "drop k bs"]) auto
  show ?thesis
    using pop_zeroes_set [OF assms(3) [unfolded numeric_digits_def]] 1 2 3 by (auto split: if_splits)
qed

lemma numeric_digits_last: "numeric_digits bs k \<noteq> [] \<Longrightarrow> last (numeric_digits bs k) \<noteq> 0"
  unfolding numeric_digits_def by (rule pop_zeroes_last)

subsection \<open>The wire format\<close>

lemma encode_digits_ok:
  "\<forall>d \<in> set ds. is_valid_digit d \<Longrightarrow> encode_digits ds buf = (buf @ concat (map to_be_bytes ds), Ok ())"
  by (induction ds arbitrary: buf) auto

lemma sign_from_u16 [simp]: "numeric_sign_from_u16 (sign_as_u16 s) = Ok s" "sign_as_u16 s \<noteq> SIGN_NAN"
  by (cases s; simp add: numeric_sign_from_u16_def sign_as_u16_def SIGN_POS_def SIGN_NEG_def SIGN_NAN_def)+

definition valid_numeric :: "PgNumeric \<Rightarrow> bool" where
  "valid_numeric n \<longleftrightarrow>
     (case n of NotANumber \<Rightarrow> True | Number _ ds _ _ \<Rightarrow> length ds < 2 ^ 15 \<and> (\<forall>d \<in> set ds. is_valid_digit d))"

lemma numeric_decode_encode:
  assumes "bytes_contract B" and "valid_numeric n"
  shows "\<exists>bs. numeric_encode n buf = (buf @ bs, Ok ()) \<and> numeric_decode B bs = Ok n"
proof (cases n)
  case NotANumber
  then show ?thesis
    using bytes_contract.get_u16_append [OF assms(1), of 0 "[]"]
    by (simp add: numeric_encode_def numeric_decode_def bytes_contract.get_u16_append [OF assms(1)])
next
  case (Number s ds w sc)
  have r: "repeat_get (get_u16 B) (length ds) (concat (map to_be_bytes ds)) = Ok (ds, [])"
    using bytes_contract.repeat_get_append [OF assms(1), of ds "get_u16 B" to_be_bytes "[]"] bytes_contract.get_u16_append [OF assms(1)] by simp
  have "unat (of_nat (length ds) :: u16) = length ds" using assms(2) Number by (simp add: valid_numeric_def unat_of_nat)
  with assms(2) Number r show ?thesis
    by (simp add: numeric_encode_def numeric_decode_def valid_numeric_def encode_digits_ok bytes_contract.get_u16_append [OF assms(1)])
qed

subsection \<open>Big decimals\<close>

definition sign_int :: "bigint_sign \<Rightarrow> int" where
  "sign_int s = (case s of Minus \<Rightarrow> -1 | NoSign \<Rightarrow> 0 | Plus \<Rightarrow> 1)"

locale big_decimal =
  fixes I :: "'i bigint_api" and D :: "('d, 'i) bigdecimal_api" and int_of :: "'i \<Rightarrow> int" and zero :: 'i
  assumes to_radix: "2 \<le> r \<Longrightarrow> r \<le> 256 \<Longrightarrow> to_radix_be I i r = (s, ds) \<Longrightarrow>
      int_of i = sign_int s * int (radix_value r ds) \<and> (\<forall>d \<in> set ds. unat d < r) \<and> (s = NoSign \<longrightarrow> radix_value r ds = 0)"
    and from_radix: "2 \<le> r \<Longrightarrow> r \<le> 256 \<Longrightarrow> \<forall>d \<in> set ds. unat d < r \<Longrightarrow> s \<noteq> NoSign \<Longrightarrow>
      \<exists>i. from_radix_be I s ds r = Some i \<and> int_of i = sign_int s * int (radix_value r ds)"
    and parts_new: "as_bigint_and_exponent D (BigDecimal_new D i e) = (i, e)"
    and zero: "int_of zero = 0"

definition big_value :: "('d, 'i) bigdecimal_api \<Rightarrow> ('i \<Rightarrow> int) \<Rightarrow> 'd \<Rightarrow> real" where
  "big_value D int_of d = (case as_bigint_and_exponent D d of (i, e) \<Rightarrow> of_int (int_of i) * 10 powi (- e))"

definition numeric_radix :: "16 word list \<Rightarrow> int" where
  "numeric_radix ds = foldl (\<lambda>a d. a * 10000 + sint d) 0 ds"

lemma sint_of_int16: "- (2 ^ 15) \<le> n \<Longrightarrow> n < 2 ^ 15 \<Longrightarrow> sint (of_int n :: 16 word) = n"
  by (simp add: signed_of_int signed_take_bit_int_eq_self)

lemma foldl_numeric: "foldl (\<lambda>a d. a * 10000 + sint d) n ds = n * 10000 ^ length ds + foldl (\<lambda>a d. a * 10000 + sint d) 0 ds"
proof (induction ds arbitrary: n)
  case (Cons d ds)
  from Cons [of "n * 10000 + sint d"] Cons [of "sint d"] show ?case by (simp add: algebra_simps)
qed simp

lemma numeric_radix_simps [simp]:
  "numeric_radix [] = 0" "numeric_radix (d # ds) = sint d * 10000 ^ length ds + numeric_radix ds"
  using foldl_numeric [of "sint d" ds] by (simp_all add: numeric_radix_def)

lemma num_sum_radix: "num_sum ds w = of_int (numeric_radix ds) * 10000 powi (w + 1 - int (length ds))"
proof (induction ds arbitrary: w)
  case (Cons d ds)
  have "(10000 :: real) powi w = 10000 ^ length ds * 10000 powi (w - int (length ds))"
    using powi_nat_add [of 10000 "w - int (length ds)" "length ds"] by simp
  then show ?case by (simp add: Cons distrib_right algebra_simps)
qed simp

lemma to_cents_ok:
  assumes "\<forall>d \<in> set ds. is_valid_digit d"
  shows "\<exists>cs. to_cents ds = Ok cs \<and> (\<forall>c \<in> set cs. unat c < 100) \<and> length cs = 2 * length ds \<and> int (radix_value 100 cs) = numeric_radix ds"
  using assms
proof (induction ds)
  case (Cons d ds)
  then obtain cs where cs: "to_cents ds = Ok cs" "\<forall>c \<in> set cs. unat c < 100" "length cs = 2 * length ds"
    "int (radix_value 100 cs) = numeric_radix ds" by auto
  have d: "0 \<le> sint d" "sint d < 10000" using Cons.prems by (auto simp: is_valid_digit_def)
  have q: "sint d div 100 < 100" "0 \<le> sint d div 100" using d by auto
  have u: "int (unat (of_int (sint d div 100) :: u8)) = sint d div 100" "int (unat (of_int (sint d mod 100) :: u8)) = sint d mod 100"
    using q by (simp_all add: uint_word_of_int_eq take_bit_int_eq_self)
  have "sint d = sint d div 100 * 100 + sint d mod 100" by simp
  then have "sint d * 10000 ^ length ds = (sint d div 100) * (100 * 10000 ^ length ds) + (sint d mod 100) * 10000 ^ length ds"
    by (metis (no_types) distrib_right mult.assoc)
  moreover have "(100 :: int) ^ (2 * length ds) = 10000 ^ length ds" by (simp add: power_mult)
  ultimately have v: "int (radix_value 100 (of_int (sint d div 100) # of_int (sint d mod 100) # cs)) = numeric_radix (d # ds)"
    using cs(3,4) u by simp
  have "unat (of_int (sint d div 100) :: u8) < 100" "unat (of_int (sint d mod 100) :: u8) < 100" using u q by linarith+
  with cs v Cons.prems show ?case by auto
qed simp

context big_decimal
begin

lemma from_bigdecimal_value:
  assumes "from_bigdecimal I D d = Ok n"
  shows "numeric_value n = Some (big_value D int_of d)"
    "\<exists>s ds w sc. n = Number s ds w sc \<and> (\<forall>d \<in> set ds. is_valid_digit d) \<and> (ds \<noteq> [] \<longrightarrow> last ds \<noteq> 0)"
proof -
  obtain i e where ie: "as_bigint_and_exponent D d = (i, e)" by force
  obtain sg bs where sb: "to_radix_be I i 10 = (sg, bs)" by force
  have iv: "int_of i = sign_int sg * int (radix_value 10 bs)" "decimal_digits bs" "sg = NoSign \<longrightarrow> radix_value 10 bs = 0"
    using to_radix [OF _ _ sb] by (auto simp: decimal_digits_def)
  let ?w = "int (length bs) - e"
  obtain scale weight where n: "i16_try_from (max 0 e) = Ok scale" "i16_try_from (numeric_weight ?w) = Ok weight"
    "n = Number (sign_to_pg sg) (numeric_digits bs (nat (?w mod 4))) weight scale"
    using assms by (auto simp: from_bigdecimal_def ie sb Let_def split: if_splits)
  have wt: "sint weight = numeric_weight ?w"
    using n(2) sint_of_int16 by (auto simp: i16_try_from_def split: if_splits)
  have "num_sum (numeric_digits bs (nat (?w mod 4))) (sint weight) = of_nat (radix_value 10 bs) * 10 powi (- e)"
    unfolding wt numeric_digits_value [OF iv(2)] dec_sum_radix by simp
  then show "numeric_value n = Some (big_value D int_of d)"
    using iv(1,3) by (cases sg) (simp_all add: n(3) numeric_value_def signed_value_def sign_to_pg_def sign_int_def big_value_def ie)
  show "\<exists>s ds w sc. n = Number s ds w sc \<and> (\<forall>d \<in> set ds. is_valid_digit d) \<and> (ds \<noteq> [] \<longrightarrow> last ds \<noteq> 0)"
    using numeric_digits_valid [OF iv(2), of "nat (?w mod 4)"] numeric_digits_last [of bs "nat (?w mod 4)"] n(3) by auto
qed

lemma to_bigdecimal_value:
  assumes "\<forall>d \<in> set ds. is_valid_digit d"
  shows "\<exists>d. to_bigdecimal I D zero (Number s ds w sc) = Ok d \<and> numeric_value (Number s ds w sc) = Some (big_value D int_of d)"
proof (cases "ds = []")
  case True
  then show ?thesis
    by (cases s) (simp_all add: to_bigdecimal_def numeric_value_def signed_value_def big_value_def parts_new zero)
next
  case False
  let ?s = "case s of Positive \<Rightarrow> Plus | Negative \<Rightarrow> Minus"
  obtain cs where cs: "to_cents ds = Ok cs" "\<forall>c \<in> set cs. unat c < 100" "int (radix_value 100 cs) = numeric_radix ds"
    using to_cents_ok [OF assms] by blast
  have "?s \<noteq> NoSign" by (cases s) simp_all
  from from_radix [OF _ _ cs(2) this] obtain i where i: "from_radix_be I ?s cs 100 = Some i" "int_of i = sign_int ?s * int (radix_value 100 cs)"
    by auto
  have p: "- ((int (length ds) - sint w - 1) * 4) = 4 * (sint w + 1 - int (length ds))" by simp
  have "num_sum ds (sint w) = of_int (numeric_radix ds) * 10 powi (- ((int (length ds) - sint w - 1) * 4))"
    unfolding p num_sum_radix powi_10000 ..
  with cs i False show ?thesis
    by (cases s) (simp_all add: to_bigdecimal_def numeric_value_def signed_value_def big_value_def parts_new sign_int_def)
qed

end

text \<open>Integers, with pairs of an integer and an exponent as decimals, satisfy the contract.\<close>

function nat_radix :: "nat \<Rightarrow> nat \<Rightarrow> u8 list" where
  "nat_radix r n = (if n = 0 \<or> r < 2 then [] else nat_radix r (n div r) @ [of_nat (n mod r)])"
  by auto
termination by (relation "measure snd") auto

declare nat_radix.simps [simp del]

definition int_bigint :: "int bigint_api" where
  "int_bigint =
     \<lparr>to_radix_be = (\<lambda>i r. (if i < 0 then Minus else if i = 0 then NoSign else Plus,
         if i = 0 then [0] else nat_radix r (nat \<bar>i\<bar>))),
      from_radix_be = (\<lambda>s ds r. if \<forall>d \<in> set ds. unat d < r then Some (sign_int s * int (radix_value r ds)) else None)\<rparr>"

definition pair_decimal :: "(int \<times> int, int) bigdecimal_api" where
  "pair_decimal = \<lparr>as_bigint_and_exponent = (\<lambda>d. d), BigDecimal_new = Pair\<rparr>"

lemma radix_value_snoc: "radix_value r (ds @ [d]) = radix_value r ds * r + unat d"
  by (simp add: radix_value_def)

lemma nat_radix_ok: "2 \<le> r \<Longrightarrow> r \<le> 256 \<Longrightarrow> radix_value r (nat_radix r n) = n \<and> (\<forall>d \<in> set (nat_radix r n). unat d < r)"
proof (induction r n rule: nat_radix.induct)
  case (1 r n)
  show ?case
  proof (cases "n = 0")
    case False
    have "n mod r < r" using 1(2) by simp
    then have "unat (of_nat (n mod r) :: u8) = n mod r" using 1(3) by (simp add: unat_of_nat)
    with 1 False show ?thesis by (subst (1 2) nat_radix.simps) (auto simp: radix_value_snoc)
  qed (simp add: nat_radix.simps)
qed

interpretation int_dec: big_decimal int_bigint pair_decimal "\<lambda>i. i" 0
proof
  fix r i s ds
  assume "2 \<le> (r :: nat)" "r \<le> 256" "to_radix_be int_bigint i r = (s, ds)"
  then show "i = sign_int s * int (radix_value r ds) \<and> (\<forall>d \<in> set ds. unat d < r) \<and> (s = NoSign \<longrightarrow> radix_value r ds = 0)"
    using nat_radix_ok [of r "nat \<bar>i\<bar>"] by (auto simp: int_bigint_def sign_int_def split: if_splits)
qed (simp_all add: int_bigint_def pair_decimal_def)

subsection \<open>\<^verbatim>\<open>Decimal\<close>\<close>

locale rust_decimal =
  fixes R :: "'r decimal_api"
  assumes scale_range: "dec_scale R d \<le> 28" and mantissa_range: "\<bar>dec_mantissa R d\<bar> < 2 ^ 96"
    and sign_negative: "dec_mantissa R d \<noteq> 0 \<Longrightarrow> is_sign_negative R d \<longleftrightarrow> dec_mantissa R d < 0"

lemma numeric_radix_snoc: "numeric_radix (ds @ [d]) = numeric_radix ds * 10000 + sint d"
  by (simp add: numeric_radix_def)

lemma base_10000_ok:
  "numeric_radix (rev (base_10000 n)) = int n \<and> (\<forall>d \<in> set (base_10000 n). is_valid_digit d)"
proof (induction n rule: base_10000.induct)
  case (1 n)
  show ?case
  proof (cases "n = 0")
    case False
    have d: "sint (of_nat (n mod 10000) :: 16 word) = int (n mod 10000)" by (rule sint_small) simp
    have "int n = int (n div 10000) * 10000 + int (n mod 10000)" by (metis div_mult_mod_eq of_nat_add of_nat_mult of_nat_numeral)
    moreover have "is_valid_digit (of_nat (n mod 10000))" unfolding is_valid_digit_def d by simp
    ultimately show ?thesis
      using 1 False d by (subst (1 2) base_10000.simps) (simp add: numeric_radix_snoc)
  qed (simp add: base_10000.simps)
qed

lemma base_10000_length: "n < 10000 ^ k \<Longrightarrow> length (base_10000 n) \<le> k"
proof (induction k arbitrary: n)
  case 0
  then show ?case by (simp add: base_10000.simps)
next
  case (Suc k)
  then have "n div 10000 < 10000 ^ k" by (simp add: less_mult_imp_div_less mult.commute)
  with Suc.IH [of "n div 10000"] show ?case by (subst base_10000.simps) simp
qed

context rust_decimal
begin

lemma from_decimal_exact:
  "\<exists>n. from_decimal R d = Ok n \<and> valid_numeric n \<and> numeric_value n = Some (of_int (dec_mantissa R d) * 10 powi (- int (dec_scale R d)))"
proof (cases "dec_mantissa R d = 0")
  case True
  then show ?thesis
    by (simp add: from_decimal_def NUMERIC_ZERO_def valid_numeric_def numeric_value_def signed_value_def)
next
  case False
  let ?s = "dec_scale R d" and ?a = "(dec_scale R d + 3) div 4"
  define m where "m = nat \<bar>dec_mantissa R d\<bar>"
  define q where "q = (if 0 < ?s mod 4 then m * 10 ^ (4 - ?s mod 4) else m)"
  have sc: "?s \<le> 28" by (rule scale_range)
  have e: "q = m * 10 ^ (4 * ?a - ?s)" "?s \<le> 4 * ?a" "?a \<le> 7"
  proof -
    show "?s \<le> 4 * ?a" "?a \<le> 7" using sc by linarith+
    have "0 < ?s mod 4 \<Longrightarrow> 4 * ?a - ?s = 4 - ?s mod 4" "\<not> 0 < ?s mod 4 \<Longrightarrow> 4 * ?a - ?s = 0" by presburger+
    then show "q = m * 10 ^ (4 * ?a - ?s)" by (auto simp: q_def)
  qed
  have "m < 2 ^ 96" using mantissa_range [of d] by (simp add: m_def nat_less_iff)
  moreover have "4 * ?a - ?s \<le> 3" by presburger
  then have "(10 :: nat) ^ (4 * ?a - ?s) \<le> 10 ^ 3" by (intro power_increasing) simp_all
  ultimately have "q < 2 ^ 96 * 10 ^ 3" unfolding e(1) by (intro mult_less_le_imp_less) simp_all
  then have ql: "q < 10000 ^ 8" "q < 2 ^ 128" by simp_all
  let ?ds = "rev (base_10000 q)"
  have len: "length ?ds \<le> 8" using base_10000_length [OF ql(1)] by simp
  let ?w = "int (length ?ds) - int ?a - 1"
  have wt: "sint (of_int ?w :: 16 word) = ?w"
    using len e(3) by (intro sint_of_int16) simp_all
  have "num_sum ?ds ?w = of_nat m * 10 powi (- int ?s)"
  proof -
    have "num_sum ?ds ?w = of_nat q * 10000 powi (- int ?a)"
      unfolding num_sum_radix using base_10000_ok [of q] by simp
    also have "\<dots> = of_nat m * (10 ^ (4 * ?a - ?s) * 10 powi (4 * (- int ?a)))" unfolding powi_10000 by (simp add: e(1))
    also have "10 ^ (4 * ?a - ?s) * (10 :: real) powi (4 * (- int ?a)) = 10 powi (4 * (- int ?a) + int (4 * ?a - ?s))"
      by (rule powi_nat_add [symmetric]) simp
    also have "4 * (- int ?a) + int (4 * ?a - ?s) = - int ?s" using e(2) by simp
    finally show ?thesis .
  qed
  moreover have "of_nat m = \<bar>of_int (dec_mantissa R d) :: real\<bar>" by (simp add: m_def)
  ultimately have v: "signed_value (if is_sign_negative R d then Negative else Positive) (num_sum ?ds ?w) =
      of_int (dec_mantissa R d) * 10 powi (- int ?s)"
    using sign_negative [OF False] False by (auto simp: signed_value_def)
  have f: "from_decimal R d = Ok (Number (if is_sign_negative R d then Negative else Positive) (pop_zeroes ?ds) (of_int ?w) (of_nat ?s))"
    unfolding from_decimal_def Let_def m_def [symmetric] q_def [symmetric] using False sc len ql by simp
  have d: "\<forall>d \<in> set (pop_zeroes ?ds). is_valid_digit d" using base_10000_ok [of q] pop_zeroes_set [of _ ?ds] by simp
  have l: "length (pop_zeroes ?ds) < 2 ^ 15" using length_pop_zeroes [of ?ds] len by simp
  show ?thesis
  proof (intro exI conjI)
    show "numeric_value (Number (if is_sign_negative R d then Negative else Positive) (pop_zeroes ?ds) (of_int ?w) (of_nat ?s)) =
        Some (of_int (dec_mantissa R d) * 10 powi (- int ?s))"
      unfolding numeric_value_def PgNumeric.case wt num_sum_pop v ..
  qed (rule f, use d l in \<open>simp add: valid_numeric_def\<close>)
qed

end

definition pair_rust_decimal :: "(int \<times> nat) decimal_api" where
  "pair_rust_decimal =
     \<lparr>dec_scale = (\<lambda>d. min 28 (snd d)), dec_mantissa = (\<lambda>d. if \<bar>fst d\<bar> < 2 ^ 96 then fst d else 0),
      is_sign_negative = (\<lambda>d. fst d < 0)\<rparr>"

interpretation pair_dec: rust_decimal pair_rust_decimal
  by unfold_locales (auto simp: pair_rust_decimal_def)

subsection \<open>Properties\<close>

text \<open>
  C17. A decimal survives the way to the server and back.  Whenever a \<^verbatim>\<open>BigDecimal\<close> converts to
  \<^verbatim>\<open>NUMERIC\<close> (its weight, scale and number of digits fit sixteen bits), the encoder writes it, the decoder reads the same
  digits, and the decimal made of them has exactly the same value.
\<close>

theorem pg_bigdecimal_roundtrip:
  assumes "big_decimal I D int_of zero" and "bytes_contract B" and "from_bigdecimal I D d = Ok n"
    and "\<forall>s ds w sc. n = Number s ds w sc \<longrightarrow> length ds < 2 ^ 15"
  shows "\<exists>bs d'. numeric_encode n buf = (buf @ bs, Ok ()) \<and> numeric_decode B bs = Ok n \<and>
    to_bigdecimal I D zero n = Ok d' \<and> big_value D int_of d' = big_value D int_of d"
proof -
  obtain s ds w sc where n: "n = Number s ds w sc" "\<forall>d \<in> set ds. is_valid_digit d"
    using big_decimal.from_bigdecimal_value(2) [OF assms(1,3)] by blast
  then have "valid_numeric n" using assms(4) by (simp add: valid_numeric_def)
  from numeric_decode_encode [OF assms(2) this] obtain bs where
    bs: "numeric_encode n buf = (buf @ bs, Ok ())" "numeric_decode B bs = Ok n" by blast
  obtain d' where d': "to_bigdecimal I D zero n = Ok d'" "numeric_value n = Some (big_value D int_of d')"
    using big_decimal.to_bigdecimal_value [OF assms(1) n(2), of s w sc] n(1) by blast
  with big_decimal.from_bigdecimal_value(1) [OF assms(1,3)] bs show ?thesis by auto
qed

definition example_numeric :: PgNumeric where
  "example_numeric = Number Negative [12, 3450] 0 3"

lemma example_bigdecimal: "from_bigdecimal int_bigint pair_decimal (-12345, 3) = Ok example_numeric"
proof -
  have r: "nat_radix 10 12345 = [1, 2, 3, 4, 5]" by (simp add: nat_radix.simps)
  show ?thesis
    by (simp add: from_bigdecimal_def int_bigint_def pair_decimal_def r i16_try_from_def numeric_weight_def numeric_digits_def
        base_10_to_10000_def sign_to_pg_def example_numeric_def)
qed

theorem pg_bigdecimal_roundtrip_witness:
  "\<exists>bs d'. numeric_encode example_numeric [] = (bs, Ok ()) \<and> numeric_decode list_bytes bs = Ok example_numeric \<and>
    to_bigdecimal int_bigint pair_decimal 0 example_numeric = Ok d' \<and>
    big_value pair_decimal (\<lambda>i. i) d' = big_value pair_decimal (\<lambda>i. i) (-12345, 3)"
  using pg_bigdecimal_roundtrip [OF int_dec.big_decimal_axioms list_cursor.bytes_contract_axioms example_bigdecimal, of "[]"]
  by (simp add: example_numeric_def)

text \<open>
  C18. Every \<^verbatim>\<open>Decimal\<close> (a mantissa of 96 bits and a scale of at most 28) converts to \<^verbatim>\<open>NUMERIC\<close> without
  panicking: the assertions on scale and length hold, nothing overflows, the value is exactly that of the decimal,
  and the encoder accepts the result.
\<close>

theorem pg_decimal_exact:
  assumes "rust_decimal R"
  shows "\<exists>n. from_decimal R d = Ok n \<and> valid_numeric n \<and>
    numeric_value n = Some (of_int (dec_mantissa R d) * 10 powi (- int (dec_scale R d)))"
  by (rule rust_decimal.from_decimal_exact [OF assms])

theorem pg_decimal_exact_witness:
  "\<exists>n. from_decimal pair_rust_decimal (-12345, 3) = Ok n \<and> numeric_value n = Some (-12345 * 10 powi (-3))"
  using pg_decimal_exact [OF pair_dec.rust_decimal_axioms, of "(-12345, 3)"] by (auto simp: pair_rust_decimal_def)

end
