(* ===== verification/Statement_Cache.thy ===== *)
theory Statement_Cache
  imports Prelude "HOL-Library.Multiset"
begin

section \<open>The cache of prepared statements\<close>

text \<open>
  \<^verbatim>\<open>sqlx-core/src/common/statement_cache.rs\<close> wraps the LRU cache of the crate hashlink, which is a parameter
  (\<open>lru_api\<close>); the locale \<open>lru_cache\<close> says in terms of its entries, least recently used first, what
  the crate documents.  The lemmas show that a statement that enters the cache stays there or is handed
  back to be closed.
\<close>

record ('k, 'v, 'l) lru_api =
  lru_new :: "nat \<Rightarrow> 'l"
  lru_get_mut :: "'k \<Rightarrow> 'l \<Rightarrow> 'l \<times> 'v option"
  lru_insert :: "'k \<Rightarrow> 'v \<Rightarrow> 'l \<Rightarrow> 'l \<times> 'v option"
  lru_remove :: "'k \<Rightarrow> 'l \<Rightarrow> 'l \<times> 'v option"
  lru_remove_lru :: "'l \<Rightarrow> 'l \<times> ('k \<times> 'v) option"
  lru_len :: "'l \<Rightarrow> nat"
  lru_contains_key :: "'k \<Rightarrow> 'l \<Rightarrow> bool"
  lru_capacity :: "'l \<Rightarrow> nat"
  lru_clear :: "'l \<Rightarrow> 'l"

definition cache_new :: "('k, 'v, 'l) lru_api \<Rightarrow> nat \<Rightarrow> 'l" where
  "cache_new L capacity = lru_new L capacity"

definition cache_get_mut :: "('k, 'v, 'l) lru_api \<Rightarrow> 'k \<Rightarrow> 'l \<Rightarrow> 'l \<times> 'v option" where
  "cache_get_mut L k c = lru_get_mut L k c"

definition cache_len :: "('k, 'v, 'l) lru_api \<Rightarrow> 'l \<Rightarrow> nat" where
  "cache_len L c = lru_len L c"

definition cache_is_empty :: "('k, 'v, 'l) lru_api \<Rightarrow> 'l \<Rightarrow> bool" where
  "cache_is_empty L c \<longleftrightarrow> lru_len L c = 0"

definition cache_remove_lru :: "('k, 'v, 'l) lru_api \<Rightarrow> 'l \<Rightarrow> 'l \<times> 'v option" where
  "cache_remove_lru L c = (case lru_remove_lru L c of (c', r) \<Rightarrow> (c', map_option snd r))"

definition cache_clear :: "('k, 'v, 'l) lru_api \<Rightarrow> 'l \<Rightarrow> 'l" where
  "cache_clear L c = lru_clear L c"

definition cache_contains_key :: "('k, 'v, 'l) lru_api \<Rightarrow> 'k \<Rightarrow> 'l \<Rightarrow> bool" where
  "cache_contains_key L k c = lru_contains_key L k c"

definition cache_capacity :: "('k, 'v, 'l) lru_api \<Rightarrow> 'l \<Rightarrow> nat" where
  "cache_capacity L c = lru_capacity L c"

definition cache_is_enabled :: "('k, 'v, 'l) lru_api \<Rightarrow> 'l \<Rightarrow> bool" where
  "cache_is_enabled L c \<longleftrightarrow> 0 < cache_capacity L c"

definition cache_insert :: "('k, 'v, 'l) lru_api \<Rightarrow> 'k \<Rightarrow> 'v \<Rightarrow> 'l \<Rightarrow> 'l \<times> 'v option" where
  "cache_insert L k v c =
     (let (c, lru_item) =
        (if cache_capacity L c = cache_len L c \<and> \<not> cache_contains_key L k c then cache_remove_lru L c
         else if cache_contains_key L k c then lru_remove L k c
         else (c, None)) in
      (fst (lru_insert L k v c), lru_item))"

subsection \<open>The contract of the crate\<close>

definition without :: "'k \<Rightarrow> ('k \<times> 'v) list \<Rightarrow> ('k \<times> 'v) list" where
  "without k xs = filter (\<lambda>(k', _). k' \<noteq> k) xs"

lemma map_of_without [simp]: "map_of (without k xs) j = (if j = k then None else map_of xs j)"
  by (induction xs) (auto simp: without_def)

lemma keys_without: "set (map fst (without k xs)) = set (map fst xs) - {k}"
  by (force simp: without_def)

lemma without_absent: "map_of xs k = None \<Longrightarrow> without k xs = xs"
  by (induction xs) (auto simp: without_def split: if_splits)

lemma distinct_without: "distinct (map fst xs) \<Longrightarrow> distinct (map fst (without k xs))"
  by (induction xs) (auto simp: without_def)

lemma mset_without:
  "distinct (map fst xs) \<Longrightarrow> map_of xs k = Some v \<Longrightarrow> mset xs = add_mset (k, v) (mset (without k xs))"
proof (induction xs)
  case (Cons x xs)
  show ?case
  proof (cases "fst x = k")
    case True
    with Cons.prems have "map_of xs k = None" "x = (k, v)" by (auto simp: map_of_eq_None_iff)
    then show ?thesis using without_absent [of xs k] by (simp add: without_def)
  next
    case False
    with Cons show ?thesis by (cases x) (auto simp: without_def)
  qed
qed simp

locale lru_cache =
  fixes L :: "('k, 'v, 'l) lru_api" and items :: "'l \<Rightarrow> ('k \<times> 'v) list"
  assumes lru_distinct: "distinct (map fst (items c))"
    and lru_bounded: "length (items c) \<le> lru_capacity L c"
    and lru_new_items: "items (lru_new L n) = []" "lru_capacity L (lru_new L n) = n"
    and lru_len_items: "lru_len L c = length (items c)"
    and lru_contains_items: "lru_contains_key L k c \<longleftrightarrow> map_of (items c) k \<noteq> None"
    and lru_get_items: "lru_get_mut L k c = (c', r) \<Longrightarrow>
      r = map_of (items c) k \<and> lru_capacity L c' = lru_capacity L c \<and>
      items c' = (case r of None \<Rightarrow> items c | Some v \<Rightarrow> without k (items c) @ [(k, v)])"
    and lru_insert_items: "lru_insert L k v c = (c', r) \<Longrightarrow>
      lru_capacity L c' = lru_capacity L c \<and>
      items c' = (let xs = without k (items c) @ [(k, v)] in if lru_capacity L c < length xs then tl xs else xs)"
    and lru_remove_items: "lru_remove L k c = (c', r) \<Longrightarrow>
      r = map_of (items c) k \<and> lru_capacity L c' = lru_capacity L c \<and> items c' = without k (items c)"
    and lru_remove_lru_items: "lru_remove_lru L c = (c', e) \<Longrightarrow>
      lru_capacity L c' = lru_capacity L c \<and>
      (case items c of [] \<Rightarrow> e = None \<and> items c' = [] | x # xs \<Rightarrow> e = Some x \<and> items c' = xs)"
    and lru_clear_items: "items (lru_clear L c) = []" "lru_capacity L (lru_clear L c) = lru_capacity L c"
begin

lemma cache_get_items:
  "cache_get_mut L k c = (c', r) \<Longrightarrow> r = map_of (items c) k \<and> lru_capacity L c' = lru_capacity L c \<and>
    mset (items c') = mset (items c) \<and> (r = None \<longrightarrow> items c' = items c)"
  using lru_get_items [of k c c' r] mset_without [OF lru_distinct, of c k] unfolding cache_get_mut_def
  by (cases "map_of (items c) k") auto

lemma cache_remove_lru_items:
  assumes "cache_remove_lru L c = (c', r)"
  shows "lru_capacity L c' = lru_capacity L c \<and>
    (case items c of [] \<Rightarrow> r = None \<and> items c' = [] | x # xs \<Rightarrow> r = Some (snd x) \<and> items c' = xs)"
  using assms lru_remove_lru_items [of c] unfolding cache_remove_lru_def
  by (cases "lru_remove_lru L c") (auto split: list.splits)

lemma cache_insert_items:
  assumes "cache_insert L k v c = (c', r)" and cap: "0 < lru_capacity L c"
  shows "lru_capacity L c' = lru_capacity L c \<and>
    (case map_of (items c) k of
       Some w \<Rightarrow> r = Some w \<and> items c' = without k (items c) @ [(k, v)]
     | None \<Rightarrow>
         if length (items c) = lru_capacity L c
         then r = Some (snd (hd (items c))) \<and> items c' = tl (items c) @ [(k, v)]
         else r = None \<and> items c' = items c @ [(k, v)])"
proof (cases "map_of (items c) k")
  case None
  note w = without_absent [OF None]
  show ?thesis
  proof (cases "length (items c) = lru_capacity L c")
    case True
    with cap obtain x xs where x: "items c = x # xs" by (cases "items c") auto
    obtain c1 r1 where c1: "cache_remove_lru L c = (c1, r1)" by (cases "cache_remove_lru L c")
    from cache_remove_lru_items [OF c1] x have i: "items c1 = xs" "r1 = Some (snd x)" "lru_capacity L c1 = lru_capacity L c"
      by auto
    obtain c2 r2 where c2: "lru_insert L k v c1 = (c2, r2)" by (cases "lru_insert L k v c1")
    have "without k xs = xs" using None x by (intro without_absent) (auto split: if_splits)
    with lru_insert_items [OF c2] i True x have "items c2 = xs @ [(k, v)]" "lru_capacity L c2 = lru_capacity L c" by auto
    moreover have "c' = c2" "r = r1"
      using assms(1) True None c1 c2
      by (auto simp: cache_insert_def cache_capacity_def cache_len_def lru_len_items cache_contains_key_def lru_contains_items)
    ultimately show ?thesis using None True x i by simp
  next
    case False
    obtain c2 r2 where c2: "lru_insert L k v c = (c2, r2)" by (cases "lru_insert L k v c")
    from lru_insert_items [OF c2] w False lru_bounded [of c]
    have "items c2 = items c @ [(k, v)]" "lru_capacity L c2 = lru_capacity L c" by auto
    moreover have "c' = c2" "r = None"
      using assms(1) False None c2
      by (auto simp: cache_insert_def cache_capacity_def cache_len_def lru_len_items cache_contains_key_def lru_contains_items)
    ultimately show ?thesis using None False by simp
  qed
next
  case (Some w)
  obtain c1 r1 where c1: "lru_remove L k c = (c1, r1)" by (cases "lru_remove L k c")
  from lru_remove_items [OF c1] Some
  have i: "r1 = Some w" "items c1 = without k (items c)" "lru_capacity L c1 = lru_capacity L c" by auto
  obtain c2 r2 where c2: "lru_insert L k v c1 = (c2, r2)" by (cases "lru_insert L k v c1")
  have ww: "without k (without k (items c)) = without k (items c)" by (intro without_absent) simp
  have "length (items c) = Suc (length (without k (items c)))"
    using arg_cong [OF mset_without [OF lru_distinct Some], of size] by simp
  with lru_insert_items [OF c2] i ww lru_bounded [of c]
  have "items c2 = without k (items c) @ [(k, v)]" "lru_capacity L c2 = lru_capacity L c" by auto
  moreover have "c' = c2" "r = r1"
    using assms(1) Some c1 c2
    by (auto simp: cache_insert_def cache_capacity_def cache_len_def lru_len_items cache_contains_key_def lru_contains_items)
  ultimately show ?thesis using Some i by simp
qed

lemma cache_insert_conserves:
  assumes "cache_insert L k v c = (c', r)" and "0 < lru_capacity L c"
  shows "mset (map snd (items c')) + (case r of None \<Rightarrow> {#} | Some w \<Rightarrow> {#w#}) = add_mset v (mset (map snd (items c)))"
proof (cases "map_of (items c) k")
  case None
  show ?thesis
  proof (cases "length (items c) = lru_capacity L c")
    case True
    with assms(2) have "items c \<noteq> []" by auto
    with cache_insert_items [OF assms] None True show ?thesis by (cases "items c") auto
  next
    case False
    with cache_insert_items [OF assms] None show ?thesis by simp
  qed
next
  case (Some w)
  have "mset (map snd (items c)) = add_mset w (mset (map snd (without k (items c))))"
    using arg_cong [OF mset_without [OF lru_distinct Some], of "image_mset snd"] by simp
  with cache_insert_items [OF assms] Some show ?thesis by simp
qed

lemma cache_insert_finds:
  assumes "cache_insert L k v c = (c', r)" and "0 < lru_capacity L c"
  shows "map_of (items c') k = Some v"
proof -
  have "map_of (items c') k = Some v \<longleftrightarrow> (k, v) \<in> set (items c')" using lru_distinct by simp
  moreover have "(k, v) \<in> set (items c')"
    using cache_insert_items [OF assms] by (auto split: option.splits if_splits)
  ultimately show ?thesis by simp
qed

end

text \<open>The capacity with the list of entries satisfies the contract.\<close>

definition list_items :: "nat \<times> ('k \<times> 'v) list \<Rightarrow> ('k \<times> 'v) list" where
  "list_items c = (if distinct (map fst (snd c)) \<and> length (snd c) \<le> fst c then snd c else [])"

definition list_lru :: "('k, 'v, nat \<times> ('k \<times> 'v) list) lru_api" where
  "list_lru =
     \<lparr>lru_new = (\<lambda>n. (n, [])),
      lru_get_mut = (\<lambda>k c. case map_of (list_items c) k of
         None \<Rightarrow> (c, None) | Some v \<Rightarrow> ((fst c, without k (list_items c) @ [(k, v)]), Some v)),
      lru_insert = (\<lambda>k v c. let xs = without k (list_items c) @ [(k, v)] in
         ((fst c, if fst c < length xs then tl xs else xs), map_of (list_items c) k)),
      lru_remove = (\<lambda>k c. ((fst c, without k (list_items c)), map_of (list_items c) k)),
      lru_remove_lru = (\<lambda>c. case list_items c of [] \<Rightarrow> ((fst c, []), None) | x # xs \<Rightarrow> ((fst c, xs), Some x)),
      lru_len = (\<lambda>c. length (list_items c)), lru_contains_key = (\<lambda>k c. map_of (list_items c) k \<noteq> None),
      lru_capacity = fst, lru_clear = (\<lambda>c. (fst c, []))\<rparr>"

lemma list_items_facts: "distinct (map fst (list_items c))" "length (list_items c) \<le> fst c"
  by (simp_all add: list_items_def)

lemma list_items_eq: "distinct (map fst xs) \<Longrightarrow> length xs \<le> n \<Longrightarrow> list_items (n, xs) = xs"
  by (simp add: list_items_def)

lemma length_without: "map_of xs k = Some v \<Longrightarrow> length (without k xs) < length xs"
  by (induction xs) (auto simp: without_def less_Suc_eq_le split: if_splits)

lemma length_without_le: "length (without k xs) \<le> length xs"
  by (simp add: without_def)

lemma distinct_without_snoc: "distinct (map fst xs) \<Longrightarrow> distinct (map fst (without k xs @ [(k, v)]))"
  using keys_without [of k xs] distinct_without [of xs k] by auto

interpretation list_lru: lru_cache list_lru list_items
proof
  fix c c' :: "nat \<times> ('k \<times> 'v) list" and k :: 'k and v :: 'v and n and r :: "'v option" and e :: "('k \<times> 'v) option"
  note d = list_items_facts(1) [of c] and b = list_items_facts(2) [of c]
  show "distinct (map fst (list_items c))" "length (list_items c) \<le> lru_capacity list_lru c"
    "list_items (lru_new list_lru n) = []" "lru_capacity list_lru (lru_new list_lru n) = n"
    "lru_len list_lru c = length (list_items c)" "lru_contains_key list_lru k c \<longleftrightarrow> map_of (list_items c) k \<noteq> None"
    "list_items (lru_clear list_lru c) = []" "lru_capacity list_lru (lru_clear list_lru c) = lru_capacity list_lru c"
    by (simp_all add: list_lru_def list_items_facts) (simp_all add: list_items_def)
  show "r = map_of (list_items c) k \<and> lru_capacity list_lru c' = lru_capacity list_lru c \<and>
      list_items c' = (case r of None \<Rightarrow> list_items c | Some v \<Rightarrow> without k (list_items c) @ [(k, v)])"
    if "lru_get_mut list_lru k c = (c', r)"
    using that length_without [of "list_items c" k] distinct_without_snoc [OF d, of k] b
    by (auto simp: list_lru_def split: option.splits intro!: list_items_eq) 
  show "lru_capacity list_lru c' = lru_capacity list_lru c \<and>
      list_items c' = (let xs = without k (list_items c) @ [(k, v)] in if lru_capacity list_lru c < length xs then tl xs else xs)"
    if "lru_insert list_lru k v c = (c', r)"
    using that distinct_without_snoc [OF d, of k v] length_without_le [of k "list_items c"] b
    by (auto simp: list_lru_def Let_def map_tl distinct_tl intro!: list_items_eq)
  show "r = map_of (list_items c) k \<and> lru_capacity list_lru c' = lru_capacity list_lru c \<and> list_items c' = without k (list_items c)"
    if "lru_remove list_lru k c = (c', r)"
    using that distinct_without [OF d, of k] length_without_le [of k "list_items c"] b
    by (auto simp: list_lru_def intro!: list_items_eq)
  show "lru_capacity list_lru c' = lru_capacity list_lru c \<and>
      (case list_items c of [] \<Rightarrow> e = None \<and> list_items c' = [] | x # xs \<Rightarrow> e = Some x \<and> list_items c' = xs)"
    if "lru_remove_lru list_lru c = (c', e)"
    using that d b by (cases "list_items c") (auto simp: list_lru_def intro!: list_items_eq)
qed

text \<open>
  A statement that enters the cache is found there under its text, the cache never exceeds its capacity,
  and no statement is lost: what the cache holds afterwards and what the insertion hands back to be
  closed are together what it held before and the new statement.
\<close>

theorem statement_cache_insert:
  assumes "lru_cache L items" and "cache_insert L k v c = (c', r)" and "cache_is_enabled L c"
  shows "map_of (items c') k = Some v \<and> length (items c') \<le> cache_capacity L c \<and>
    mset (map snd (items c')) + (case r of None \<Rightarrow> {#} | Some w \<Rightarrow> {#w#}) = add_mset v (mset (map snd (items c)))"
proof -
  have p: "0 < lru_capacity L c" using assms(3) by (simp add: cache_is_enabled_def cache_capacity_def)
  have "lru_capacity L c' = lru_capacity L c" using lru_cache.cache_insert_items [OF assms(1,2) p] by blast
  moreover have "length (items c') \<le> lru_capacity L c'" by (rule lru_cache.lru_bounded [OF assms(1)])
  ultimately show ?thesis
    using lru_cache.cache_insert_finds [OF assms(1,2) p] lru_cache.cache_insert_conserves [OF assms(1,2) p]
    by (simp add: cache_capacity_def)
qed

theorem statement_cache_insert_witness:
  "\<exists>c' r. cache_insert list_lru ''c'' (3 :: nat) (2, [(''a'', 1), (''b'', 2)]) = (c', r) \<and> map_of (list_items c') ''c'' = Some 3"
proof -
  obtain c' r where c: "cache_insert list_lru ''c'' (3 :: nat) (2, [(''a'', 1), (''b'', 2)]) = (c', r)" by fastforce
  have "cache_is_enabled list_lru (2, [(''a'', 1 :: nat), (''b'', 2)])"
    by (simp add: cache_is_enabled_def cache_capacity_def list_lru_def)
  from statement_cache_insert [OF list_lru.lru_cache_axioms c this] c show ?thesis by auto
qed

end
