(* ===== verification/Pg_Statements.thy ===== *)
theory Pg_Statements
  imports Pg_Connection Pg_Frontend Statement_Cache
begin

section \<open>Prepared statements of the PostgreSQL connection\<close>

text \<open>
  The extended query protocol of \<^verbatim>\<open>sqlx-postgres/src/connection/executor.rs\<close>: preparing a statement under a fresh
  name, the statement cache, binding and executing, and closing what the cache gives up.  The
  connection record holds what these functions touch; the server is a parameter, and the locale
  \<open>extended_server\<close> states how it answers each message.  Parameter type OIDs are not part of
  the \<^verbatim>\<open>Parse\<close> message here, which leaves the types to the server (the lookup of user-defined types is another query), and the
  metadata is what the server describes.
\<close>

datatype ext_msg =
    EParse id_inner string
  | EDescribe id_inner
  | EBind id_inner nat bytes
  | EExecute
  | EClosePortal
  | EClose id_inner
  | ESync

record pg_metadata =
  md_parameters :: "u32 list"
  md_columns :: "field list option"

record ('s, 'l) pg_prep =
  sp_server :: 's
  sp_out :: "ext_msg list"
  sp_stream :: pg_stream
  sp_pending :: nat
  sp_status :: TransactionStatus
  next_statement_id :: id_inner
  cache_statement :: 'l

type_synonym 's ext_server = "ext_msg \<Rightarrow> 's \<Rightarrow> 's \<times> received_message list"

type_synonym 'l pg_lru = "(string, id_inner \<times> pg_metadata, 'l) lru_api"

subsection \<open>The exchange with the server\<close>

primrec ext_answers :: "'s ext_server \<Rightarrow> ext_msg list \<Rightarrow> 's \<Rightarrow> 's \<times> received_message list" where
  "ext_answers S [] s = (s, [])"
| "ext_answers S (m # ms) s =
     (case S m s of (s1, r1) \<Rightarrow> case ext_answers S ms s1 of (s2, r2) \<Rightarrow> (s2, r1 @ r2))"

definition ext_flush :: "'s ext_server \<Rightarrow> (('s, 'l) pg_prep, unit) async" where
  "ext_flush S = await (\<lambda>c. case ext_answers S (sp_out c) (sp_server c) of (s, ms) \<Rightarrow>
     (c\<lparr>sp_server := s, sp_out := [], sp_stream := (sp_stream c)\<lparr>rx := rx (sp_stream c) @ ms\<rparr>\<rparr>, Ok ()))"

definition ext_recv :: "bytes_api \<Rightarrow> (('s, 'l) pg_prep, received_message) async" where
  "ext_recv B k c =
     (case k of
        0 \<Rightarrow> (c, 0, None)
      | Suc k \<Rightarrow>
          (case recv B (sp_stream c) of
             (st, None) \<Rightarrow> (c\<lparr>sp_stream := st\<rparr>, 0, None)
           | (st, Some r) \<Rightarrow> (c\<lparr>sp_stream := st\<rparr>, k, Some r)))"

definition recv_expect ::
  "bytes_api \<Rightarrow> BackendMessageFormat \<Rightarrow> (bytes \<Rightarrow> 'a result) \<Rightarrow> (('s, 'l) pg_prep, 'a) async"
where
  "recv_expect B fmt decode_body = abind (ext_recv B) (\<lambda>m. aret (message_decode fmt decode_body m))"

text \<open>The counter is unsigned: taking one from zero panics.\<close>

definition recv_ready_for_query :: "bytes_api \<Rightarrow> (('s, 'l) pg_prep, unit) async" where
  "recv_ready_for_query B =
     abind (recv_expect B ReadyForQuery ready_for_query_decode) (\<lambda>t.
       sync (\<lambda>c. if sp_pending c = 0 then (c, Panic)
                  else (c\<lparr>sp_pending := sp_pending c - 1, sp_status := t\<rparr>, Ok ())))"

definition ext_handle_ready :: "received_message \<Rightarrow> ('s, 'l) pg_prep \<Rightarrow> ('s, 'l) pg_prep \<times> unit result" where
  "ext_handle_ready m c =
     (if sp_pending c = 0 then (c, Err (Protocol ''received more ReadyForQuery messages than expected''))
      else
        let c = c\<lparr>sp_pending := sp_pending c - 1\<rparr> in
        case message_decode ReadyForQuery ready_for_query_decode m of
          Ok t \<Rightarrow> (c\<lparr>sp_status := t\<rparr>, Ok ())
        | Err e \<Rightarrow> (c, Err e)
        | Panic \<Rightarrow> (c, Panic))"

fun ext_wait_loop :: "bytes_api \<Rightarrow> (('s, 'l) pg_prep, unit) async" where
  "ext_wait_loop B k c =
     (if sp_pending c = 0 then (c, k, Some (Ok ()))
      else case k of
          0 \<Rightarrow> (c, 0, None)
        | Suc k' \<Rightarrow>
            abind (ext_recv B) (\<lambda>m _ c.
              if msg_format m = ReadyForQuery
              then abind (sync (ext_handle_ready m)) (\<lambda>_ _. ext_wait_loop B k') k' c
              else ext_wait_loop B k' c) k c)"

definition ext_wait_until_ready :: "bytes_api \<Rightarrow> 's ext_server \<Rightarrow> (('s, 'l) pg_prep, unit) async" where
  "ext_wait_until_ready B S k c =
     (if sp_out c = [] then ext_wait_loop B k c else abind (ext_flush S) (\<lambda>_. ext_wait_loop B) k c)"

definition ext_write :: "ext_msg \<Rightarrow> ('s, 'l) pg_prep \<Rightarrow> ('s, 'l) pg_prep" where
  "ext_write m c = c\<lparr>sp_out := sp_out c @ [m]\<rparr>"

definition ext_write_sync :: "('s, 'l) pg_prep \<Rightarrow> ('s, 'l) pg_prep" where
  "ext_write_sync c = (ext_write ESync c)\<lparr>sp_pending := sp_pending c + 1\<rparr>"

text \<open>\<^verbatim>\<open>Parse\<close>, here without parameter types, may exceed the length prefix; so may \<^verbatim>\<open>Bind\<close> below.\<close>

definition write_parse :: "id_inner \<Rightarrow> string \<Rightarrow> ('s, 'l) pg_prep \<Rightarrow> ('s, 'l) pg_prep \<times> unit result" where
  "write_parse i q c =
     (if 4 + name_len stmt_prefix i + length q + 1 + 2 < 2 ^ 31 then (ext_write (EParse i q) c, Ok ())
      else (c, Err (Protocol ''message size out of range for protocol'')))"

subsection \<open>Preparing\<close>

definition take_statement_id :: "('s, 'l) pg_prep \<Rightarrow> ('s, 'l) pg_prep \<times> id_inner result" where
  "take_statement_id c = (c\<lparr>next_statement_id := id_next (next_statement_id c)\<rparr>, Ok (next_statement_id c))"

definition recv_desc_params :: "bytes_api \<Rightarrow> (('s, 'l) pg_prep, u32 list) async" where
  "recv_desc_params B = recv_expect B ParameterDescription (parameter_description_decode B)"

definition recv_desc_rows :: "bytes_api \<Rightarrow> (('s, 'l) pg_prep, field list option) async" where
  "recv_desc_rows B =
     abind (ext_recv B) (\<lambda>m.
       if msg_format m = RowDescription
       then aret (rmap Some (message_decode RowDescription (row_description_decode B) m))
       else if msg_format m = NoData then aret (Ok None)
       else aret (Err (Protocol ''expecting RowDescription or NoData'')))"

definition prepare ::
  "bytes_api \<Rightarrow> 's ext_server \<Rightarrow> string \<Rightarrow> pg_metadata option \<Rightarrow> (('s, 'l) pg_prep, id_inner \<times> pg_metadata) async"
where
  "prepare B S q metadata =
     abind (sync take_statement_id) (\<lambda>i.
     abind (ext_wait_until_ready B S) (\<lambda>_.
     abind (sync (write_parse i q)) (\<lambda>_.
     abind (amodify (if metadata = None then ext_write (EDescribe i) else (\<lambda>c. c))) (\<lambda>_.
     abind (amodify ext_write_sync) (\<lambda>_.
     abind (ext_flush S) (\<lambda>_.
     abind (recv_expect B ParseComplete (\<lambda>_. Ok ())) (\<lambda>_.
     case metadata of
       Some md \<Rightarrow> abind (recv_ready_for_query B) (\<lambda>_. aret (Ok (i, md)))
     | None \<Rightarrow>
         abind (recv_desc_params B) (\<lambda>ps.
         abind (recv_desc_rows B) (\<lambda>rows.
         abind (recv_ready_for_query B) (\<lambda>_.
         abind (ext_wait_until_ready B S) (\<lambda>_.
           aret (Ok (i, \<lparr>md_parameters = ps, md_columns = rows\<rparr>)))))))))))))"

fun wait_for_close_complete :: "bytes_api \<Rightarrow> nat \<Rightarrow> (('s, 'l) pg_prep, unit) async" where
  "wait_for_close_complete B n k c =
     (if n = 0 then (c, k, Some (Ok ()))
      else case k of
          0 \<Rightarrow> (c, 0, None)
        | Suc k' \<Rightarrow>
            abind (ext_recv B) (\<lambda>m _ c.
              if msg_format m = PortalSuspended then wait_for_close_complete B n k' c
              else if msg_format m = CloseComplete then wait_for_close_complete B (n - 1) k' c
              else (c, k', Some (Err (Protocol ''expecting PortalSuspended or CloseComplete'')))) k c)"

text \<open>Messages already written, \<^verbatim>\<open>Sync\<close>, the flush, and the answers to \<open>n\<close> closes.\<close>

definition finish_closing :: "bytes_api \<Rightarrow> 's ext_server \<Rightarrow> nat \<Rightarrow> (('s, 'l) pg_prep, unit) async" where
  "finish_closing B S n =
     abind (amodify ext_write_sync) (\<lambda>_.
     abind (ext_flush S) (\<lambda>_.
     abind (wait_for_close_complete B n) (\<lambda>_. recv_ready_for_query B)))"

definition cache_lookup ::
  "'l pg_lru \<Rightarrow> string \<Rightarrow> ('s, 'l) pg_prep \<Rightarrow> ('s, 'l) pg_prep \<times> (id_inner \<times> pg_metadata) option result"
where
  "cache_lookup L q c =
     (case cache_get_mut L q (cache_statement c) of (l, r) \<Rightarrow> (c\<lparr>cache_statement := l\<rparr>, Ok r))"

definition cache_store ::
  "'l pg_lru \<Rightarrow> bool \<Rightarrow> string \<Rightarrow> id_inner \<times> pg_metadata \<Rightarrow> ('s, 'l) pg_prep \<Rightarrow>
    ('s, 'l) pg_prep \<times> (id_inner \<times> pg_metadata) option result"
where
  "cache_store L store_to_cache q v c =
     (if store_to_cache \<and> cache_is_enabled L (cache_statement c)
      then (case cache_insert L q v (cache_statement c) of (l, old) \<Rightarrow> (c\<lparr>cache_statement := l\<rparr>, Ok old))
      else (c, Ok None))"

definition get_or_prepare ::
  "bytes_api \<Rightarrow> 's ext_server \<Rightarrow> 'l pg_lru \<Rightarrow> string \<Rightarrow> bool \<Rightarrow> pg_metadata option \<Rightarrow>
    (('s, 'l) pg_prep, id_inner \<times> pg_metadata) async"
where
  "get_or_prepare B S L q store_to_cache metadata =
     abind (sync (cache_lookup L q)) (\<lambda>hit.
       case hit of
         Some st \<Rightarrow> aret (Ok st)
       | None \<Rightarrow>
           abind (prepare B S q metadata) (\<lambda>st.
           abind (sync (cache_store L store_to_cache q st)) (\<lambda>old.
             case old of
               Some (i, _) \<Rightarrow>
                 abind (amodify (ext_write (EClose i))) (\<lambda>_.
                 abind (finish_closing B S 1) (\<lambda>_. aret (Ok st)))
             | None \<Rightarrow> aret (Ok st))))"

subsection \<open>Executing\<close>

fun ext_run_loop :: "bytes_api \<Rightarrow> (('s, 'l) pg_prep, unit) async" where
  "ext_run_loop B k c =
     (case k of
        0 \<Rightarrow> (c, 0, None)
      | Suc k' \<Rightarrow>
          abind (ext_recv B) (\<lambda>m _ c.
            if msg_format m \<in> {BindComplete, ParseComplete, ParameterDescription, NoData, CloseComplete,
                 CommandComplete, EmptyQueryResponse, PortalSuspended} then ext_run_loop B k' c
            else if msg_format m = RowDescription
            then abind (aret (message_decode RowDescription (row_description_decode B) m)) (\<lambda>_ _. ext_run_loop B k') k' c
            else if msg_format m = DataRow
            then abind (aret (message_decode DataRow data_row_decode m)) (\<lambda>_ _. ext_run_loop B k') k' c
            else if msg_format m = ReadyForQuery then sync (ext_handle_ready m) k' c
            else (c, k', Some (Err (Protocol ''execute: unexpected message'')))) k c)"

text \<open>
  \<^verbatim>\<open>PgConnection::run\<close> with arguments, its rows discarded.  Arguments are their number and the buffer
  they were encoded to, with the type holes already patched.
\<close>

type_synonym arguments = "nat \<times> bytes"

definition write_bind :: "id_inner \<Rightarrow> arguments \<Rightarrow> ('s, 'l) pg_prep \<Rightarrow> ('s, 'l) pg_prep \<times> unit result" where
  "write_bind i a c =
     (if 4 + 1 + name_len stmt_prefix i + 2 + 2 + 2 + length (snd a) + 2 + 2 < 2 ^ 31
      then (ext_write (EBind i (fst a) (snd a)) c, Ok ())
      else (c, Err (Protocol ''message size out of range for protocol'')))"

definition run_prepared ::
  "bytes_api \<Rightarrow> 's ext_server \<Rightarrow> 'l pg_lru \<Rightarrow> string \<Rightarrow> arguments \<Rightarrow> bool \<Rightarrow> pg_metadata option \<Rightarrow>
    (('s, 'l) pg_prep, unit) async"
where
  "run_prepared B S L q a persistent metadata_opt =
     abind (ext_wait_until_ready B S) (\<lambda>_.
     if 2 ^ 16 \<le> fst a then aret (Err (Protocol ''PgConnection::run(): too many arguments for query'')) else
     abind (get_or_prepare B S L q persistent metadata_opt) (\<lambda>st.
     abind (ext_wait_until_ready B S) (\<lambda>_.
     abind (sync (write_bind (fst st) a)) (\<lambda>_.
     abind (amodify (ext_write EExecute)) (\<lambda>_.
     abind (amodify (ext_write EClosePortal)) (\<lambda>_.
     abind (amodify ext_write_sync) (\<lambda>_.
     abind (ext_flush S) (\<lambda>_. ext_run_loop B))))))))"

text \<open>\<^verbatim>\<open>clear_cached_statements\<close>: taking the statements out one by one; the fuel is one more than the
  cache holds, for the step that finds it empty.\<close>

primrec close_cached :: "'l pg_lru \<Rightarrow> nat \<Rightarrow> ('s, 'l) pg_prep \<Rightarrow> ('s, 'l) pg_prep \<times> nat" where
  "close_cached L 0 c = (c, 0)"
| "close_cached L (Suc n) c =
     (case cache_remove_lru L (cache_statement c) of
        (l, Some (i, _)) \<Rightarrow>
          (case close_cached L n (ext_write (EClose i) (c\<lparr>cache_statement := l\<rparr>)) of (c, cleared) \<Rightarrow> (c, cleared + 1))
      | (l, None) \<Rightarrow> (c\<lparr>cache_statement := l\<rparr>, 0))"

definition clear_cached_statements :: "bytes_api \<Rightarrow> 's ext_server \<Rightarrow> 'l pg_lru \<Rightarrow> (('s, 'l) pg_prep, unit) async" where
  "clear_cached_statements B S L =
     abind (ext_wait_until_ready B S) (\<lambda>_.
     abind (sync (\<lambda>c. case close_cached L (Suc (cache_len L (cache_statement c))) c of (c, n) \<Rightarrow> (c, Ok n))) (\<lambda>cleared.
       if 0 < cleared then finish_closing B S cleared else aret (Ok ())))"

definition cached_statements_size :: "'l pg_lru \<Rightarrow> ('s, 'l) pg_prep \<Rightarrow> nat" where
  "cached_statements_size L c = cache_len L (cache_statement c)"

type_synonym prepared_query = "string \<times> arguments \<times> bool"

primrec run_queries ::
  "bytes_api \<Rightarrow> 's ext_server \<Rightarrow> 'l pg_lru \<Rightarrow> prepared_query list \<Rightarrow> (('s, 'l) pg_prep, unit) async"
where
  "run_queries B S L [] = aret (Ok ())"
| "run_queries B S L (x # xs) =
     abind (run_prepared B S L (fst x) (fst (snd x)) (snd (snd x)) None) (\<lambda>_. run_queries B S L xs)"

subsection \<open>Executions that return\<close>

declare ext_wait_loop.simps [simp del] wait_for_close_complete.simps [simp del] ext_run_loop.simps [simp del]

definition plain_message :: "received_message \<Rightarrow> bool" where
  "plain_message m \<longleftrightarrow> msg_format m \<notin> {ErrorResponse, NotificationResponse, ParameterStatus, NoticeResponse}"

definition harmless_message :: "received_message \<Rightarrow> bool" where
  "harmless_message m \<longleftrightarrow>
     msg_format m \<in> {BindComplete, CloseComplete, CommandComplete, EmptyQueryResponse}
     \<or> msg_format m = DataRow \<and> (\<exists>r. message_decode DataRow data_row_decode m = Ok r)"

abbreviation rx_of :: "('s, 'l) pg_prep \<Rightarrow> received_message list" where
  "rx_of c \<equiv> rx (sp_stream c)"

definition set_rx :: "received_message list \<Rightarrow> ('s, 'l) pg_prep \<Rightarrow> ('s, 'l) pg_prep" where
  "set_rx ms c = c\<lparr>sp_stream := (sp_stream c)\<lparr>rx := ms\<rparr>\<rparr>"

lemma set_rx_sel [simp]:
  "rx_of (set_rx ms c) = ms" "sp_out (set_rx ms c) = sp_out c" "sp_pending (set_rx ms c) = sp_pending c"
  "sp_server (set_rx ms c) = sp_server c" "next_statement_id (set_rx ms c) = next_statement_id c"
  "cache_statement (set_rx ms c) = cache_statement c" "set_rx ms (set_rx ns c) = set_rx ms c"
  "sp_status (set_rx ms c) = sp_status c"
  by (simp_all add: set_rx_def)

lemma recv_plain: "rx st = m # ms \<Longrightarrow> plain_message m \<Longrightarrow> recv B st = (st\<lparr>rx := ms\<rparr>, Some (Ok m))"
  by (auto simp: recv_def plain_message_def split: BackendMessageFormat.splits)

lemma ext_recv_plain:
  "rx_of c = m # ms \<Longrightarrow> plain_message m \<Longrightarrow> ext_recv B (Suc k) c = (set_rx ms c, k, Some (Ok m))"
  by (simp add: ext_recv_def recv_plain set_rx_def)

lemma completes_ext_recv:
  assumes "rx_of c = m # ms" and "plain_message m"
  shows "completes (ext_recv B) c m (set_rx ms c)"
  unfolding completes_def by (rule exI [of _ 1]) (simp add: ext_recv_plain [OF assms])

lemma completes_recv_expect:
  assumes "rx_of c = m # ms" and "plain_message m" and "message_decode fmt d m = Ok x"
  shows "completes (recv_expect B fmt d) c x (set_rx ms c)"
  unfolding recv_expect_def
  by (rule completes_abind [OF completes_ext_recv [OF assms(1,2)]]) (simp add: assms(3) completes_aret)

lemma plain_ready [simp]: "plain_message (ready_message t)"
  by (simp add: plain_message_def)

lemma plain_harmless: "harmless_message m \<Longrightarrow> plain_message m"
  by (auto simp: harmless_message_def plain_message_def)

lemma completes_recv_ready:
  assumes "rx_of c = ready_message t # ms" and "sp_pending c = Suc n"
  shows "completes (recv_ready_for_query B) c () ((set_rx ms c)\<lparr>sp_pending := n, sp_status := t\<rparr>)"
  unfolding recv_ready_for_query_def
  by (rule completes_abind [OF completes_recv_expect [OF assms(1)]])
    (auto simp: assms(2) intro!: completes_sync)

lemma completes_ext_flush:
  assumes "ext_answers S (sp_out c) (sp_server c) = (s, ms)" and "rx_of c = []"
  shows "completes (ext_flush S) c () ((set_rx ms c)\<lparr>sp_server := s, sp_out := []\<rparr>)"
  unfolding ext_flush_def by (rule completes_await) (simp add: assms set_rx_def)

lemma completes_wait_ready:
  assumes "sp_out c = []" and "sp_pending c = 0"
  shows "completes (ext_wait_until_ready B S) c () c"
  unfolding completes_def by (rule exI [of _ 0]) (simp add: assms ext_wait_until_ready_def ext_wait_loop.simps)

lemma wait_for_close_completes:
  "rx_of c = replicate n \<lparr>msg_format = CloseComplete, contents = []\<rparr> @ ms \<Longrightarrow>
   wait_for_close_complete B n (n + k) c = (set_rx ms c, k, Some (Ok ()))"
proof (induction n arbitrary: c)
  case 0
  then show ?case by (simp add: set_rx_def wait_for_close_complete.simps)
next
  case (Suc n)
  let ?m = "\<lparr>msg_format = CloseComplete, contents = []\<rparr>"
  have r: "ext_recv B (Suc (n + k)) c = (set_rx (replicate n ?m @ ms) c, n + k, Some (Ok ?m))"
    using Suc.prems by (intro ext_recv_plain) (simp_all add: plain_message_def)
  show ?case
    using r Suc.IH [of "set_rx (replicate n ?m @ ms) c"]
    by (subst wait_for_close_complete.simps) (simp add: abind_def)
qed

lemma ext_run_loop_returns:
  "rx_of c = ms @ [ready_message t] \<Longrightarrow> list_all harmless_message ms \<Longrightarrow> sp_pending c = 1 \<Longrightarrow>
   ext_run_loop B (Suc (length ms + k)) c = ((set_rx [] c)\<lparr>sp_pending := 0, sp_status := t\<rparr>, k, Some (Ok ()))"
proof (induction ms arbitrary: c)
  case Nil
  then have "ext_recv B (Suc k) c = (set_rx [] c, k, Some (Ok (ready_message t)))"
    by (intro ext_recv_plain) simp_all
  with Nil show ?case by (simp add: ext_run_loop.simps abind_def sync_def ext_handle_ready_def)
next
  case (Cons m ms)
  let ?c = "set_rx (ms @ [ready_message t]) c"
  have r: "ext_recv B (Suc (Suc (length ms + k))) c = (?c, Suc (length ms + k), Some (Ok m))"
    using Cons.prems by (intro ext_recv_plain) (simp_all add: plain_harmless)
  have ih: "ext_run_loop B (Suc (length ms + k)) ?c = ((set_rx [] c)\<lparr>sp_pending := 0, sp_status := t\<rparr>, k, Some (Ok ()))"
    using Cons by simp
  from Cons.prems(2) have "harmless_message m" by simp
  then show ?case
    using r ih by (subst ext_run_loop.simps) (auto simp: abind_def aret_def harmless_message_def)
qed

lemma completes_finish_closing:
  assumes "ext_answers S (sp_out c @ [ESync]) (sp_server c) =
      (s, replicate n \<lparr>msg_format = CloseComplete, contents = []\<rparr> @ [ready_message t])"
    and "rx_of c = []" and "sp_pending c = 0"
  shows "completes (finish_closing B S n) c () (c\<lparr>sp_server := s, sp_out := [], sp_status := t\<rparr>)"
proof -
  let ?ms = "replicate n \<lparr>msg_format = CloseComplete, contents = []\<rparr> @ [ready_message t]"
  let ?c1 = "ext_write_sync c" and ?c2 = "(set_rx ?ms (ext_write_sync c))\<lparr>sp_server := s, sp_out := []\<rparr>"
  have 1: "completes (ext_flush S) ?c1 () ?c2"
    using assms by (intro completes_ext_flush) (simp_all add: ext_write_sync_def ext_write_def)
  have 2: "completes (wait_for_close_complete B n) ?c2 () (set_rx [ready_message t] ?c2)"
    unfolding completes_def by (intro exI [of _ n] allI wait_for_close_completes) (simp add: set_rx_def)
  have 3: "completes (recv_ready_for_query B) (set_rx [ready_message t] ?c2) () (c\<lparr>sp_server := s, sp_out := [], sp_status := t\<rparr>)"
    using completes_recv_ready [of "set_rx [ready_message t] ?c2" t "[]" 0 B] assms
    by (cases c; cases "sp_stream c") (simp add: ext_write_sync_def ext_write_def set_rx_def)
  show ?thesis
    unfolding finish_closing_def 
    by (rule completes_abind, rule completes_amodify, rule completes_abind, rule 1, rule completes_abind, rule 2, rule 3)
qed

subsection \<open>The server\<close>

text \<open>
  What the extended query protocol documents.  \<open>stmts\<close> gives the text of each open named statement,
  \<open>bound\<close> the statement and arguments of the unnamed portal, \<open>runlog\<close> what was executed so far, and
  \<open>good\<close> the statements with arguments that the server accepts.
\<close>

locale extended_server =
  fixes B :: bytes_api and S :: "'s ext_server" and stmts :: "'s \<Rightarrow> id_inner \<rightharpoonup> string"
    and bound :: "'s \<Rightarrow> (string \<times> arguments) option" and runlog :: "'s \<Rightarrow> (string \<times> arguments) list"
    and status :: "'s \<Rightarrow> TransactionStatus" and good :: "(string \<times> arguments) set"
  assumes parse_ok: "(q, a) \<in> good \<Longrightarrow> i \<noteq> None \<Longrightarrow> stmts s i = None \<Longrightarrow>
      \<exists>s'. S (EParse i q) s = (s', [\<lparr>msg_format = ParseComplete, contents = []\<rparr>]) \<and>
        stmts s' = (stmts s)(i \<mapsto> q) \<and> runlog s' = runlog s"
    and describe_ok: "stmts s i = Some q \<Longrightarrow>
      \<exists>s' m1 m2 ps cols. S (EDescribe i) s = (s', [m1, m2]) \<and> stmts s' = stmts s \<and> runlog s' = runlog s \<and>
        msg_format m1 = ParameterDescription \<and> parameter_description_decode B (contents m1) = Ok ps \<and>
        (msg_format m2 = NoData \<or> msg_format m2 = RowDescription \<and> row_description_decode B (contents m2) = Ok cols)"
    and bind_ok: "stmts s i = Some q \<Longrightarrow> (q, n, ps) \<in> good \<Longrightarrow>
      \<exists>s'. S (EBind i n ps) s = (s', [\<lparr>msg_format = BindComplete, contents = []\<rparr>]) \<and>
        bound s' = Some (q, n, ps) \<and> stmts s' = stmts s \<and> runlog s' = runlog s"
    and execute_ok: "bound s = Some x \<Longrightarrow>
      \<exists>s' rows. S EExecute s = (s', rows @ [complete_message]) \<and>
        (\<forall>m \<in> set rows. msg_format m = DataRow \<and> (\<exists>r. data_row_decode (contents m) = Ok r)) \<and>
        runlog s' = runlog s @ [x] \<and> stmts s' = stmts s"
    and close_portal_ok: "\<exists>s'. S EClosePortal s = (s', [\<lparr>msg_format = CloseComplete, contents = []\<rparr>]) \<and>
        stmts s' = stmts s \<and> runlog s' = runlog s"
    and close_ok: "\<exists>s'. S (EClose i) s = (s', [\<lparr>msg_format = CloseComplete, contents = []\<rparr>]) \<and>
        stmts s' = (stmts s)(i := None) \<and> runlog s' = runlog s"
    and sync_ok: "\<exists>s'. S ESync s = (s', [ready_message (status s')]) \<and> stmts s' = stmts s \<and> runlog s' = runlog s"
begin

lemma prepare_returns:
  assumes "(q, a) \<in> good" and i: "next_statement_id c = i" "i \<noteq> None" "stmts (sp_server c) i = None"
    and "4 + name_len stmt_prefix i + length q + 1 + 2 < 2 ^ 31"
    and idle: "sp_out c = []" "rx_of c = []" "sp_pending c = 0"
  shows "\<exists>md s t. completes (prepare B S q None) c (i, md)
      (c\<lparr>sp_server := s, sp_status := t, next_statement_id := id_next i\<rparr>) \<and>
    stmts s = (stmts (sp_server c))(i \<mapsto> q) \<and> runlog s = runlog (sp_server c)"
proof -
  obtain s1 where s1: "S (EParse i q) (sp_server c) = (s1, [\<lparr>msg_format = ParseComplete, contents = []\<rparr>])"
    "stmts s1 = (stmts (sp_server c))(i \<mapsto> q)" "runlog s1 = runlog (sp_server c)"
    using parse_ok [OF assms(1) i(2,3)] by blast
  obtain s2 m1 m2 ps cols where s2: "S (EDescribe i) s1 = (s2, [m1, m2])" "stmts s2 = stmts s1" "runlog s2 = runlog s1"
    "msg_format m1 = ParameterDescription" "parameter_description_decode B (contents m1) = Ok ps"
    "msg_format m2 = NoData \<or> msg_format m2 = RowDescription \<and> row_description_decode B (contents m2) = Ok cols"
  proof -
    have "stmts s1 i = Some q" using s1(2) by simp
    from describe_ok [OF this] show ?thesis by (elim exE conjE) (rule that)
  qed
  obtain s t where s: "S ESync s2 = (s, [ready_message t])" "stmts s = stmts s2" "runlog s = runlog s2"
    using sync_ok [of s2] by blast
  let ?rows = "if msg_format m2 = NoData then None else Some cols"
  let ?m0 = "\<lparr>msg_format = ParseComplete, contents = []\<rparr>"
  let ?c1 = "c\<lparr>next_statement_id := id_next i\<rparr>"
  let ?c2 = "ext_write_sync (ext_write (EDescribe i) (ext_write (EParse i q) ?c1))"
  let ?c3 = "(set_rx [?m0, m1, m2, ready_message t] ?c2)\<lparr>sp_server := s, sp_out := []\<rparr>"
  let ?c4 = "set_rx [ready_message t] ?c3"
  let ?c5 = "(set_rx [] ?c4)\<lparr>sp_pending := 0, sp_status := t\<rparr>"
  have 1: "completes (sync take_statement_id) c i ?c1"
    by (rule completes_sync) (simp add: take_statement_id_def i)
  have 2: "completes (ext_wait_until_ready B S) ?c1 () ?c1"
    using idle by (intro completes_wait_ready) simp_all
  have 3: "completes (sync (write_parse i q)) ?c1 () (ext_write (EParse i q) ?c1)"
    using assms(5) by (intro completes_sync) (simp add: write_parse_def)
  have 4: "completes (ext_flush S) ?c2 () ?c3"
    using idle s1(1) s2(1) s(1) by (intro completes_ext_flush) (simp_all add: ext_write_sync_def ext_write_def)
  have 5: "completes (recv_expect B ParseComplete (\<lambda>_. Ok ())) ?c3 () (set_rx [m1, m2, ready_message t] ?c3)"
    by (rule completes_recv_expect [where m = ?m0]) (simp_all add: set_rx_def plain_message_def message_decode_def)
  have 6: "completes (recv_desc_params B) (set_rx [m1, m2, ready_message t] ?c3) ps (set_rx [m2, ready_message t] ?c3)"
    unfolding recv_desc_params_def
    using completes_recv_expect [of "set_rx [m1, m2, ready_message t] ?c3" m1 "[m2, ready_message t]"
        ParameterDescription "parameter_description_decode B" ps B] s2(4,5)
    by (simp add: plain_message_def message_decode_def)
  have 7: "completes (recv_desc_rows B) (set_rx [m2, ready_message t] ?c3) ?rows ?c4"
    unfolding recv_desc_rows_def
  proof (rule completes_abind)
    show "completes (ext_recv B) (set_rx [m2, ready_message t] ?c3) m2 ?c4"
      using completes_ext_recv [of "set_rx [m2, ready_message t] ?c3" m2 "[ready_message t]" B] s2(6)
      by (auto simp: plain_message_def)
  qed (use s2(6) in \<open>auto simp: message_decode_def completes_aret\<close>)
  have 8: "completes (recv_ready_for_query B) ?c4 () ?c5"
    using idle by (intro completes_recv_ready) (simp_all add: set_rx_def ext_write_sync_def ext_write_def)
  have 9: "completes (ext_wait_until_ready B S) ?c5 () ?c5"
    by (rule completes_wait_ready) (simp_all add: set_rx_def)
  have "completes (prepare B S q None) c (i, \<lparr>md_parameters = ps, md_columns = ?rows\<rparr>) ?c5"
    unfolding prepare_def option.case simp_thms if_True
    by (rule completes_abind, rule 1, rule completes_abind, rule 2, rule completes_abind, rule 3,
        rule completes_abind, rule completes_amodify, rule completes_abind, rule completes_amodify,
        rule completes_abind, rule 4, rule completes_abind, rule 5, rule completes_abind, rule 6,
        rule completes_abind, rule 7, rule completes_abind, rule 8, rule completes_abind, rule 9, rule completes_aret)
  moreover have "?c5 = c\<lparr>sp_server := s, sp_status := t, next_statement_id := id_next i\<rparr>"
    using idle by (cases c; cases "sp_stream c") (simp add: set_rx_def ext_write_sync_def ext_write_def)
  ultimately show ?thesis using s s1 s2 by auto
qed

lemma close_returns:
  assumes "sp_out c = []" "rx_of c = []" "sp_pending c = 0"
  shows "\<exists>s t. completes (abind (amodify (ext_write (EClose i))) (\<lambda>_. finish_closing B S 1)) c () (c\<lparr>sp_server := s, sp_status := t\<rparr>)
    \<and> stmts s = (stmts (sp_server c))(i := None) \<and> runlog s = runlog (sp_server c)"
proof -
  let ?m = "\<lparr>msg_format = CloseComplete, contents = []\<rparr>"
  obtain s1 where s1: "S (EClose i) (sp_server c) = (s1, [?m])" "stmts s1 = (stmts (sp_server c))(i := None)"
    "runlog s1 = runlog (sp_server c)" using close_ok [of i "sp_server c"] by blast
  obtain s t where s: "S ESync s1 = (s, [ready_message t])" "stmts s = stmts s1" "runlog s = runlog s1"
    using sync_ok [of s1] by blast
  have "completes (finish_closing B S 1) (ext_write (EClose i) c) () ((ext_write (EClose i) c)\<lparr>sp_server := s, sp_out := [], sp_status := t\<rparr>)"
    using assms s1 s by (intro completes_finish_closing) (simp_all add: ext_write_def)
  then have "completes (abind (amodify (ext_write (EClose i))) (\<lambda>_. finish_closing B S 1)) c () (c\<lparr>sp_server := s, sp_status := t\<rparr>)"
    using assms by (cases c) (rule completes_abind, rule completes_amodify, simp add: ext_write_def)
  with s s1 show ?thesis by auto
qed

lemma execute_returns:
  assumes "sp_out c = []" "rx_of c = []" "sp_pending c = 0" and "stmts (sp_server c) i = Some q" and "(q, a) \<in> good"
    and "4 + 1 + name_len stmt_prefix i + 2 + 2 + 2 + length (snd a) + 2 + 2 < 2 ^ 31"
  shows "\<exists>s t. completes (abind (sync (write_bind i a)) (\<lambda>_.
     abind (amodify (ext_write EExecute)) (\<lambda>_.
     abind (amodify (ext_write EClosePortal)) (\<lambda>_.
     abind (amodify ext_write_sync) (\<lambda>_.
     abind (ext_flush S) (\<lambda>_. ext_run_loop B)))))) c () (c\<lparr>sp_server := s, sp_status := t\<rparr>)
    \<and> stmts s = stmts (sp_server c) \<and> runlog s = runlog (sp_server c) @ [(q, a)]"
proof -
  let ?b = "\<lparr>msg_format = BindComplete, contents = []\<rparr>" and ?k = "\<lparr>msg_format = CloseComplete, contents = []\<rparr>"
  obtain s1 where s1: "S (EBind i (fst a) (snd a)) (sp_server c) = (s1, [?b])" "bound s1 = Some (q, a)"
    "stmts s1 = stmts (sp_server c)" "runlog s1 = runlog (sp_server c)"
    using bind_ok [OF assms(4), of "fst a" "snd a"] assms(5) by auto
  obtain s2 rows where s2: "S EExecute s1 = (s2, rows @ [complete_message])" "runlog s2 = runlog s1 @ [(q, a)]" "stmts s2 = stmts s1"
    "\<forall>m \<in> set rows. msg_format m = DataRow \<and> (\<exists>r. data_row_decode (contents m) = Ok r)"
    using execute_ok [OF s1(2)] by blast
  obtain s3 where s3: "S EClosePortal s2 = (s3, [?k])" "stmts s3 = stmts s2" "runlog s3 = runlog s2"
    using close_portal_ok [of s2] by blast
  obtain s t where s: "S ESync s3 = (s, [ready_message t])" "stmts s = stmts s3" "runlog s = runlog s3"
    using sync_ok [of s3] by blast
  let ?ms = "?b # rows @ [complete_message, ?k]"
  let ?c1 = "ext_write (EBind i (fst a) (snd a)) c"
  let ?c2 = "ext_write_sync (ext_write EClosePortal (ext_write EExecute ?c1))"
  let ?c3 = "(set_rx (?ms @ [ready_message t]) ?c2)\<lparr>sp_server := s, sp_out := []\<rparr>"
  have 1: "completes (sync (write_bind i a)) c () ?c1"
    using assms(6) by (intro completes_sync) (simp add: write_bind_def)
  have 2: "completes (ext_flush S) ?c2 () ?c3"
    using assms(1,2) s1(1) s2(1) s3(1) s(1)
    by (intro completes_ext_flush) (simp_all add: ext_write_sync_def ext_write_def)
  have h: "list_all harmless_message ?ms"
    using s2(4) by (auto simp: harmless_message_def list_all_iff message_decode_def)
  have "ext_run_loop B (Suc (length ?ms + k)) ?c3 = ((set_rx [] ?c3)\<lparr>sp_pending := 0, sp_status := t\<rparr>, k, Some (Ok ()))" for k
    using h assms(3) by (intro ext_run_loop_returns) (simp_all add: set_rx_def ext_write_sync_def ext_write_def)
  then have 3: "completes (ext_run_loop B) ?c3 () ((set_rx [] ?c3)\<lparr>sp_pending := 0, sp_status := t\<rparr>)"
    unfolding completes_def by (intro exI [of _ "Suc (length ?ms)"]) simp
  have "(set_rx [] ?c3)\<lparr>sp_pending := 0, sp_status := t\<rparr> = c\<lparr>sp_server := s, sp_status := t\<rparr>"
    using assms by (cases c; cases "sp_stream c") (simp add: set_rx_def ext_write_sync_def ext_write_def)
  with 3 have 3: "completes (ext_run_loop B) ?c3 () (c\<lparr>sp_server := s, sp_status := t\<rparr>)" by simp
  have "stmts s = stmts (sp_server c)" "runlog s = runlog (sp_server c) @ [(q, a)]" using s s1 s2 s3 by auto
  then show ?thesis
    by (intro exI conjI) (rule completes_abind, rule 1, rule completes_abind, rule completes_amodify,
        rule completes_abind, rule completes_amodify, rule completes_abind, rule completes_amodify,
        rule completes_abind, rule 2, rule 3)
qed

end

subsection \<open>Cached and leaked statements\<close>

text \<open>
  The statements open at the server are those of the cache entries \<open>xs\<close>, each under its text, and those
  of the set \<open>E\<close>, which nothing refers to any more; names below \<open>n\<close> were handed out.
\<close>

type_synonym cache_entry = "string \<times> id_inner \<times> pg_metadata"

definition entry_ids :: "cache_entry list \<Rightarrow> id_inner list" where
  "entry_ids xs = map (\<lambda>x. fst (snd x)) xs"

definition open_inv :: "(id_inner \<rightharpoonup> string) \<Rightarrow> u32 \<Rightarrow> cache_entry list \<Rightarrow> id_inner set \<Rightarrow> bool" where
  "open_inv M n xs E \<longleftrightarrow> (\<forall>i \<in> dom M. \<exists>k. i = Some k \<and> k < n) \<and> finite E \<and> distinct (entry_ids xs) \<and>
     dom M = set (entry_ids xs) \<union> E \<and> set (entry_ids xs) \<inter> E = {} \<and> (\<forall>x \<in> set xs. M (fst (snd x)) = Some (fst x))"

lemma entry_ids_simps [simp]:
  "entry_ids [] = []" "entry_ids (x # xs) = fst (snd x) # entry_ids xs" "entry_ids (xs @ ys) = entry_ids xs @ entry_ids ys"
  "length (entry_ids xs) = length xs"
  by (simp_all add: entry_ids_def)

lemma open_inv_mset: "mset xs = mset ys \<Longrightarrow> open_inv M n xs E \<Longrightarrow> open_inv M n ys E"
proof -
  assume m: "mset xs = mset ys"
  then have "mset (entry_ids xs) = mset (entry_ids ys)" by (simp add: entry_ids_def)
  then show "open_inv M n xs E \<Longrightarrow> open_inv M n ys E"
    using mset_eq_setD [OF m] mset_eq_setD [of "entry_ids xs" "entry_ids ys"]
      mset_eq_imp_distinct_iff [of "entry_ids xs" "entry_ids ys"]
    by (simp add: open_inv_def)
qed

lemma open_inv_D:
  assumes "open_inv M n xs E"
  shows "i \<in> dom M \<Longrightarrow> \<exists>k. i = Some k \<and> k < n" "finite E" "distinct (entry_ids xs)" "dom M = set (entry_ids xs) \<union> E"
    "set (entry_ids xs) \<inter> E = {}" "x \<in> set xs \<Longrightarrow> M (fst (snd x)) = Some (fst x)"
  using assms unfolding open_inv_def by blast+

lemma open_inv_fresh:
  assumes "open_inv M n xs E"
  shows "M (Some n) = None \<and> Some n \<notin> set (entry_ids xs) \<and> Some n \<notin> E"
proof -
  have "Some n \<notin> dom M" using open_inv_D(1) [OF assms, of "Some n"] by auto
  then show ?thesis using open_inv_D(4) [OF assms] by auto
qed

lemma open_inv_names:
  assumes "open_inv M n xs E" and "n < n'"
  shows "\<forall>i \<in> dom (M(Some n \<mapsto> q)). \<exists>k. i = Some k \<and> k < n'"
proof
  fix i
  assume "i \<in> dom (M(Some n \<mapsto> q))"
  then have "i = Some n \<or> i \<in> dom M" by auto
  then show "\<exists>k. i = Some k \<and> k < n'" using open_inv_D(1) [OF assms(1), of i] assms(2) less_trans by blast
qed

lemma entry_id_in: "x \<in> set xs \<Longrightarrow> fst (snd x) \<in> set (entry_ids xs)"
  by (auto simp: entry_ids_def)

lemma open_inv_texts:
  assumes "open_inv M n xs E" and "x \<in> set xs"
  shows "(M(Some n \<mapsto> q)) (fst (snd x)) = Some (fst x)"
  using open_inv_D(6) [OF assms] open_inv_fresh [OF assms(1)] entry_id_in [OF assms(2)] by auto

lemma open_inv_add:
  assumes "open_inv M n xs E" and "n < n'"
  shows "open_inv (M(Some n \<mapsto> q)) n' (xs @ [(q, Some n, md)]) E"
  unfolding open_inv_def
  using open_inv_names [OF assms] open_inv_D(2-5) [OF assms(1)] open_inv_fresh [OF assms(1)] open_inv_texts [OF assms(1)]
  by (intro conjI) auto

lemma open_inv_leak:
  assumes "open_inv M n xs E" and "n < n'"
  shows "open_inv (M(Some n \<mapsto> q)) n' xs (insert (Some n) E)"
  unfolding open_inv_def
  using open_inv_names [OF assms] open_inv_D(2-5) [OF assms(1)] open_inv_fresh [OF assms(1)] open_inv_texts [OF assms(1)]
  by (intro conjI) auto

lemma open_inv_evict:
  assumes "open_inv M n (x # xs) E"
  shows "open_inv (M(fst (snd x) := None)) n xs E"
proof -
  have "fst (snd y) \<noteq> fst (snd x)" if "y \<in> set xs" for y
    using open_inv_D(3) [OF assms] entry_id_in [OF that] by auto
  then show ?thesis
    unfolding open_inv_def using open_inv_D [OF assms] by (intro conjI ballI) auto
qed

lemma open_inv_card: "open_inv M n xs E \<Longrightarrow> card (dom M) = length xs + card E"
  by (simp add: open_inv_def card_Un_disjoint distinct_card)

definition idle_conn :: "('s, 'l) pg_prep \<Rightarrow> bool" where
  "idle_conn c \<longleftrightarrow> sp_out c = [] \<and> rx_of c = [] \<and> sp_pending c = 0"

definition statements_open ::
  "('s \<Rightarrow> id_inner \<rightharpoonup> string) \<Rightarrow> ('l \<Rightarrow> cache_entry list) \<Rightarrow> u32 \<Rightarrow> id_inner set \<Rightarrow> ('s, 'l) pg_prep \<Rightarrow> bool"
where
  "statements_open stmts items n E c \<longleftrightarrow> idle_conn c \<and> next_statement_id c = Some n \<and>
     open_inv (stmts (sp_server c)) n (items (cache_statement c)) E"

definition query_fits :: "string \<Rightarrow> arguments \<Rightarrow> bool" where
  "query_fits q a \<longleftrightarrow> length q + 25 < 2 ^ 31 \<and> fst a < 2 ^ 16 \<and> length (snd a) + 33 < 2 ^ 31"

lemma name_len_le: "name_len stmt_prefix i \<le> 18"
proof (cases i)
  case (Some n)
  have "unat n < 10 ^ 10" using unsigned_less [of n, where ?'a = nat] by simp
  then have "length (dec_string (unat n)) \<le> 10" by (rule length_dec_string_le) simp
  with Some show ?thesis by (simp add: name_len_def length_dec_string)
qed (simp add: name_len_def)

lemma abind_assoc: "abind (abind m f) g = abind m (\<lambda>x. abind (f x) g)"
  by (intro ext) (simp add: abind_def split: prod.splits option.splits result.splits)

definition accepted :: "(string \<times> arguments) set \<Rightarrow> prepared_query \<Rightarrow> bool" where
  "accepted good x \<longleftrightarrow> (fst x, fst (snd x)) \<in> good \<and> query_fits (fst x) (fst (snd x))"

text \<open>The outcome of asking for the statement of \<open>q\<close>: it is open, and what was leaked.\<close>

definition obtained where
  "obtained stmts runlog L items q store n E c i c' \<longleftrightarrow> (\<exists>n' E'.
    statements_open stmts items n' E' c' \<and> stmts (sp_server c') i = Some q \<and> runlog (sp_server c') = runlog (sp_server c) \<and>
    unat n' \<le> unat n + 1 \<and> lru_capacity L (cache_statement c') = lru_capacity L (cache_statement c) \<and>
    (store \<and> 0 < lru_capacity L (cache_statement c) \<longrightarrow> E' = E) \<and>
    (\<not> store \<and> items (cache_statement c) = [] \<longrightarrow> items (cache_statement c') = [] \<and> card E' = Suc (card E)))"

locale pg_prepared = extended_server B S stmts bound runlog status good + lru_cache L items
  for B S and stmts :: "'s \<Rightarrow> id_inner \<rightharpoonup> string" and bound runlog status good
    and L :: "'l pg_lru" and items :: "'l \<Rightarrow> cache_entry list"
begin

lemma lookup_returns:
  assumes "statements_open stmts items n E c"
  shows "\<exists>l. completes (sync (cache_lookup L q)) c (map_of (items (cache_statement c)) q) (c\<lparr>cache_statement := l\<rparr>) \<and>
    statements_open stmts items n E (c\<lparr>cache_statement := l\<rparr>) \<and> lru_capacity L l = lru_capacity L (cache_statement c) \<and>
    (map_of (items (cache_statement c)) q = None \<longrightarrow> items l = items (cache_statement c))"
proof -
  obtain l r where lr: "cache_get_mut L q (cache_statement c) = (l, r)" by (cases "cache_get_mut L q (cache_statement c)")
  note g = cache_get_items [OF lr]
  have "open_inv (stmts (sp_server c)) n (items l) E"
    using open_inv_mset [of "items (cache_statement c)" "items l"] g assms by (simp add: statements_open_def)
  moreover have "completes (sync (cache_lookup L q)) c r (c\<lparr>cache_statement := l\<rparr>)"
    by (rule completes_sync) (simp add: cache_lookup_def lr)
  ultimately show ?thesis using g assms by (auto simp: statements_open_def idle_conn_def)
qed

lemma prepare_fresh:
  assumes "statements_open stmts items n E c" and "(q, a) \<in> good" "query_fits q a" and n: "unat n + 1 < 2 ^ 32"
  shows "\<exists>md s t. completes (prepare B S q None) c (Some n, md)
      (c\<lparr>sp_server := s, sp_status := t, next_statement_id := Some (n + 1)\<rparr>) \<and>
    stmts s = (stmts (sp_server c))(Some n \<mapsto> q) \<and> runlog s = runlog (sp_server c)"
proof -
  have "4 + name_len stmt_prefix (Some n) + length q + 1 + 2 < 2 ^ 31"
    using assms(3) name_len_le [of "Some n"] by (simp add: query_fits_def)
  moreover have "id_next (Some n) = Some (n + 1)" using n by (simp add: id_next_def)
  ultimately show ?thesis
    using prepare_returns [of q a c "Some n"] assms(1,2) open_inv_fresh [of "stmts (sp_server c)" n]
    by (auto simp: statements_open_def idle_conn_def)
qed

lemma store_returns:
  assumes "statements_open stmts items n E c" and "map_of (items (cache_statement c)) q = None"
    and "0 < lru_capacity L (cache_statement c)" and "n < n'"
    and s: "stmts s = (stmts (sp_server c))(Some n \<mapsto> q)"
  shows "\<exists>c'. completes
      (abind (sync (cache_store L True q (Some n, md))) (\<lambda>old.
         case old of
           Some (i, _) \<Rightarrow> abind (amodify (ext_write (EClose i))) (\<lambda>_. abind (finish_closing B S 1) (\<lambda>_. aret (Ok (Some n, md))))
         | None \<Rightarrow> aret (Ok (Some n, md))))
      (c\<lparr>sp_server := s, sp_status := t, next_statement_id := Some n'\<rparr>) (Some n, md) c' \<and>
    statements_open stmts items n' E c' \<and> stmts (sp_server c') (Some n) = Some q \<and> runlog (sp_server c') = runlog s \<and>
    lru_capacity L (cache_statement c') = lru_capacity L (cache_statement c)"
proof -
  let ?c2 = "c\<lparr>sp_server := s, sp_status := t, next_statement_id := Some n'\<rparr>"
  obtain l old where ins: "cache_insert L q (Some n, md) (cache_statement c) = (l, old)"
    by (cases "cache_insert L q (Some n, md) (cache_statement c)")
  let ?c3 = "?c2\<lparr>cache_statement := l\<rparr>"
  note it = cache_insert_items [OF ins assms(3)]
  have op: "open_inv (stmts s) n' (items (cache_statement c) @ [(q, Some n, md)]) E"
    using open_inv_add [of "stmts (sp_server c)" n "items (cache_statement c)" E n' q md] assms by (simp add: statements_open_def)
  have idle: "sp_out c = []" "rx_of c = []" "sp_pending c = 0"
    using assms(1) by (auto simp: statements_open_def idle_conn_def)
  have 1: "completes (sync (cache_store L True q (Some n, md))) ?c2 old ?c3"
    using assms(3) by (intro completes_sync) (simp add: cache_store_def cache_is_enabled_def cache_capacity_def ins)
  show ?thesis
  proof (cases old)
    case None
    with it assms(2) have "items l = items (cache_statement c) @ [(q, Some n, md)]" by (auto split: if_splits)
    with op have "statements_open stmts items n' E ?c3" using idle by (simp add: statements_open_def idle_conn_def)
    with it s show ?thesis
      by (intro exI [of _ ?c3] conjI completes_abind [OF 1]) (simp_all add: None completes_aret)
  next
    case (Some w)
    obtain x xs where x: "items (cache_statement c) = x # xs" "w = snd x" "items l = xs @ [(q, Some n, md)]"
      using it assms(2,3) Some by (cases "items (cache_statement c)") (auto split: if_splits)
    obtain s4 t4 where s4: "completes (abind (amodify (ext_write (EClose (fst w)))) (\<lambda>_. finish_closing B S 1)) ?c3 ()
        (?c3\<lparr>sp_server := s4, sp_status := t4\<rparr>)"
      "stmts s4 = (stmts s)(fst w := None)" "runlog s4 = runlog s"
      using close_returns [of ?c3 "fst w"] idle by auto
    let ?c4 = "?c3\<lparr>sp_server := s4, sp_status := t4\<rparr>"
    have 2: "completes (abind (amodify (ext_write (EClose (fst w)))) (\<lambda>_. abind (finish_closing B S 1) (\<lambda>_. aret (Ok (Some n, md)))))
        ?c3 (Some n, md) ?c4"
      unfolding abind_assoc [symmetric] by (rule completes_abind, rule s4(1), rule completes_aret)
    have "open_inv (stmts s4) n' (items l) E"
      using open_inv_evict [of "stmts s" n' x "xs @ [(q, Some n, md)]" E] op x s4 by simp
    moreover from this have "stmts s4 (Some n) = Some q" using x by (simp add: open_inv_def)
    ultimately show ?thesis using it s4 idle 2
      by (intro exI [of _ ?c4] conjI completes_abind [OF 1])
        (simp_all add: Some case_prod_beta statements_open_def idle_conn_def)
  qed
qed

lemma get_or_prepare_returns:
  assumes inv: "statements_open stmts items n E c" and "(q, a) \<in> good" "query_fits q a" and n: "unat n + 1 < 2 ^ 32"
  shows "\<exists>i md c'. completes (get_or_prepare B S L q store None) c (i, md) c' \<and>
    obtained stmts runlog L items q store n E c i c'"
proof -
  obtain l where l: "completes (sync (cache_lookup L q)) c (map_of (items (cache_statement c)) q) (c\<lparr>cache_statement := l\<rparr>)"
    "statements_open stmts items n E (c\<lparr>cache_statement := l\<rparr>)" "lru_capacity L l = lru_capacity L (cache_statement c)"
    "map_of (items (cache_statement c)) q = None \<longrightarrow> items l = items (cache_statement c)"
    using lookup_returns [OF inv, of q] by (elim exE conjE) (rule that)
  let ?c1 = "c\<lparr>cache_statement := l\<rparr>"
  show ?thesis
  proof (cases "map_of (items (cache_statement c)) q")
    case (Some st)
    obtain i md where st: "st = (i, md)" by (cases st)
    have "(q, i, md) \<in> set (items (cache_statement c))" using Some st by (intro map_of_SomeD) simp
    moreover from this have "stmts (sp_server c) i = Some q"
      using open_inv_D(6) [of "stmts (sp_server c)" n "items (cache_statement c)" E "(q, i, md)"] inv
      by (simp add: statements_open_def)
    ultimately have "obtained stmts runlog L items q store n E c i ?c1"
      unfolding obtained_def using l by (intro exI [of _ n] exI [of _ E] conjI) auto
    moreover have "completes (get_or_prepare B S L q store None) c (i, md) ?c1"
      unfolding get_or_prepare_def by (rule completes_abind, rule l(1)) (simp add: Some st completes_aret)
    ultimately show ?thesis by blast
  next
    case None
    then have miss: "map_of (items l) q = None" "items l = items (cache_statement c)" using l(4) by auto
    have n1: "unat (n + 1) = unat n + 1" "n < n + 1" using n by (auto simp: word_less_nat_alt unat_word_ariths)
    obtain md s t where p: "completes (prepare B S q None) ?c1 (Some n, md)
        (?c1\<lparr>sp_server := s, sp_status := t, next_statement_id := Some (n + 1)\<rparr>)"
      "stmts s = (stmts (sp_server c))(Some n \<mapsto> q)" "runlog s = runlog (sp_server c)"
      using prepare_fresh [OF l(2) assms(2-4)] by auto
    let ?c2 = "?c1\<lparr>sp_server := s, sp_status := t, next_statement_id := Some (n + 1)\<rparr>"
    let ?store = "\<lambda>st. abind (sync (cache_store L store q st)) (\<lambda>old.
         case old of
           Some (i, _) \<Rightarrow> abind (amodify (ext_write (EClose i))) (\<lambda>_. abind (finish_closing B S 1) (\<lambda>_. aret (Ok st)))
         | None \<Rightarrow> aret (Ok st))"
    have "\<exists>c'. completes (?store (Some n, md)) ?c2 (Some n, md) c' \<and> obtained stmts runlog L items q store n E c (Some n) c'"
    proof (cases "store \<and> 0 < lru_capacity L l")
      case True
      then have tr: "store = True" "0 < lru_capacity L (cache_statement ?c1)" by simp_all
      have pre: "map_of (items (cache_statement ?c1)) q = None" "stmts s = (stmts (sp_server ?c1))(Some n \<mapsto> q)"
        using miss p by simp_all
      obtain c' where c': "completes (?store (Some n, md)) ?c2 (Some n, md) c'" "statements_open stmts items (n + 1) E c'"
        "stmts (sp_server c') (Some n) = Some q" "runlog (sp_server c') = runlog s"
        "lru_capacity L (cache_statement c') = lru_capacity L (cache_statement ?c1)"
        using store_returns [OF l(2) pre(1) tr(2) n1(2) pre(2), of md t] unfolding tr(1)
        by (elim exE conjE) (rule that [unfolded tr(1)])
      show ?thesis unfolding obtained_def using True l p n1 c'
        by (intro exI [of _ c'] conjI exI [of _ "n + 1"] exI [of _ E]) auto
    next
      case False
      then have "completes (sync (cache_store L store q (Some n, md))) ?c2 None ?c2"
        by (intro completes_sync) (auto simp: cache_store_def cache_is_enabled_def cache_capacity_def)
      then have "completes (?store (Some n, md)) ?c2 (Some n, md) ?c2"
        by (rule completes_abind) (simp add: completes_aret)
      moreover have "statements_open stmts items (n + 1) (insert (Some n) E) ?c2"
        using open_inv_leak [of "stmts (sp_server c)" n "items l" E "n + 1" q] l(2) n1 p(2)
        by (simp add: statements_open_def idle_conn_def)
      moreover have "card (insert (Some n) E) = Suc (card E)"
        using inv open_inv_fresh [of "stmts (sp_server c)" n "items (cache_statement c)" E]
        by (simp add: statements_open_def open_inv_def)
      ultimately show ?thesis unfolding obtained_def using False l p n1 miss
        by (intro exI [of _ ?c2] conjI exI [of _ "n + 1"] exI [of _ "insert (Some n) E"]) auto
    qed
    then obtain c' where "completes (?store (Some n, md)) ?c2 (Some n, md) c'" "obtained stmts runlog L items q store n E c (Some n) c'"
      by blast
    moreover from this(1) have "completes (get_or_prepare B S L q store None) c (Some n, md) c'"
      unfolding get_or_prepare_def
      by (intro completes_abind [OF l(1)]) (unfold None option.case, rule completes_abind, rule p(1))
    ultimately show ?thesis by blast
  qed
qed

lemma run_prepared_returns:
  assumes inv: "statements_open stmts items n E c" and "(q, a) \<in> good" "query_fits q a" and "unat n + 1 < 2 ^ 32"
  shows "\<exists>c' n' E'. completes (run_prepared B S L q a store None) c () c' \<and> statements_open stmts items n' E' c' \<and>
    runlog (sp_server c') = runlog (sp_server c) @ [(q, a)] \<and> unat n' \<le> unat n + 1 \<and>
    lru_capacity L (cache_statement c') = lru_capacity L (cache_statement c) \<and>
    (store \<and> 0 < lru_capacity L (cache_statement c) \<longrightarrow> E' = E) \<and>
    (\<not> store \<and> items (cache_statement c) = [] \<longrightarrow> items (cache_statement c') = [] \<and> card E' = Suc (card E))"
proof -
  have 1: "completes (ext_wait_until_ready B S) c () c"
    using inv by (intro completes_wait_ready) (simp_all add: statements_open_def idle_conn_def)
  obtain i md c1 where 2: "completes (get_or_prepare B S L q store None) c (i, md) c1"
    and ob: "obtained stmts runlog L items q store n E c i c1"
    using get_or_prepare_returns [OF assms, of store] by (elim exE conjE) (rule that)
  obtain n' E' where o1: "statements_open stmts items n' E' c1" and o2: "stmts (sp_server c1) i = Some q"
    "runlog (sp_server c1) = runlog (sp_server c)"
    and o3: "unat n' \<le> unat n + 1" "lru_capacity L (cache_statement c1) = lru_capacity L (cache_statement c)"
    "store \<and> 0 < lru_capacity L (cache_statement c) \<longrightarrow> E' = E"
    "\<not> store \<and> items (cache_statement c) = [] \<longrightarrow> items (cache_statement c1) = [] \<and> card E' = Suc (card E)"
    using ob unfolding obtained_def by (elim exE conjE) (rule that)
  have idle: "sp_out c1 = []" "rx_of c1 = []" "sp_pending c1 = 0"
    using o1 by (auto simp: statements_open_def idle_conn_def)
  have 3: "completes (ext_wait_until_ready B S) c1 () c1" using idle by (intro completes_wait_ready)
  have sz: "4 + 1 + name_len stmt_prefix i + 2 + 2 + 2 + length (snd a) + 2 + 2 < 2 ^ 31" "\<not> 2 ^ 16 \<le> fst a"
    using assms(3) name_len_le [of i] by (simp_all add: query_fits_def)
  obtain s t where 4: "completes (abind (sync (write_bind i a)) (\<lambda>_.
     abind (amodify (ext_write EExecute)) (\<lambda>_.
     abind (amodify (ext_write EClosePortal)) (\<lambda>_.
     abind (amodify ext_write_sync) (\<lambda>_.
     abind (ext_flush S) (\<lambda>_. ext_run_loop B)))))) c1 () (c1\<lparr>sp_server := s, sp_status := t\<rparr>)"
    and s: "stmts s = stmts (sp_server c1)" "runlog s = runlog (sp_server c1) @ [(q, a)]"
    using execute_returns [OF idle o2(1) assms(2) sz(1)] by (elim exE conjE) (rule that)
  let ?c2 = "c1\<lparr>sp_server := s, sp_status := t\<rparr>"
  have "completes (run_prepared B S L q a store None) c () ?c2"
    unfolding run_prepared_def if_not_P [OF sz(2)]
    by (rule completes_abind, rule 1, rule completes_abind, rule 2, rule completes_abind, rule 3) (use 4 in simp)
  moreover have "statements_open stmts items n' E' ?c2"
    using o1 s(1) by (simp add: statements_open_def idle_conn_def)
  ultimately show ?thesis using o2 o3 s by (intro exI [of _ ?c2] exI [of _ n'] exI [of _ E'] conjI) simp_all
qed

lemma run_persistent:
  assumes "statements_open stmts items n E c" and "0 < lru_capacity L (cache_statement c)"
    and "\<forall>x \<in> set xs. accepted good x \<and> snd (snd x)" and "unat n + length xs < 2 ^ 32"
  shows "\<exists>c' n'. completes (run_queries B S L xs) c () c' \<and> statements_open stmts items n' E c' \<and>
    runlog (sp_server c') = runlog (sp_server c) @ map (\<lambda>x. (fst x, fst (snd x))) xs \<and>
    lru_capacity L (cache_statement c') = lru_capacity L (cache_statement c)"
  using assms
proof (induction xs arbitrary: c n)
  case Nil
  then show ?case by (intro exI [of _ c]) (auto simp: completes_aret)
next
  case (Cons x xs)
  obtain c1 n1 where c1: "completes (run_prepared B S L (fst x) (fst (snd x)) (snd (snd x)) None) c () c1"
    "statements_open stmts items n1 E c1" "runlog (sp_server c1) = runlog (sp_server c) @ [(fst x, fst (snd x))]"
    "unat n1 \<le> unat n + 1" "lru_capacity L (cache_statement c1) = lru_capacity L (cache_statement c)"
    using run_prepared_returns [OF Cons.prems(1), of "fst x" "fst (snd x)" "snd (snd x)"] Cons.prems(2-4)
    by (auto simp: accepted_def)
  have "0 < lru_capacity L (cache_statement c1)" "\<forall>x \<in> set xs. accepted good x \<and> snd (snd x)" "unat n1 + length xs < 2 ^ 32"
    using Cons.prems(2-4) c1(4,5) by simp_all
  from Cons.IH [OF c1(2) this] obtain c' n' where c': "completes (run_queries B S L xs) c1 () c'"
    "statements_open stmts items n' E c'" "runlog (sp_server c') = runlog (sp_server c1) @ map (\<lambda>x. (fst x, fst (snd x))) xs"
    "lru_capacity L (cache_statement c') = lru_capacity L (cache_statement c1)" by blast
  have "completes (run_queries B S L (x # xs)) c () c'" using completes_abind [OF c1(1) c'(1)] by simp
  with c1 c' show ?case by (intro exI [of _ c'] exI [of _ n'] conjI) simp_all
qed

lemma run_unpersistent:
  assumes "statements_open stmts items n E c" and "items (cache_statement c) = []"
    and "\<forall>x \<in> set xs. accepted good x \<and> \<not> snd (snd x)" and "unat n + length xs < 2 ^ 32"
  shows "\<exists>c' n' E'. completes (run_queries B S L xs) c () c' \<and> statements_open stmts items n' E' c' \<and>
    runlog (sp_server c') = runlog (sp_server c) @ map (\<lambda>x. (fst x, fst (snd x))) xs \<and>
    items (cache_statement c') = [] \<and> card E' = card E + length xs"
  using assms
proof (induction xs arbitrary: c n E)
  case Nil
  then show ?case by (intro exI [of _ c]) (auto simp: completes_aret)
next
  case (Cons x xs)
  obtain c1 n1 E1 where c1: "completes (run_prepared B S L (fst x) (fst (snd x)) (snd (snd x)) None) c () c1"
    "statements_open stmts items n1 E1 c1" "runlog (sp_server c1) = runlog (sp_server c) @ [(fst x, fst (snd x))]"
    "unat n1 \<le> unat n + 1" "items (cache_statement c1) = []" "card E1 = Suc (card E)"
    using run_prepared_returns [OF Cons.prems(1), of "fst x" "fst (snd x)" "snd (snd x)"] Cons.prems(2-4)
    by (auto simp: accepted_def)
  have "\<forall>x \<in> set xs. accepted good x \<and> \<not> snd (snd x)" "unat n1 + length xs < 2 ^ 32"
    using Cons.prems(3,4) c1(4) by simp_all
  from Cons.IH [OF c1(2,5) this] obtain c' n' E' where c': "completes (run_queries B S L xs) c1 () c'"
    "statements_open stmts items n' E' c'" "runlog (sp_server c') = runlog (sp_server c1) @ map (\<lambda>x. (fst x, fst (snd x))) xs"
    "items (cache_statement c') = []" "card E' = card E1 + length xs" by blast
  have "completes (run_queries B S L (x # xs)) c () c'" using completes_abind [OF c1(1) c'(1)] by simp
  with c1 c' show ?case by (intro exI [of _ c'] exI [of _ n'] exI [of _ E'] conjI) simp_all
qed

lemma close_cached_all:
  "length (items (cache_statement c)) = n \<Longrightarrow> \<exists>l. items l = [] \<and>
    close_cached L (Suc n) c = (c\<lparr>cache_statement := l, sp_out := sp_out c @ map EClose (entry_ids (items (cache_statement c)))\<rparr>, n)"
proof (induction n arbitrary: c)
  case 0
  obtain l r where "cache_remove_lru L (cache_statement c) = (l, r)" by (cases "cache_remove_lru L (cache_statement c)")
  with cache_remove_lru_items [OF this] 0 show ?case by (intro exI [of _ l]) simp
next
  case (Suc n)
  obtain l r where lr: "cache_remove_lru L (cache_statement c) = (l, r)" by (cases "cache_remove_lru L (cache_statement c)")
  obtain x xs where x: "items (cache_statement c) = x # xs" using Suc.prems by (cases "items (cache_statement c)") auto
  with cache_remove_lru_items [OF lr] have r: "r = Some (snd x)" "items l = xs" by simp_all
  let ?c = "ext_write (EClose (fst (snd x))) (c\<lparr>cache_statement := l\<rparr>)"
  have "length (items (cache_statement ?c)) = n" using Suc.prems x r by (simp add: ext_write_def)
  from Suc.IH [OF this] obtain l' where "items l' = []"
    "close_cached L (Suc n) ?c = (?c\<lparr>cache_statement := l', sp_out := sp_out ?c @ map EClose (entry_ids (items (cache_statement ?c)))\<rparr>, n)"
    by blast
  then show ?case using r x
    by (intro exI [of _ l']) (simp add: lr case_prod_beta ext_write_def del: close_cached.simps, simp add: lr case_prod_beta ext_write_def)
qed

lemma close_answers:
  "\<exists>s' t. ext_answers S (map EClose is @ [ESync]) s =
      (s', replicate (length is) \<lparr>msg_format = CloseComplete, contents = []\<rparr> @ [ready_message t]) \<and>
    stmts s' = (stmts s) |` (- set is) \<and> runlog s' = runlog s"
proof (induction "is" arbitrary: s)
  case Nil
  show ?case using sync_ok [of s] by auto
next
  case (Cons i "is")
  obtain s1 where s1: "S (EClose i) s = (s1, [\<lparr>msg_format = CloseComplete, contents = []\<rparr>])"
    "stmts s1 = (stmts s)(i := None)" "runlog s1 = runlog s" using close_ok [of i s] by blast
  from Cons.IH [of s1] obtain s' t where s': "ext_answers S (map EClose is @ [ESync]) s1 =
      (s', replicate (length is) \<lparr>msg_format = CloseComplete, contents = []\<rparr> @ [ready_message t])"
    "stmts s' = (stmts s1) |` (- set is)" "runlog s' = runlog s1" by blast
  have "stmts s' = (stmts s) |` (- set (i # is))" using s'(2) s1(2) by (auto simp: restrict_map_def fun_eq_iff)
  with s1 s' show ?case by (intro exI [of _ s'] exI [of _ t] conjI) simp_all
qed

lemma clear_returns:
  assumes inv: "statements_open stmts items n E c"
  shows "\<exists>c'. completes (clear_cached_statements B S L) c () c' \<and> statements_open stmts items n E c' \<and>
    items (cache_statement c') = [] \<and> runlog (sp_server c') = runlog (sp_server c)"
proof -
  let ?xs = "items (cache_statement c)"
  have idle: "sp_out c = []" "rx_of c = []" "sp_pending c = 0" and op: "open_inv (stmts (sp_server c)) n ?xs E"
    using inv by (auto simp: statements_open_def idle_conn_def)
  have 1: "completes (ext_wait_until_ready B S) c () c" using idle by (intro completes_wait_ready)
  obtain l where l: "items l = []" "close_cached L (Suc (length ?xs)) c =
      (c\<lparr>cache_statement := l, sp_out := map EClose (entry_ids ?xs)\<rparr>, length ?xs)"
    using close_cached_all [OF refl, of c] idle by auto
  let ?c1 = "c\<lparr>cache_statement := l, sp_out := map EClose (entry_ids ?xs)\<rparr>"
  have 2: "completes (sync (\<lambda>c. case close_cached L (Suc (cache_len L (cache_statement c))) c of (c, n) \<Rightarrow> (c, Ok n))) c (length ?xs) ?c1"
    by (rule completes_sync) (simp add: cache_len_def lru_len_items l(2) del: close_cached.simps)
  obtain s t where s: "ext_answers S (map EClose (entry_ids ?xs) @ [ESync]) (sp_server c) =
      (s, replicate (length ?xs) \<lparr>msg_format = CloseComplete, contents = []\<rparr> @ [ready_message t])"
    "stmts s = (stmts (sp_server c)) |` (- set (entry_ids ?xs))" "runlog s = runlog (sp_server c)"
    using close_answers [of "entry_ids ?xs" "sp_server c"] by auto
  have op': "open_inv (stmts s) n [] E"
    unfolding open_inv_def using open_inv_D [OF op] s(2) by (intro conjI ballI) auto
  show ?thesis
  proof (cases "?xs = []")
    case True
    have "completes (clear_cached_statements B S L) c () ?c1"
      unfolding clear_cached_statements_def
      by (rule completes_abind, rule 1, rule completes_abind, rule 2) (simp add: True completes_aret)
    moreover have "statements_open stmts items n E ?c1"
      using inv l(1) True by (simp add: statements_open_def idle_conn_def)
    ultimately show ?thesis using l(1) by (intro exI [of _ ?c1] conjI) simp_all
  next
    case False
    let ?c2 = "?c1\<lparr>sp_server := s, sp_out := [], sp_status := t\<rparr>"
    have 3: "completes (finish_closing B S (length ?xs)) ?c1 () ?c2"
      using s(1) idle by (intro completes_finish_closing) simp_all
    have "completes (clear_cached_statements B S L) c () ?c2"
      unfolding clear_cached_statements_def
      by (rule completes_abind, rule 1, rule completes_abind, rule 2) (use False 3 in simp)
    moreover have "statements_open stmts items n E ?c2"
      using inv op' l(1) by (simp add: statements_open_def idle_conn_def)
    ultimately show ?thesis using l(1) s(3) by (intro exI [of _ ?c2] conjI) simp_all
  qed
qed

end

subsection \<open>A server\<close>

text \<open>It accepts everything, describes no parameters and no columns, and keeps a log.\<close>

type_synonym log_state = "(id_inner \<rightharpoonup> string) \<times> (string \<times> arguments) option \<times> (string \<times> arguments) list"

abbreviation bare :: "BackendMessageFormat \<Rightarrow> received_message" where
  "bare f \<equiv> \<lparr>msg_format = f, contents = []\<rparr>"

fun log_server :: "log_state ext_server" where
  "log_server (EParse i q) (m, b, r) = ((m(i \<mapsto> q), b, r), [bare ParseComplete])"
| "log_server (EDescribe i) s = (s, [\<lparr>msg_format = ParameterDescription, contents = [0, 0]\<rparr>, bare NoData])"
| "log_server (EBind i n ps) (m, b, r) = ((m, map_option (\<lambda>q. (q, n, ps)) (m i), r), [bare BindComplete])"
| "log_server EExecute (m, b, r) = ((m, b, r @ (case b of Some x \<Rightarrow> [x] | None \<Rightarrow> [])), [complete_message])"
| "log_server EClosePortal (m, b, r) = ((m, None, r), [bare CloseComplete])"
| "log_server (EClose i) (m, b, r) = ((m(i := None), b, r), [bare CloseComplete])"
| "log_server ESync s = (s, [ready_message Idle])"

lemma no_parameters: "parameter_description_decode list_bytes [0, 0] = Ok []"
  by code_simp

interpretation log_pg: pg_prepared list_bytes log_server fst "\<lambda>s. fst (snd s)" "\<lambda>s. snd (snd s)" "\<lambda>_. Idle" UNIV list_lru list_items
proof (intro pg_prepared.intro list_lru.lru_cache_axioms, unfold_locales, goal_cases)
  case (4 s x)
  then show ?case by (cases s) (auto intro!: exI [of _ "[]"])
qed (auto simp: no_parameters)

subsection \<open>What the cache keeps open\<close>

text \<open>
  C15. With persistent queries the statement cache is exact.  Whatever the sequence of persistent queries, with repetitions and
  more texts than the cache holds, every query returns, the server executes each text with its
  arguments once and in order, and at the end the statements open at the server are those in the cache,
  each under its own text; so at most the cache's capacity is open.
\<close>

theorem pg_statement_cache_exact:
  assumes "pg_prepared B S stmts bound runlog status good L items"
    and "statements_open stmts items n {} c" and "cache_is_enabled L (cache_statement c)"
    and "\<forall>x \<in> set xs. accepted good x \<and> snd (snd x)" and "unat n + length xs < 2 ^ 32"
  shows "\<exists>c' n'. completes (run_queries B S L xs) c () c' \<and> statements_open stmts items n' {} c' \<and>
    runlog (sp_server c') = runlog (sp_server c) @ map (\<lambda>x. (fst x, fst (snd x))) xs \<and>
    card (dom (stmts (sp_server c'))) = cached_statements_size L c' \<and>
    cached_statements_size L c' \<le> cache_capacity L (cache_statement c)"
proof -
  have "0 < lru_capacity L (cache_statement c)" using assms(3) by (simp add: cache_is_enabled_def cache_capacity_def)
  from pg_prepared.run_persistent [OF assms(1,2) this assms(4,5)] obtain c' n' where
    c': "completes (run_queries B S L xs) c () c'" "statements_open stmts items n' {} c'"
      "runlog (sp_server c') = runlog (sp_server c) @ map (\<lambda>x. (fst x, fst (snd x))) xs"
      "lru_capacity L (cache_statement c') = lru_capacity L (cache_statement c)" by (elim exE conjE) (rule that)
  have len: "cached_statements_size L c' = length (items (cache_statement c'))"
    using lru_cache.lru_len_items [OF pg_prepared.axioms(2) [OF assms(1)]] by (simp add: cached_statements_size_def cache_len_def)
  have "card (dom (stmts (sp_server c'))) = length (items (cache_statement c'))"
    using open_inv_card [of "stmts (sp_server c')" n' "items (cache_statement c')" "{}"] c'(2) by (simp add: statements_open_def)
  moreover have "length (items (cache_statement c')) \<le> cache_capacity L (cache_statement c)"
    using lru_cache.lru_bounded [OF pg_prepared.axioms(2) [OF assms(1)], of "cache_statement c'"] c'(4)
    by (simp add: cache_capacity_def)
  ultimately show ?thesis using c' len by (intro exI [of _ c'] exI [of _ n'] conjI) simp_all
qed

definition log_conn :: "nat \<Rightarrow> (log_state, nat \<times> cache_entry list) pg_prep" where
  "log_conn cap = \<lparr>sp_server = (Map.empty, None, []), sp_out = [],
     sp_stream = \<lparr>rx = [], notifications = None, parameter_statuses = Map.empty, server_version_num = None\<rparr>,
     sp_pending = 0, sp_status = Idle, next_statement_id = NAMED_START, cache_statement = cache_new list_lru cap\<rparr>"

lemma log_conn_open: "statements_open fst list_items 1 {} (log_conn cap)"
  by (simp add: statements_open_def idle_conn_def log_conn_def open_inv_def NAMED_START_def cache_new_def list_lru_def list_items_def)

lemma log_conn_cache: "cache_capacity list_lru (cache_statement (log_conn cap)) = cap"
  "list_items (cache_statement (log_conn cap)) = []" "snd (snd (sp_server (log_conn cap))) = []"
  by (simp_all add: log_conn_def cache_new_def list_lru_def cache_capacity_def list_items_def)

theorem pg_statement_cache_exact_witness:
  "\<exists>c'. completes (run_queries list_bytes log_server list_lru
      [(''SELECT 1'', (0, []), True), (''SELECT 2'', (0, []), True), (''SELECT 1'', (0, []), True)]) (log_conn 1) () c' \<and>
    map fst (snd (snd (sp_server c'))) = [''SELECT 1'', ''SELECT 2'', ''SELECT 1''] \<and> card (dom (fst (sp_server c'))) \<le> 1"
proof -
  let ?xs = "[(''SELECT 1'', (0, []), True), (''SELECT 2'', (0, []), True), (''SELECT 1'', (0, []), True)] :: prepared_query list"
  have h1: "cache_is_enabled list_lru (cache_statement (log_conn 1))" by (simp add: cache_is_enabled_def log_conn_cache)
  have h2: "\<forall>x \<in> set ?xs. accepted UNIV x \<and> snd (snd x)" by (simp add: accepted_def query_fits_def)
  have h3: "unat (1 :: u32) + length ?xs < 2 ^ 32" by simp
  obtain c' where c': "completes (run_queries list_bytes log_server list_lru ?xs) (log_conn 1) () c'"
    "snd (snd (sp_server c')) = snd (snd (sp_server (log_conn 1))) @ map (\<lambda>x. (fst x, fst (snd x))) ?xs"
    "card (dom (fst (sp_server c'))) = cached_statements_size list_lru c'"
    "cached_statements_size list_lru c' \<le> cache_capacity list_lru (cache_statement (log_conn 1))"
    using pg_statement_cache_exact [OF log_pg.pg_prepared_axioms log_conn_open h1 h2 h3] by (elim exE conjE) (rule that)
  show ?thesis using c'(2-4) by (intro exI [of _ c'] conjI c'(1)) (simp_all add: log_conn_cache)
qed

text \<open>
  C24. A query that is not persistent leaves its statement open.  \<^verbatim>\<open>prepare\<close> gives every statement a
  name and \<^verbatim>\<open>run\<close> closes only the portal; the documentation of \<^verbatim>\<open>Query::persistent\<close> says the statement is
  closed after execution.  After any sequence of such queries on a connection with an
  empty cache all of them were executed, the cache is still empty, and the server holds one open statement per query.
\<close>

theorem pg_unpersistent_leaks:
  assumes "pg_prepared B S stmts bound runlog status good L items"
    and "statements_open stmts items n {} c" and "items (cache_statement c) = []"
    and "\<forall>x \<in> set xs. accepted good x \<and> \<not> snd (snd x)" and "unat n + length xs < 2 ^ 32"
  shows "\<exists>c'. completes (run_queries B S L xs) c () c' \<and>
    runlog (sp_server c') = runlog (sp_server c) @ map (\<lambda>x. (fst x, fst (snd x))) xs \<and>
    cached_statements_size L c' = 0 \<and> card (dom (stmts (sp_server c'))) = length xs"
proof -
  from pg_prepared.run_unpersistent [OF assms] obtain c' n' E' where
    c': "completes (run_queries B S L xs) c () c'" "statements_open stmts items n' E' c'"
      "runlog (sp_server c') = runlog (sp_server c) @ map (\<lambda>x. (fst x, fst (snd x))) xs"
      "items (cache_statement c') = []" "card E' = card ({} :: id_inner set) + length xs" by (elim exE conjE) (rule that)
  have "cached_statements_size L c' = 0"
    using lru_cache.lru_len_items [OF pg_prepared.axioms(2) [OF assms(1)]] c'(4) by (simp add: cached_statements_size_def cache_len_def)
  moreover have "card (dom (stmts (sp_server c'))) = length xs"
    using open_inv_card [of "stmts (sp_server c')" n' "items (cache_statement c')" E'] c' by (simp add: statements_open_def)
  ultimately show ?thesis using c' by (intro exI [of _ c'] conjI) simp_all
qed

theorem pg_unpersistent_leaks_witness:
  "\<exists>c'. completes (run_queries list_bytes log_server list_lru
      (replicate 3 (''SELECT 1'', (0, []), False))) (log_conn 100) () c' \<and> card (dom (fst (sp_server c'))) = 3"
proof -
  let ?xs = "replicate 3 (''SELECT 1'', (0, []), False) :: prepared_query list"
  have h1: "\<forall>x \<in> set ?xs. accepted UNIV x \<and> \<not> snd (snd x)" by (simp add: accepted_def query_fits_def)
  have h2: "unat (1 :: u32) + length ?xs < 2 ^ 32" by simp
  obtain c' where c': "completes (run_queries list_bytes log_server list_lru ?xs) (log_conn 100) () c'"
    "card (dom (fst (sp_server c'))) = length ?xs"
    using pg_unpersistent_leaks [OF log_pg.pg_prepared_axioms log_conn_open [of 100] log_conn_cache(2) h1 h2] by (elim exE conjE) (rule that)
  show ?thesis using c'(2) by (intro exI [of _ c'] conjI c'(1)) simp
qed

text \<open>
  \<^verbatim>\<open>clear_cached_statements\<close> returns, empties the cache and closes at the server
  every statement the cache held, and no other.
\<close>

theorem pg_clear_closes_cached:
  assumes "pg_prepared B S stmts bound runlog status good L items" and "statements_open stmts items n E c"
  shows "\<exists>c'. completes (clear_cached_statements B S L) c () c' \<and> cached_statements_size L c' = 0 \<and>
    dom (stmts (sp_server c')) = E \<and> idle_conn c' \<and> runlog (sp_server c') = runlog (sp_server c)"
proof -
  from pg_prepared.clear_returns [OF assms] obtain c' where
    c': "completes (clear_cached_statements B S L) c () c'" "statements_open stmts items n E c'"
      "items (cache_statement c') = []" "runlog (sp_server c') = runlog (sp_server c)" by (elim exE conjE) (rule that)
  have "cached_statements_size L c' = 0"
    using lru_cache.lru_len_items [OF pg_prepared.axioms(2) [OF assms(1)]] c'(3) by (simp add: cached_statements_size_def cache_len_def)
  moreover have "dom (stmts (sp_server c')) = E" "idle_conn c'"
    using c'(2,3) open_inv_D(4) [of "stmts (sp_server c')" n "[]" E] by (simp_all add: statements_open_def)
  ultimately show ?thesis using c' by (intro exI [of _ c'] conjI) simp_all
qed

theorem pg_clear_closes_cached_witness:
  "\<exists>c'. completes (clear_cached_statements list_bytes log_server list_lru)
      ((log_conn 5)\<lparr>sp_server := ([Some 1 \<mapsto> ''A'', Some 2 \<mapsto> ''B''], None, []), next_statement_id := Some 3,
         cache_statement := (5, [(''A'', Some 1, \<lparr>md_parameters = [], md_columns = None\<rparr>)])\<rparr>) () c' \<and>
    dom (fst (sp_server c')) = {Some 2}"
proof -
  let ?c = "(log_conn 5)\<lparr>sp_server := ([Some 1 \<mapsto> ''A'', Some 2 \<mapsto> ''B''], None, []), next_statement_id := Some 3,
         cache_statement := (5, [(''A'', Some 1, \<lparr>md_parameters = [], md_columns = None\<rparr>)])\<rparr>"
  have "statements_open fst list_items 3 {Some 2} ?c"
    by (auto simp: statements_open_def idle_conn_def log_conn_def open_inv_def list_items_def word_less_nat_alt)
  then show ?thesis using pg_clear_closes_cached [OF log_pg.pg_prepared_axioms] by blast
qed

end
