(* ===== verification/Sqlite_Worker.thy ===== *)
theory Sqlite_Worker
  imports Tx_Core
begin

section \<open>The SQLite worker: \<^verbatim>\<open>sqlx-sqlite/src/connection/worker.rs\<close> and \<^verbatim>\<open>transaction.rs\<close>\<close>

text \<open>
  A SQLite connection is a thread that serves commands from a channel.  The transaction commands
  carry a rendezvous sender; whether the caller is still there to receive the reply is part
  of the command (\<open>True\<close> when it is).  A caller that is dropped before sending leaves
  nothing behind; one dropped after sending is found missing by the worker.  The SQLite library
  is the \<open>server\<close> parameter of the transaction theory.
\<close>

datatype sq_command =
    Begin "string option" bool
  | Commit bool
  | Rollback "bool option"
  | Execute string
  | Ping
  | Shutdown

record 's sq_worker =
  handle :: 's
  sq_depth :: nat
  ignore_next_start_rollback :: bool
  running :: bool

definition sq_exec :: "'s server \<Rightarrow> string \<Rightarrow> (nat \<Rightarrow> nat) \<Rightarrow> 's sq_worker \<Rightarrow> 's sq_worker \<times> unit result" where
  "sq_exec S q f w =
     (case exec S q (handle w) of (h, ok) \<Rightarrow>
        if ok then (w\<lparr>handle := h, sq_depth := f (sq_depth w)\<rparr>, Ok ())
        else (w\<lparr>handle := h\<rparr>, Err (Database [] [])))"

definition begin_step :: "'s server \<Rightarrow> string option \<Rightarrow> bool \<Rightarrow> 's sq_worker \<Rightarrow> 's sq_worker \<times> unit result" where
  "begin_step S stmt acked w =
     (let depth = sq_depth w in
      if stmt \<noteq> None \<and> 0 < depth then
        (if acked then w else w\<lparr>running := False\<rparr>, Err InvalidSavePointStatement)
      else
        let sql = (case stmt of Some q \<Rightarrow> q | None \<Rightarrow> begin_ansi_transaction_sql depth) in
        case sq_exec S sql Suc w of
          (w, res) \<Rightarrow>
            if \<not> acked \<and> res = Ok () then
              (case sq_exec S (rollback_ansi_transaction_sql (depth + 1)) (\<lambda>d. d - 1) w of
                 (w, Ok _) \<Rightarrow> (w, res)
               | (w, _) \<Rightarrow> (w\<lparr>running := False\<rparr>, res))
            else (w, res))"

definition commit_step :: "'s server \<Rightarrow> bool \<Rightarrow> 's sq_worker \<Rightarrow> 's sq_worker \<times> unit result" where
  "commit_step S acked w =
     (let depth = sq_depth w in
      case (if 0 < depth then sq_exec S (commit_ansi_transaction_sql depth) (\<lambda>d. d - 1) w else (w, Ok ())) of
        (w, res) \<Rightarrow>
          (if \<not> acked \<and> res = Ok () then w\<lparr>ignore_next_start_rollback := True\<rparr> else w, res))"

definition rollback_step :: "'s server \<Rightarrow> bool option \<Rightarrow> 's sq_worker \<Rightarrow> 's sq_worker \<times> unit result" where
  "rollback_step S tx w =
     (if ignore_next_start_rollback w \<and> tx = None then (w\<lparr>ignore_next_start_rollback := False\<rparr>, Ok ())
      else
        let depth = sq_depth w in
        case (if 0 < depth then sq_exec S (rollback_ansi_transaction_sql depth) (\<lambda>d. d - 1) w else (w, Ok ())) of
          (w, res) \<Rightarrow>
            (if tx = Some False \<and> res = Ok () then w\<lparr>ignore_next_start_rollback := True\<rparr> else w, res))"

text \<open>One turn of the command loop; a worker that has stopped answers nothing.\<close>

definition worker_step :: "'s server \<Rightarrow> sq_command \<Rightarrow> 's sq_worker \<Rightarrow> 's sq_worker \<times> unit result" where
  "worker_step S cmd w =
     (if \<not> running w then (w, Err WorkerCrashed)
      else case cmd of
          Begin stmt acked \<Rightarrow> begin_step S stmt acked w
        | Commit acked \<Rightarrow> commit_step S acked w
        | Rollback tx \<Rightarrow> rollback_step S tx w
        | Execute q \<Rightarrow> sq_exec S q id w
        | Ping \<Rightarrow> (w, Ok ())
        | Shutdown \<Rightarrow> (w\<lparr>running := False\<rparr>, Ok ()))"

subsection \<open>\<^verbatim>\<open>ConnectionWorker\<close> and \<^verbatim>\<open>SqliteTransactionManager\<close>\<close>

text \<open>Sending the command and receiving the reply are two awaits.\<close>

definition oneshot_cmd_with_ack :: "'s server \<Rightarrow> (bool \<Rightarrow> sq_command) \<Rightarrow> ('s sq_worker, unit) async" where
  "oneshot_cmd_with_ack S cmd k w =
     (case k of
        0 \<Rightarrow> (w, 0, None)
      | Suc 0 \<Rightarrow> (fst (worker_step S (cmd False) w), 0, None)
      | Suc (Suc k') \<Rightarrow> (case worker_step S (cmd True) w of (w', r) \<Rightarrow> (w', k', Some r)))"

definition worker_execute :: "'s server \<Rightarrow> string \<Rightarrow> ('s sq_worker, unit) async" where
  "worker_execute S q = await (worker_step S (Execute q))"

definition worker_ping :: "'s server \<Rightarrow> ('s sq_worker, unit) async" where
  "worker_ping S = await (worker_step S Ping)"

definition worker_shutdown :: "'s server \<Rightarrow> ('s sq_worker, unit) async" where
  "worker_shutdown S = await (worker_step S Shutdown)"

definition sq_begin :: "'s server \<Rightarrow> string option \<Rightarrow> ('s sq_worker, unit) async" where
  "sq_begin S stmt =
     abind (oneshot_cmd_with_ack S (Begin stmt)) (\<lambda>_.
       if stmt \<noteq> None
       then await (\<lambda>w. (w, if in_tx S (handle w) then Ok () else Err BeginFailed))
       else aret (Ok ()))"

definition sq_commit :: "'s server \<Rightarrow> ('s sq_worker, unit) async" where
  "sq_commit S = oneshot_cmd_with_ack S Commit"

definition sq_rollback :: "'s server \<Rightarrow> ('s sq_worker, unit) async" where
  "sq_rollback S = oneshot_cmd_with_ack S (\<lambda>acked. Rollback (Some acked))"

definition sq_start_rollback :: "'s server \<Rightarrow> 's sq_worker \<Rightarrow> 's sq_worker" where
  "sq_start_rollback S w = fst (worker_step S (Rollback None) w)"

definition sq_manager :: "'s server \<Rightarrow> 's sq_worker manager" where
  "sq_manager S = \<lparr>mgr_begin = sq_begin S, mgr_commit = sq_commit S, mgr_rollback = sq_rollback S,
     mgr_start_rollback = sq_start_rollback S\<rparr>"

subsection \<open>Nested transactions\<close>

lemma completes_oneshot:
  "worker_step S (cmd True) w = (w', Ok ()) \<Longrightarrow> completes (oneshot_cmd_with_ack S cmd) w () w'"
  unfolding completes_def by (rule exI [of _ 2]) (simp add: oneshot_cmd_with_ack_def numeral_2_eq_2)

lemma less_2_cases: "k < (2 :: nat) \<Longrightarrow> k = 0 \<or> k = 1"
  by auto

context savepoint_server
begin

definition sq_tracks :: "'d list \<Rightarrow> 'd \<Rightarrow> 's sq_worker \<Rightarrow> bool" where
  "sq_tracks ss d w \<longleftrightarrow> running w \<and> \<not> ignore_next_start_rollback w \<and> sq_depth w = length ss
     \<and> tracks ss d (handle w)"

lemma sq_begin_step:
  assumes "sq_tracks ss d w"
  shows "\<exists>w'. worker_step S (Begin None True) w = (w', Ok ()) \<and> sq_tracks (d # ss) d w'"
  using assms tracks_begin [of ss d "handle w"]
  by (auto simp: sq_tracks_def worker_step_def begin_step_def sq_exec_def Let_def)

lemma sq_begin_unacked:
  assumes "sq_tracks ss d w"
  shows "sq_tracks ss d (fst (worker_step S (Begin None False) w))"
proof -
  obtain s where s: "exec S (begin_ansi_transaction_sql (length ss)) (handle w) = (s, True)" "tracks (d # ss) d s"
    using assms tracks_begin [of ss d "handle w"] by (auto simp: sq_tracks_def)
  then obtain s' where "exec S (rollback_ansi_transaction_sql (Suc (length ss))) s = (s', True)" "tracks ss d s'"
    using tracks_rollback [of d ss s] by (auto simp: tracks_def)
  with s assms show ?thesis
    by (simp add: sq_tracks_def worker_step_def begin_step_def sq_exec_def Let_def)
qed

lemma sq_commit_step:
  assumes "sq_tracks (x # ss) d w"
  shows "\<exists>w'. worker_step S (Commit acked) w = (w', Ok ())
    \<and> sq_tracks ss d (w'\<lparr>ignore_next_start_rollback := False\<rparr>) \<and> ignore_next_start_rollback w' = (\<not> acked)"
  using assms tracks_commit [of x ss d "handle w"]
  by (auto simp: sq_tracks_def worker_step_def commit_step_def sq_exec_def Let_def)

lemma sq_rollback_step:
  assumes "sq_tracks (x # ss) d w"
  shows "\<exists>w'. worker_step S (Rollback tx) w = (w', Ok ())
    \<and> sq_tracks ss x (w'\<lparr>ignore_next_start_rollback := False\<rparr>)
    \<and> ignore_next_start_rollback w' = (tx = Some False)"
  using assms tracks_rollback [of x ss "handle w"]
  by (auto simp: sq_tracks_def tracks_def worker_step_def rollback_step_def sq_exec_def Let_def)

lemma sq_tracks_clear:
  "\<not> ignore_next_start_rollback w \<Longrightarrow> sq_tracks ss d (w\<lparr>ignore_next_start_rollback := False\<rparr>) = sq_tracks ss d w"
  by (simp add: sq_tracks_def)

lemma sq_start_rollback_ignored:
  "ignore_next_start_rollback w \<Longrightarrow> running w \<Longrightarrow>
   sq_start_rollback S w = w\<lparr>ignore_next_start_rollback := False\<rparr>"
  by (simp add: sq_start_rollback_def worker_step_def rollback_step_def)

lemma sq_start_rollback_tracks:
  assumes "sq_tracks (x # ss) d w"
  shows "sq_tracks ss x (sq_start_rollback S w)"
  using sq_rollback_step [OF assms, of None] sq_tracks_clear by (auto simp: sq_start_rollback_def)

end

sublocale savepoint_server \<subseteq> sq: tx_manager "sq_manager S" "worker_execute S" sq_tracks eff plain N for N
proof
  fix ss d w
  assume "sq_tracks ss d w"
  then obtain w' where "worker_step S (Begin None True) w = (w', Ok ())" "sq_tracks (d # ss) d w'"
    using sq_begin_step by blast
  moreover from this have "completes (sq_begin S None) w () w'"
    unfolding sq_begin_def by (intro completes_abind [OF completes_oneshot]) (auto intro: completes_aret)
  ultimately show "\<exists>w'. completes (mgr_begin (sq_manager S) None) w () w' \<and> sq_tracks (d # ss) d w'"
    by (auto simp: sq_manager_def)
next
  fix x ss d w
  assume w: "sq_tracks (x # ss) d w"
  from sq_commit_step [OF w, of True]
  show "\<exists>w'. completes (mgr_commit (sq_manager S)) w () w' \<and> sq_tracks ss d w'"
    using completes_oneshot [where cmd = Commit] sq_tracks_clear
    by (fastforce simp: sq_manager_def sq_commit_def)
  from sq_rollback_step [OF w, of "Some True"]
  show "\<exists>w'. completes (mgr_rollback (sq_manager S)) w () w' \<and> sq_tracks ss x w'"
    using completes_oneshot [where cmd = "\<lambda>acked. Rollback (Some acked)"] sq_tracks_clear
    by (fastforce simp: sq_manager_def sq_rollback_def)
  from sq_start_rollback_tracks [OF w]
  show "sq_tracks ss x (mgr_start_rollback (sq_manager S) w)" by (simp add: sq_manager_def)
next
  fix q ss d w
  assume q: "q \<in> plain" and w: "sq_tracks ss d w"
  then obtain s where s: "exec S q (handle w) = (s, True)" "tracks ss (eff q d) s"
    using tracks_plain [of q ss d "handle w"] by (auto simp: sq_tracks_def)
  have "completes (worker_execute S q) w () (w\<lparr>handle := s\<rparr>)"
    unfolding worker_execute_def using w s
    by (intro completes_await) (simp add: worker_step_def sq_exec_def sq_tracks_def)
  then show "\<exists>w'. completes (worker_execute S q) w () w' \<and> sq_tracks ss (eff q d) w'"
    using w s by (auto simp: sq_tracks_def)
qed

text \<open>A custom statement that opens a transaction, as \<^verbatim>\<open>BEGIN IMMEDIATE\<close> does.\<close>

definition starts_transaction ::
  "'s server \<Rightarrow> ('s \<Rightarrow> (string option \<times> 'd) list) \<Rightarrow> ('s \<Rightarrow> 'd) \<Rightarrow> string \<Rightarrow> bool"
where
  "starts_transaction S frames data q \<longleftrightarrow>
     (\<forall>s. frames s = [] \<and> \<not> aborted S s \<longrightarrow>
        (\<exists>s'. exec S q s = (s', True) \<and> frames s' = [(None, data s)] \<and> data s' = data s \<and> \<not> aborted S s'))"

definition idle_worker :: "'s sq_worker \<Rightarrow> bool" where
  "idle_worker w \<longleftrightarrow> running w \<and> \<not> ignore_next_start_rollback w \<and> sq_depth w = 0"

context savepoint_server
begin

lemma sq_tracks_idle:
  "idle_worker w \<Longrightarrow> frames (handle w) = [] \<Longrightarrow> \<not> aborted S (handle w) \<Longrightarrow> sq_tracks [] (data (handle w)) w"
  by (simp add: sq_tracks_def idle_worker_def tracks_def nested_0)

lemma sq_nested:
  assumes "idle_worker w" and "frames (handle w) = []" and "\<not> aborted S (handle w)"
    and "spec_ops eff ops ([], data (handle w)) = Some (ss, d)" and "list_all (plain_op plain) ops"
  shows "\<exists>w'. completes (run_ops (sq_manager S) (worker_execute S) ops) w () w'
    \<and> sq_depth w' = length ss \<and> data (handle w') = d \<and> nested (length ss) ss (frames (handle w'))"
  using sq.run_ops_refines [OF sq_tracks_idle [OF assms(1-3)] assms(4,5), of "length ops"]
  by (auto simp: sq_tracks_def tracks_def)

lemma sq_cancelled_begin:
  assumes "sq_tracks ss d w" and "k < 2"
  shows "\<exists>w'. sq_begin S None k w = (w', 0, None) \<and> sq_tracks ss d w'"
  using less_2_cases [OF assms(2)] assms(1) sq_begin_unacked [OF assms(1)]
  by (auto simp: sq_begin_def abind_def oneshot_cmd_with_ack_def)

lemma sq_cancelled_custom:
  assumes "sq_tracks [] d w" and "starts_transaction S frames data q" and "k < 3"
  shows "\<exists>w'. sq_begin S (Some q) k w = (w', 0, None) \<and> sq_tracks (if k < 2 then [] else [d]) d w'"
proof -
  have w: "frames (handle w) = []" "\<not> aborted S (handle w)" "data (handle w) = d" "running w" "sq_depth w = 0"
    using assms(1) by (auto simp: sq_tracks_def tracks_def nested_0)
  then obtain s where s: "exec S q (handle w) = (s, True)" "frames s = [(None, d)]" "data s = d" "\<not> aborted S s"
    using assms(2) by (auto simp: starts_transaction_def)
  have "nested (Suc 0) [d] [(frame_name 0, d)]" by (intro nested_open nested_none)
  then have t: "tracks [d] d s" using s by (simp add: tracks_def frame_name_def)
  then obtain s' where s': "exec S (rollback_ansi_transaction_sql (Suc 0)) s = (s', True)" "tracks [] d s'"
    using tracks_rollback [of d "[]" s] by (auto simp: tracks_def)
  have "k = 0 \<or> k = 1 \<or> k = 2" using assms(3) by auto
  then show ?thesis
    using assms(1) w s(1) t s'
    by (auto simp: sq_begin_def abind_def oneshot_cmd_with_ack_def worker_step_def begin_step_def sq_exec_def
        sq_tracks_def await_def numeral_2_eq_2)
qed

lemma sq_cancelled_finish:
  assumes "sq_tracks (x # ss) d w" and "k < 2"
  shows "\<exists>w'. transaction_commit (sq_manager S) k w = (w', 0, None)
      \<and> sq_tracks ss (if k = 0 then x else d) w'"
    and "\<exists>w'. transaction_rollback (sq_manager S) k w = (w', 0, None) \<and> sq_tracks ss x w'"
proof -
  note sr = sq_start_rollback_tracks [OF assms(1)]
  obtain w1 where w1: "worker_step S (Commit False) w = (w1, Ok ())"
      "sq_tracks ss d (sq_start_rollback S w1)"
    using sq_commit_step [OF assms(1), of False] sq_start_rollback_ignored by (auto simp: sq_tracks_def)
  obtain w2 where w2: "worker_step S (Rollback (Some False)) w = (w2, Ok ())"
      "sq_tracks ss x (sq_start_rollback S w2)"
    using sq_rollback_step [OF assms(1), of "Some False"] sq_start_rollback_ignored by (auto simp: sq_tracks_def)
  show "\<exists>w'. transaction_commit (sq_manager S) k w = (w', 0, None)
      \<and> sq_tracks ss (if k = 0 then x else d) w'"
    "\<exists>w'. transaction_rollback (sq_manager S) k w = (w', 0, None) \<and> sq_tracks ss x w'"
    using less_2_cases [OF assms(2)] sr w1 w2
    by (auto simp: transaction_commit_def transaction_rollback_def guarded_def transaction_drop_def
        sq_manager_def sq_commit_def sq_rollback_def oneshot_cmd_with_ack_def)
qed

lemma sq_custom_begin:
  assumes "idle_worker w" and "frames (handle w) = []" and "\<not> aborted S (handle w)" and "q \<in> plain"
  shows "\<exists>w'. sq_begin S (Some q) (3 + k) w = (w', k, Some (Err BeginFailed))
    \<and> sq_depth w' = 1 \<and> frames (handle w') = []"
  using exec_plain [OF assms(4,3)] assms(1,2)
  by (auto simp: sq_begin_def abind_def oneshot_cmd_with_ack_def worker_step_def begin_step_def sq_exec_def
      idle_worker_def await_def numeral_3_eq_3 in_tx_frames)

end

text \<open>C5. Any program of nested transactions on a SQLite connection, dropped ones included,
  runs to completion with the exact depth and the data of the abstract stack-of-snapshots
  semantics.\<close>

theorem sqlite_nested_transactions:
  assumes "savepoint_server S frames data keeps eff plain"
    and "idle_worker w" and "frames (handle w) = []" and "\<not> aborted S (handle w)"
    and "spec_ops eff ops ([], data (handle w)) = Some (ss, d)" and "list_all (plain_op plain) ops"
  shows "\<exists>w'. completes (run_ops (sq_manager S) (worker_execute S) ops) w () w'
    \<and> sq_depth w' = length ss \<and> data (handle w') = d \<and> nested (length ss) ss (frames (handle w'))"
  by (rule savepoint_server.sq_nested [OF assms])

definition demo_worker :: "ref_state sq_worker" where
  "demo_worker = \<lparr>handle = \<lparr>rs_frames = [], rs_data = [], rs_aborted = False\<rparr>, sq_depth = 0,
     ignore_next_start_rollback = False, running = True\<rparr>"

lemma demo_worker_idle:
  "idle_worker demo_worker" "rs_frames (handle demo_worker) = []"
  "\<not> aborted (ref_server True) (handle demo_worker)" "rs_data (handle demo_worker) = []"
  by (simp_all add: demo_worker_def idle_worker_def ref_server_def)

theorem sqlite_nested_transactions_witness:
  "\<exists>w'. completes (run_ops (sq_manager (ref_server True)) (worker_execute (ref_server True))
       [TxBegin, TxRun ''a'', TxBegin, TxRun ''b'', TxRollback, TxRun ''c'', TxCommit]) demo_worker () w'
    \<and> rs_data (handle w') = [''a'', ''c'']"
proof -
  let ?ops = "[TxBegin, TxRun ''a'', TxBegin, TxRun ''b'', TxRollback, TxRun ''c'', TxCommit]"
  have 1: "spec_ops (\<lambda>q d. d @ [q]) ?ops ([], rs_data (handle demo_worker)) = Some ([], [''a'', ''c''])"
    by (simp add: demo_worker_idle)
  have 2: "list_all (plain_op {q. ref_plain q}) ?ops"
    by (simp add: ref_plain_def ref_after_def plain_op_def)
  from sqlite_nested_transactions [OF ref.savepoint_server_axioms [of True] demo_worker_idle(1-3) 1 2]
  show ?thesis by blast
qed



text \<open>A custom \<^verbatim>\<open>begin_with\<close> statement that does not start a transaction is reported as
  \<^verbatim>\<open>BeginFailed\<close>, but the worker has already counted it: the depth stays at one with no
  transaction open.\<close>

theorem sqlite_custom_begin_leaks_depth:
  assumes "savepoint_server S frames data keeps eff plain"
    and "idle_worker w" and "frames (handle w) = []" and "\<not> aborted S (handle w)" and "q \<in> plain"
  shows "\<exists>w'. sq_begin S (Some q) (3 + k) w = (w', k, Some (Err BeginFailed))
    \<and> sq_depth w' = 1 \<and> frames (handle w') = []"
  by (rule savepoint_server.sq_custom_begin [OF assms])

theorem sqlite_custom_begin_leaks_depth_witness:
  "\<exists>w'. sq_begin (ref_server True) (Some ''SELECT 1'') (3 + 0) demo_worker = (w', 0, Some (Err BeginFailed))
    \<and> sq_depth w' = 1"
proof -
  have "''SELECT 1'' \<in> {q. ref_plain q}" by (simp add: ref_plain_def ref_after_def)
  from sqlite_custom_begin_leaks_depth [OF ref.savepoint_server_axioms [of True] demo_worker_idle(1-3) this, of 0]
  show ?thesis by blast
qed

end
