(* ===== verification/Migrator.thy ===== *)
theory Migrator
  imports Prelude
begin

section \<open>Migrations: \<^verbatim>\<open>sqlx-core/src/migrate\<close>\<close>

text \<open>
  Resolving a directory of migration scripts, and the migrator that runs or undoes them over a
  connection.  What a driver provides is the trait \<^verbatim>\<open>Migrate\<close>, here a record of operations; the locale
  \<open>migrate\<close> states what its comments promise, over a view of the database: the migrations table, the
  data the scripts change, how often this session holds the lock,
  and whether the server is healthy.  The migrator is proved once, inside the
  locale, to compute an abstract run over that view.  A directory is the list of its entries in the
  order the operating system gives them; SHA-384 is a parameter.
\<close>

subsection \<open>Migrations\<close>

datatype MigrationType = Simple | ReversibleUp | ReversibleDown

definition suffix_of :: "MigrationType \<Rightarrow> bytes" where
  "suffix_of t =
     (case t of Simple \<Rightarrow> ascii ''.sql'' | ReversibleUp \<Rightarrow> ascii ''.up.sql'' | ReversibleDown \<Rightarrow> ascii ''.down.sql'')"

definition ends_with :: "bytes \<Rightarrow> bytes \<Rightarrow> bool" where
  "ends_with s suf \<longleftrightarrow> length suf \<le> length s \<and> drop (length s - length suf) s = suf"

definition from_filename :: "bytes \<Rightarrow> MigrationType" where
  "from_filename f =
     (if ends_with f (suffix_of ReversibleUp) then ReversibleUp
      else if ends_with f (suffix_of ReversibleDown) then ReversibleDown
      else Simple)"

definition is_reversible :: "MigrationType \<Rightarrow> bool" where
  "is_reversible t = (case t of Simple \<Rightarrow> False | ReversibleUp \<Rightarrow> True | ReversibleDown \<Rightarrow> True)"

definition is_up_migration :: "MigrationType \<Rightarrow> bool" where
  "is_up_migration t = (case t of Simple \<Rightarrow> True | ReversibleUp \<Rightarrow> True | ReversibleDown \<Rightarrow> False)"

definition is_down_migration :: "MigrationType \<Rightarrow> bool" where
  "is_down_migration t = (case t of Simple \<Rightarrow> False | ReversibleUp \<Rightarrow> False | ReversibleDown \<Rightarrow> True)"

definition label :: "MigrationType \<Rightarrow> string" where
  "label t = (case t of Simple \<Rightarrow> ''migrate'' | ReversibleUp \<Rightarrow> ''migrate'' | ReversibleDown \<Rightarrow> ''revert'')"

definition file_content :: "MigrationType \<Rightarrow> string" where
  "file_content t =
     (case t of
        Simple \<Rightarrow> ''-- Add migration script here'' @ [char_of (10 :: nat)]
      | ReversibleUp \<Rightarrow> ''-- Add up migration script here'' @ [char_of (10 :: nat)]
      | ReversibleDown \<Rightarrow> ''-- Add down migration script here'' @ [char_of (10 :: nat)])"

record migration =
  version :: int
  description :: bytes
  migration_type :: MigrationType
  sql :: bytes
  checksum :: bytes
  no_tx :: bool

definition migration_new ::
  "(bytes \<Rightarrow> bytes) \<Rightarrow> int \<Rightarrow> bytes \<Rightarrow> MigrationType \<Rightarrow> bytes \<Rightarrow> bool \<Rightarrow> migration"
where
  "migration_new sha384 v desc t q ntx =
     \<lparr>version = v, description = desc, migration_type = t, sql = q, checksum = sha384 q, no_tx = ntx\<rparr>"

record applied_migration =
  applied_version :: int
  applied_checksum :: bytes

record migrator =
  migrations :: "migration list"
  ignore_missing :: bool
  locking :: bool
  migrator_no_tx :: bool

definition migrator_DEFAULT :: migrator where
  "migrator_DEFAULT = \<lparr>migrations = [], ignore_missing = False, locking = True, migrator_no_tx = False\<rparr>"

definition version_exists :: "migrator \<Rightarrow> int \<Rightarrow> bool" where
  "version_exists M v = list_ex (\<lambda>m. version m = v) (migrations M)"

definition infer :: "migrator \<Rightarrow> bool \<Rightarrow> MigrationType" where
  "infer M reversible =
     (case migrations M of m # _ \<Rightarrow> migration_type m | [] \<Rightarrow> if reversible then ReversibleUp else Simple)"

datatype migrate_error =
    Execute error
  | ExecuteMigration error int
  | SourceError string
  | VersionMissing int
  | VersionMismatch int
  | Dirty int

subsection \<open>Resolving a directory\<close>

text \<open>An entry of the directory: its name, whether it is a file, and its content; \<open>None\<close> is an I/O error.\<close>

record dir_entry =
  file_name :: bytes
  is_file :: "bool option"
  file_text :: "bytes option"

text \<open>\<^verbatim>\<open>splitn(2, '_')\<close>, when there is an underscore.\<close>

definition split_underscore :: "bytes \<Rightarrow> (bytes \<times> bytes) option" where
  "split_underscore s =
     (case dropWhile (\<lambda>b. b \<noteq> 95) s of [] \<Rightarrow> None | _ # r \<Rightarrow> Some (takeWhile (\<lambda>b. b \<noteq> 95) s, r))"

lemma ends_with_shorter: "ends_with s suf \<Longrightarrow> suf \<noteq> [] \<Longrightarrow> length s - length suf < length s"
  by (cases suf) (auto simp: ends_with_def)

function trim_end_matches :: "bytes \<Rightarrow> bytes \<Rightarrow> bytes" where
  "trim_end_matches suf s =
     (if suf \<noteq> [] \<and> ends_with s suf then trim_end_matches suf (take (length s - length suf) s) else s)"
  by pat_completeness auto
termination
  by (relation "measure (\<lambda>(suf, s). length s)") (auto intro: ends_with_shorter)

declare trim_end_matches.simps [simp del]

definition resolve_file ::
  "(bytes \<Rightarrow> bytes) \<Rightarrow> dir_entry \<Rightarrow> migrate_error + migration option"
where
  "resolve_file sha384 e =
     (case is_file e of
        None \<Rightarrow> Inl (SourceError ''error getting metadata of migration path'')
      | Some False \<Rightarrow> Inr None
      | Some True \<Rightarrow>
          (case split_underscore (file_name e) of
             None \<Rightarrow> Inr None
           | Some (ver, rest) \<Rightarrow>
               if \<not> ends_with rest (ascii ''.sql'') then Inr None
               else
                 (case parse_signed 64 ver of
                    None \<Rightarrow> Inl (SourceError ''error parsing migration filename'')
                  | Some v \<Rightarrow>
                      let t = from_filename rest;
                          desc = map (\<lambda>b. if b = 95 then 32 else b) (trim_end_matches (suffix_of t) rest) in
                      (case file_text e of
                         None \<Rightarrow> Inl (SourceError ''error reading contents of migration'')
                       | Some q \<Rightarrow>
                           Inr (Some (migration_new sha384 v desc t q (starts_with q (ascii ''-- no-transaction''))))))))"

primrec resolve_entries ::
  "(bytes \<Rightarrow> bytes) \<Rightarrow> dir_entry option list \<Rightarrow> migration list \<Rightarrow> migrate_error + migration list"
where
  "resolve_entries sha384 [] ms = Inr ms"
| "resolve_entries sha384 (r # rs) ms =
     (case r of
        None \<Rightarrow> Inl (SourceError ''error reading contents of migration directory'')
      | Some e \<Rightarrow>
          (case resolve_file sha384 e of
             Inl err \<Rightarrow> Inl err
           | Inr None \<Rightarrow> resolve_entries sha384 rs ms
           | Inr (Some m) \<Rightarrow> resolve_entries sha384 rs (ms @ [m])))"

definition resolve_blocking ::
  "(bytes \<Rightarrow> bytes) \<Rightarrow> dir_entry option list option \<Rightarrow> migrate_error + migration list"
where
  "resolve_blocking sha384 dir =
     (case dir of
        None \<Rightarrow> Inl (SourceError ''error reading migration directory'')
      | Some rs \<Rightarrow>
          (case resolve_entries sha384 rs [] of
             Inl err \<Rightarrow> Inl err
           | Inr ms \<Rightarrow> Inr (sort_key version ms)))"

definition migrator_new :: "(migrate_error + migration list) \<Rightarrow> migrate_error + migrator" where
  "migrator_new src =
     (case src of Inl e \<Rightarrow> Inl e | Inr ms \<Rightarrow> Inr (migrator_DEFAULT\<lparr>migrations := ms\<rparr>))"

subsection \<open>The migrator\<close>

type_synonym ('c, 'a) mig = "'c \<Rightarrow> 'c \<times> (migrate_error + 'a)"

definition mbind :: "('c, 'a) mig \<Rightarrow> ('a \<Rightarrow> ('c, 'b) mig) \<Rightarrow> ('c, 'b) mig" where
  "mbind m f c = (case m c of (c, Inl e) \<Rightarrow> (c, Inl e) | (c, Inr x) \<Rightarrow> f x c)"

definition mret :: "(migrate_error + 'a) \<Rightarrow> ('c, 'a) mig" where
  "mret r c = (c, r)"

record 'c migrate_api =
  lock :: "('c, unit) mig"
  unlock :: "('c, unit) mig"
  ensure_migrations_table :: "('c, unit) mig"
  dirty_version :: "('c, int option) mig"
  list_applied_migrations :: "('c, applied_migration list) mig"
  apply_migration :: "migration \<Rightarrow> ('c, unit) mig"
  revert_migration :: "migration \<Rightarrow> ('c, unit) mig"

primrec first_missing :: "int set \<Rightarrow> applied_migration list \<Rightarrow> migrate_error + unit" where
  "first_missing known [] = Inr ()"
| "first_missing known (a # as) =
     (if applied_version a \<notin> known then Inl (VersionMissing (applied_version a)) else first_missing known as)"

definition validate_applied_migrations :: "applied_migration list \<Rightarrow> migrator \<Rightarrow> migrate_error + unit" where
  "validate_applied_migrations applied M =
     (if ignore_missing M then Inr () else first_missing (version ` set (migrations M)) applied)"

definition applied_map :: "applied_migration list \<Rightarrow> int \<rightharpoonup> bytes" where
  "applied_map applied = map_of (rev (map (\<lambda>a. (applied_version a, applied_checksum a)) applied))"

primrec migrate_loop :: "'c migrate_api \<Rightarrow> (int \<rightharpoonup> bytes) \<Rightarrow> migration list \<Rightarrow> ('c, unit) mig" where
  "migrate_loop D applied [] c = (c, Inr ())"
| "migrate_loop D applied (m # ms) c =
     (if is_down_migration (migration_type m) then migrate_loop D applied ms c
      else case applied (version m) of
        Some cs \<Rightarrow>
          if checksum m \<noteq> cs then (c, Inl (VersionMismatch (version m))) else migrate_loop D applied ms c
      | None \<Rightarrow> mbind (apply_migration D m) (\<lambda>_. migrate_loop D applied ms) c)"

definition lock_if :: "bool \<Rightarrow> ('c, unit) mig \<Rightarrow> ('c, unit) mig" where
  "lock_if b m = (if b then m else mret (Inr ()))"

definition prepare_run :: "'c migrate_api \<Rightarrow> migrator \<Rightarrow> ('c, int \<rightharpoonup> bytes) mig" where
  "prepare_run D M =
     mbind (lock_if (locking M) (lock D)) (\<lambda>_.
     mbind (ensure_migrations_table D) (\<lambda>_.
     mbind (dirty_version D) (\<lambda>d.
       case d of
         Some v \<Rightarrow> mret (Inl (Dirty v))
       | None \<Rightarrow>
           mbind (list_applied_migrations D) (\<lambda>applied.
           mbind (mret (validate_applied_migrations applied M)) (\<lambda>_.
             mret (Inr (applied_map applied)))))))"

definition run_direct :: "'c migrate_api \<Rightarrow> migrator \<Rightarrow> ('c, unit) mig" where
  "run_direct D M =
     mbind (prepare_run D M) (\<lambda>applied.
     mbind (migrate_loop D applied (migrations M)) (\<lambda>_.
       lock_if (locking M) (unlock D)))"

primrec undo_loop :: "'c migrate_api \<Rightarrow> migration list \<Rightarrow> ('c, unit) mig" where
  "undo_loop D [] c = (c, Inr ())"
| "undo_loop D (m # ms) c = mbind (revert_migration D m) (\<lambda>_. undo_loop D ms) c"

definition to_revert :: "migrator \<Rightarrow> (int \<rightharpoonup> bytes) \<Rightarrow> int \<Rightarrow> migration list" where
  "to_revert M applied target =
     filter (\<lambda>m. target < version m)
       (filter (\<lambda>m. applied (version m) \<noteq> None)
         (filter (\<lambda>m. is_down_migration (migration_type m)) (rev (migrations M))))"

definition undo :: "'c migrate_api \<Rightarrow> migrator \<Rightarrow> int \<Rightarrow> ('c, unit) mig" where
  "undo D M target =
     mbind (prepare_run D M) (\<lambda>applied.
     mbind (undo_loop D (to_revert M applied target)) (\<lambda>_.
       lock_if (locking M) (unlock D)))"

subsection \<open>What a driver promises\<close>

text \<open>Not every failing script is undone: \<open>atomic\<close> says of which migrations the driver promises it.\<close>

type_synonym rows = "int \<rightharpoonup> bool \<times> bytes"

locale migrate =
  fixes D :: "'c migrate_api"
    and rows :: "'c \<Rightarrow> rows"
    and data :: "'c \<Rightarrow> 'd"
    and held :: "'c \<Rightarrow> nat"
    and healthy :: "'c \<Rightarrow> bool"
    and script :: "bytes \<Rightarrow> 'd \<Rightarrow> 'd option"
    and atomic :: "migration \<Rightarrow> bool"
    and locks :: bool
  assumes lock_law:
      "healthy c \<Longrightarrow> \<exists>c'. lock D c = (c', Inr ()) \<and> healthy c' \<and> rows c' = rows c \<and> data c' = data c
        \<and> held c' = (if locks then held c + 1 else held c)"
    and unlock_law:
      "healthy c \<Longrightarrow> \<exists>c'. unlock D c = (c', Inr ()) \<and> healthy c' \<and> rows c' = rows c \<and> data c' = data c
        \<and> held c' = (if locks then held c - 1 else held c)"
    and ensure_law:
      "healthy c \<Longrightarrow> \<exists>c'. ensure_migrations_table D c = (c', Inr ()) \<and> healthy c' \<and> rows c' = rows c \<and> data c' = data c
        \<and> held c' = held c"
    and dirty_law:
      "healthy c \<Longrightarrow> \<exists>c' r. dirty_version D c = (c', Inr r) \<and> healthy c' \<and> rows c' = rows c \<and> data c' = data c
        \<and> held c' = held c
        \<and> (case r of None \<Rightarrow> (\<forall>v cs. rows c v \<noteq> Some (False, cs)) | Some v \<Rightarrow> (\<exists>cs. rows c v = Some (False, cs)))"
    and list_law:
      "healthy c \<Longrightarrow> \<exists>c' as. list_applied_migrations D c = (c', Inr as) \<and> healthy c' \<and> rows c' = rows c \<and> data c' = data c
        \<and> held c' = held c \<and> distinct (map applied_version as)
        \<and> map_of (map (\<lambda>a. (applied_version a, applied_checksum a)) as) = map_option snd \<circ> rows c"
    and apply_law:
      "healthy c \<Longrightarrow> rows c (version m) = None \<Longrightarrow> script (sql m) (data c) = Some d \<Longrightarrow>
       \<exists>c'. apply_migration D m c = (c', Inr ()) \<and> healthy c' \<and> rows c' = (rows c)(version m \<mapsto> (True, checksum m))
         \<and> data c' = d \<and> held c' = held c"
    and apply_fails_law:
      "healthy c \<Longrightarrow> rows c (version m) = None \<Longrightarrow> script (sql m) (data c) = None \<Longrightarrow>
       \<exists>c' e. apply_migration D m c = (c', Inl (ExecuteMigration e (version m))) \<and> held c' = held c
         \<and> (atomic m \<longrightarrow> healthy c' \<and> rows c' = rows c \<and> data c' = data c)"
    and revert_law:
      "healthy c \<Longrightarrow> script (sql m) (data c) = Some d \<Longrightarrow>
       \<exists>c'. revert_migration D m c = (c', Inr ()) \<and> healthy c' \<and> rows c' = (rows c)(version m := None)
         \<and> data c' = d \<and> held c' = held c"
    and revert_fails_law:
      "healthy c \<Longrightarrow> script (sql m) (data c) = None \<Longrightarrow>
       \<exists>c' e. revert_migration D m c = (c', Inl e) \<and> held c' = held c
         \<and> (atomic m \<longrightarrow> healthy c' \<and> rows c' = rows c \<and> data c' = data c)"

subsection \<open>The abstract run\<close>

text \<open>Executing scripts in order, recording each; it stops at the first that fails and returns its version.\<close>

primrec exec_pending ::
  "(bytes \<Rightarrow> 'd \<Rightarrow> 'd option) \<Rightarrow> migration list \<Rightarrow> rows \<times> 'd \<Rightarrow> (rows \<times> 'd) \<times> int option"
where
  "exec_pending scr [] s = (s, None)"
| "exec_pending scr (m # ms) s =
     (case scr (sql m) (snd s) of
        None \<Rightarrow> (s, Some (version m))
      | Some d \<Rightarrow> exec_pending scr ms ((fst s)(version m \<mapsto> (True, checksum m)), d))"

primrec exec_reverts ::
  "(bytes \<Rightarrow> 'd \<Rightarrow> 'd option) \<Rightarrow> migration list \<Rightarrow> rows \<times> 'd \<Rightarrow> (rows \<times> 'd) \<times> int option"
where
  "exec_reverts scr [] s = (s, None)"
| "exec_reverts scr (m # ms) s =
     (case scr (sql m) (snd s) of
        None \<Rightarrow> (s, Some (version m))
      | Some d \<Rightarrow> exec_reverts scr ms ((fst s)(version m := None), d))"

definition ups :: "migration list \<Rightarrow> migration list" where
  "ups ms = filter (\<lambda>m. \<not> is_down_migration (migration_type m)) ms"

definition pending :: "migration list \<Rightarrow> (int \<rightharpoonup> 'x) \<Rightarrow> migration list" where
  "pending ms r = filter (\<lambda>m. r (version m) = None) (ups ms)"

definition checksums_match :: "migration list \<Rightarrow> rows \<Rightarrow> bool" where
  "checksums_match ms r \<longleftrightarrow> (\<forall>m \<in> set (ups ms). \<forall>s cs. r (version m) = Some (s, cs) \<longrightarrow> checksum m = cs)"

definition clean :: "rows \<Rightarrow> bool" where
  "clean r \<longleftrightarrow> (\<forall>v cs. r v \<noteq> Some (False, cs))"

definition known :: "migrator \<Rightarrow> rows \<Rightarrow> bool" where
  "known M r \<longleftrightarrow> ignore_missing M \<or> dom r \<subseteq> version ` set (migrations M)"

lemma mbind_simps:
  "m c = (c', Inr x) \<Longrightarrow> mbind m f c = f x c'" "m c = (c', Inl e) \<Longrightarrow> mbind m f c = (c', Inl e)"
  by (simp_all add: mbind_def)

lemma first_missing_iff: "first_missing K as = Inr () \<longleftrightarrow> applied_version ` set as \<subseteq> K"
  by (induction as) auto

lemma first_missing_Inl:
  "first_missing K as = Inl e \<Longrightarrow> \<exists>v. e = VersionMissing v \<and> v \<in> applied_version ` set as \<and> v \<notin> K"
  by (induction as) (auto split: if_splits)

lemma applied_map_eq: "distinct (map applied_version as) \<Longrightarrow>
  applied_map as = map_of (map (\<lambda>a. (applied_version a, applied_checksum a)) as)"
  unfolding applied_map_def by (subst map_of_inject_set) (simp_all add: comp_def rev_map flip: rev_map)

lemma applied_versions:
  "map_of (map (\<lambda>a. (applied_version a, applied_checksum a)) as) = map_option snd \<circ> r \<Longrightarrow> applied_version ` set as = dom r"
  using dom_map_of_conv_image_fst [of "map (\<lambda>a. (applied_version a, applied_checksum a)) as"]
  by (auto simp: image_image dom_def)

lemma exec_pending_rows:
  "exec_pending scr ms (r, d) = ((r', d'), None) \<Longrightarrow> distinct (map version ms) \<Longrightarrow>
   r' v = (if v \<in> version ` set ms then map_option (Pair True) (map_of (map (\<lambda>m. (version m, checksum m)) ms) v) else r v)"
proof (induction ms arbitrary: r d)
  case Nil
  then show ?case by simp
next
  case (Cons m ms)
  then show ?case
    by (cases "scr (sql m) d") (auto simp: map_of_eq_None_iff image_image)
qed

lemma exec_pending_version: "exec_pending scr ms x = (y, Some v) \<Longrightarrow> v \<in> version ` set ms"
  by (induction ms arbitrary: x) (auto split: option.splits)

lemma pending_done:
  assumes "exec_pending scr (pending ms r) (r, d) = ((r', d'), None)" and "distinct (map version (ups ms))"
    and "clean r" and "checksums_match ms r"
  shows "pending ms r' = []" and "clean r'" and "checksums_match ms r'" and "dom r' \<subseteq> dom r \<union> version ` set ms"
proof -
  let ?p = "pending ms r"
  have d: "distinct (map version ?p)" using assms(2) by (simp add: pending_def distinct_map_filter)
  note r' = exec_pending_rows [OF assms(1) d]
  have p: "set ?p = {m \<in> set (ups ms). r (version m) = None}" by (auto simp: pending_def)
  have rec: "r' (version m) = Some (True, checksum m)" if "m \<in> set ?p" for m
  proof -
    have "map_of (map (\<lambda>m. (version m, checksum m)) ?p) (version m) = Some (checksum m)"
      using d that by (intro map_of_is_SomeI) (auto simp: comp_def)
    with that r' [of "version m"] show ?thesis by auto
  qed
  have keep: "r' v = r v" if "v \<notin> version ` set ?p" for v using r' [of v] that by simp
  show "pending ms r' = []"
  proof -
    have "r' (version m) \<noteq> None" if "m \<in> set (ups ms)" for m
    proof (cases "r (version m) = None")
      case True
      with that p rec [of m] show ?thesis by simp
    next
      case False
      then have "version m \<notin> version ` set ?p" by (auto simp: p)
      with keep False show ?thesis by simp
    qed
    then show ?thesis by (simp add: pending_def filter_empty_conv)
  qed
  show "clean r'" unfolding clean_def
  proof (intro allI notI)
    fix v cs assume a: "r' v = Some (False, cs)"
    then show False using keep [of v] rec assms(3) by (cases "v \<in> version ` set ?p") (auto simp: clean_def)
  qed
  show "checksums_match ms r'" unfolding checksums_match_def
  proof (intro ballI allI impI)
    fix m s cs assume m: "m \<in> set (ups ms)" and a: "r' (version m) = Some (s, cs)"
    show "checksum m = cs"
    proof (cases "version m \<in> version ` set ?p")
      case True
      then obtain m' where m': "m' \<in> set ?p" "version m' = version m" by auto
      then have "m' = m" using assms(2) m p by (auto simp: distinct_map inj_on_def)
      with rec [OF m'(1)] a show ?thesis by simp
    next
      case False
      with keep a m assms(4) show ?thesis by (simp add: checksums_match_def)
    qed
  qed
  show "dom r' \<subseteq> dom r \<union> version ` set ms"
  proof
    fix v assume "v \<in> dom r'"
    moreover have "version ` set ?p \<subseteq> version ` set ms" by (auto simp: p ups_def)
    ultimately show "v \<in> dom r \<union> version ` set ms"
      using keep [of v] by (cases "v \<in> version ` set ?p") (auto simp: domIff)
  qed
qed

context migrate
begin

definition same_view :: "'c \<Rightarrow> 'c \<Rightarrow> bool" where
  "same_view c c' \<longleftrightarrow> healthy c' \<and> rows c' = rows c \<and> data c' = data c"

lemma prepare_lock:
  assumes "healthy c"
  shows "\<exists>c'. lock_if (locking M) (lock D) c = (c', Inr ()) \<and> same_view c c'
    \<and> held c' = (if locking M \<and> locks then held c + 1 else held c)"
  using lock_law [OF assms] assms by (auto simp: lock_if_def mret_def same_view_def)

lemma finish_unlock:
  assumes "healthy c"
  shows "\<exists>c'. lock_if (locking M) (unlock D) c = (c', Inr ()) \<and> same_view c c'
    \<and> held c' = (if locking M \<and> locks then held c - 1 else held c)"
  using unlock_law [OF assms] assms by (auto simp: lock_if_def mret_def same_view_def)

lemma prepare_cases:
  assumes "healthy c"
  obtains c' r where "prepare_run D M c = (c', r)" "same_view c c'" "held c' = (if locking M \<and> locks then held c + 1 else held c)"
    "case r of
       Inr applied \<Rightarrow> clean (rows c) \<and> known M (rows c) \<and> applied = map_option snd \<circ> rows c
     | Inl e \<Rightarrow> (\<exists>v cs. e = Dirty v \<and> rows c v = Some (False, cs))
         \<or> clean (rows c) \<and> (\<exists>v. e = VersionMissing v \<and> \<not> ignore_missing M \<and> v \<in> dom (rows c) - version ` set (migrations M))"
proof -
  obtain c1 where 1: "lock_if (locking M) (lock D) c = (c1, Inr ())" "same_view c c1"
      "held c1 = (if locking M \<and> locks then held c + 1 else held c)" using prepare_lock [OF assms] by blast
  obtain c2 where 2: "ensure_migrations_table D c1 = (c2, Inr ())" "same_view c c2" "held c2 = held c1"
    using ensure_law [of c1] 1(2) unfolding same_view_def by auto
  obtain c3 d where 3: "dirty_version D c2 = (c3, Inr d)" "same_view c c3" "held c3 = held c1"
      "case d of None \<Rightarrow> clean (rows c) | Some v \<Rightarrow> (\<exists>cs. rows c v = Some (False, cs))"
  proof -
    have h: "healthy c2" "rows c2 = rows c" "data c2 = data c" using 2(2) by (simp_all add: same_view_def)
    show thesis if "\<And>c3 d. \<lbrakk>dirty_version D c2 = (c3, Inr d); same_view c c3; held c3 = held c1;
        case d of None \<Rightarrow> clean (rows c) | Some v \<Rightarrow> (\<exists>cs. rows c v = Some (False, cs))\<rbrakk> \<Longrightarrow> thesis"
      using dirty_law [OF h(1), unfolded h(2,3) 2(3)] that unfolding same_view_def clean_def by blast
  qed
  obtain c4 as where 4: "list_applied_migrations D c3 = (c4, Inr as)" "same_view c c4" "held c4 = held c1"
      "distinct (map applied_version as)"
      "map_of (map (\<lambda>a. (applied_version a, applied_checksum a)) as) = map_option snd \<circ> rows c"
    using list_law [of c3] 3(2,3) unfolding same_view_def by auto
  have p: "prepare_run D M c =
      (case d of Some v \<Rightarrow> (c3, Inl (Dirty v))
       | None \<Rightarrow> (case validate_applied_migrations as M of Inl e \<Rightarrow> (c4, Inl e) | Inr _ \<Rightarrow> (c4, Inr (applied_map as))))"
    by (simp add: prepare_run_def mbind_simps 1(1) 2(1) 3(1) mret_def split: option.split)
      (simp add: mbind_simps 4(1) mbind_def mret_def split: sum.split)
  show thesis
  proof (cases d)
    case (Some v)
    with p that [of c3 "Inl (Dirty v)"] 1(3) 3 show ?thesis by auto
  next
    case None
    show ?thesis
    proof (cases "validate_applied_migrations as M")
      case (Inl e)
      then have "\<not> ignore_missing M" "first_missing (version ` set (migrations M)) as = Inl e"
        by (auto simp: validate_applied_migrations_def split: if_splits)
      with first_missing_Inl [OF this(2)] applied_versions [OF 4(5)] p that [of c4 "Inl e"] None Inl 1(3) 3(4) 4(2,3)
      show ?thesis by auto
    next
      case (Inr u)
      then have "known M (rows c)"
        using first_missing_iff [of "version ` set (migrations M)" as] applied_versions [OF 4(5)]
        by (auto simp: validate_applied_migrations_def known_def split: if_splits)
      with p that [of c4 "Inr (applied_map as)"] None Inr 1(3) 3(4) 4(2,3) applied_map_eq [OF 4(4)] 4(5)
      show ?thesis by auto
    qed
  qed
qed

lemma loop_refines:
  assumes "healthy c" and "distinct (map version (ups ms))"
    and "\<forall>m \<in> set (ups ms). \<forall>cs. applied (version m) = Some cs \<longrightarrow> checksum m = cs"
    and "\<forall>m \<in> set (pending ms applied). rows c (version m) = None"
  shows "\<exists>c' r. migrate_loop D applied ms c = (c', r) \<and> held c' = held c
    \<and> (case exec_pending script (pending ms applied) (rows c, data c) of
         (x, None) \<Rightarrow> r = Inr () \<and> healthy c' \<and> (rows c', data c') = x
       | (x, Some v) \<Rightarrow> (\<exists>e. r = Inl (ExecuteMigration e v))
           \<and> (\<forall>m \<in> set (pending ms applied). version m = v \<and> atomic m \<longrightarrow> healthy c' \<and> (rows c', data c') = x))"
  using assms
proof (induction ms arbitrary: c)
  case Nil
  then show ?case by (simp add: pending_def ups_def)
next
  case (Cons m ms)
  show ?case
  proof (cases "is_down_migration (migration_type m) \<or> applied (version m) \<noteq> None")
    case True
    then have p: "pending (m # ms) applied = pending ms applied" by (auto simp: pending_def ups_def)
    have l: "migrate_loop D applied (m # ms) c = migrate_loop D applied ms c"
      using True Cons.prems(3) by (auto simp: ups_def)
    have "distinct (map version (ups ms))"
      "\<forall>m \<in> set (ups ms). \<forall>cs. applied (version m) = Some cs \<longrightarrow> checksum m = cs"
      using Cons.prems(2,3) by (auto simp: ups_def split: if_splits)
    from Cons.IH [OF Cons.prems(1) this] Cons.prems(4) show ?thesis unfolding p l by blast
  next
    case False
    then have up: "\<not> is_down_migration (migration_type m)" and none: "applied (version m) = None" by auto
    then have pend: "pending (m # ms) applied = m # pending ms applied" by (simp add: pending_def ups_def)
    have m: "rows c (version m) = None" using Cons.prems(4) pend by auto
    have ne: "\<forall>m' \<in> set (pending ms applied). version m' \<noteq> version m"
      using Cons.prems(2) up by (auto simp: pending_def ups_def image_iff)
    show ?thesis
    proof (cases "script (sql m) (data c)")
      case fails: None
      obtain c' e where "apply_migration D m c = (c', Inl (ExecuteMigration e (version m)))" "held c' = held c"
          "atomic m \<longrightarrow> healthy c' \<and> rows c' = rows c \<and> data c' = data c"
        using apply_fails_law [OF Cons.prems(1) m(1) fails] by blast
      with up none pend fails ne show ?thesis by (auto simp: mbind_simps)
    next
      case (Some d)
      obtain c' where c': "apply_migration D m c = (c', Inr ())" "healthy c'"
          "rows c' = (rows c)(version m \<mapsto> (True, checksum m))" "data c' = d" "held c' = held c"
        using apply_law [OF Cons.prems(1) m(1) Some] by blast
      have tl: "distinct (map version (ups ms))"
        "\<forall>m \<in> set (ups ms). \<forall>cs. applied (version m) = Some cs \<longrightarrow> checksum m = cs"
        "\<forall>m' \<in> set (pending ms applied). rows c' (version m') = None"
        using Cons.prems(2-4) up pend ne c'(3) by (simp_all add: ups_def)
      have "migrate_loop D applied (m # ms) c = migrate_loop D applied ms c'"
        using up none c'(1) by (simp add: mbind_simps)
      moreover have x: "exec_pending script (pending (m # ms) applied) (rows c, data c) =
          exec_pending script (pending ms applied) (rows c', data c')"
        using Some c'(3,4) by (simp add: pend)
      moreover have "v \<noteq> version m" if "exec_pending script (pending ms applied) (rows c', data c') = (y, Some v)" for y v
        using exec_pending_version [OF that] ne by auto
      ultimately show ?thesis using Cons.IH [OF c'(2) tl] c'(5)
        unfolding x pend by (fastforce split: prod.splits option.splits)
    qed
  qed
qed

text \<open>Whatever makes it stop, the loop leaves the lock alone; and it ends well only if the checksums match.\<close>

lemma loop_held:
  assumes "healthy c" and "distinct (map version (ups ms))"
    and "\<forall>m \<in> set (pending ms applied). rows c (version m) = None"
  shows "\<exists>c' r. migrate_loop D applied ms c = (c', r) \<and> held c' = held c
    \<and> (r = Inr () \<longrightarrow> healthy c' \<and> (\<forall>m \<in> set (ups ms). \<forall>cs. applied (version m) = Some cs \<longrightarrow> checksum m = cs))"
  using assms
proof (induction ms arbitrary: c)
  case Nil
  then show ?case by (simp add: ups_def)
next
  case (Cons m ms)
  have d: "distinct (map version (ups ms))" using Cons.prems(2) by (simp add: ups_def split: if_splits)
  consider (down) "is_down_migration (migration_type m)"
    | (bad) cs where "\<not> is_down_migration (migration_type m)" "applied (version m) = Some cs" "checksum m \<noteq> cs"
    | (good) cs where "\<not> is_down_migration (migration_type m)" "applied (version m) = Some cs" "checksum m = cs"
    | (new) "\<not> is_down_migration (migration_type m)" "applied (version m) = None" by (cases "applied (version m)") auto
  then show ?case
  proof cases
    case down
    with Cons.IH [OF Cons.prems(1) d] Cons.prems(3) show ?thesis by (simp add: ups_def pending_def)
  next
    case bad
    then show ?thesis by simp
  next
    case good
    with Cons.IH [OF Cons.prems(1) d] Cons.prems(3) show ?thesis by (simp add: ups_def pending_def)
  next
    case new
    then have pend: "pending (m # ms) applied = m # pending ms applied" by (simp add: pending_def ups_def)
    have m: "rows c (version m) = None" using Cons.prems(3) pend by auto
    show ?thesis
    proof (cases "script (sql m) (data c)")
      case None
      with apply_fails_law [OF Cons.prems(1) m None] new show ?thesis by (auto simp: mbind_simps)
    next
      case (Some x)
      obtain c' where c': "apply_migration D m c = (c', Inr ())" "healthy c'"
          "rows c' = (rows c)(version m \<mapsto> (True, checksum m))" "held c' = held c"
        using apply_law [OF Cons.prems(1) m Some] by blast
      have "\<forall>m' \<in> set (pending ms applied). version m' \<noteq> version m"
        using Cons.prems(2) new by (auto simp: pending_def ups_def image_iff)
      then have "\<forall>m' \<in> set (pending ms applied). rows c' (version m') = None"
        using Cons.prems(3) pend c'(3) by simp
      with Cons.IH [OF c'(2) d] c' new show ?thesis by (auto simp: mbind_simps ups_def)
    qed
  qed
qed

lemma prepare_ok:
  assumes "healthy c" and cl: "clean (rows c)" and kn: "known M (rows c)"
  obtains c' where "prepare_run D M c = (c', Inr (map_option snd \<circ> rows c))" "same_view c c'"
    "held c' = (if locking M \<and> locks then held c + 1 else held c)"
proof -
  obtain c' r where 1: "prepare_run D M c = (c', r)" "same_view c c'" "held c' = (if locking M \<and> locks then held c + 1 else held c)"
    "case r of
       Inr applied \<Rightarrow> clean (rows c) \<and> known M (rows c) \<and> applied = map_option snd \<circ> rows c
     | Inl e \<Rightarrow> (\<exists>v cs. e = Dirty v \<and> rows c v = Some (False, cs))
         \<or> clean (rows c) \<and> (\<exists>v. e = VersionMissing v \<and> \<not> ignore_missing M \<and> v \<in> dom (rows c) - version ` set (migrations M))"
    using prepare_cases [OF assms(1), of M] by blast
  show thesis
  proof (cases r)
    case (Inl e)
    then have False using 1(4) cl kn unfolding clean_def known_def by auto
    then show ?thesis ..
  next
    case (Inr a)
    with 1 that show ?thesis by auto
  qed
qed

lemma pending_applied: "pending ms (map_option snd \<circ> r) = pending ms r"
  by (simp add: pending_def)

lemma run_refines:
  assumes "healthy c" and "distinct (map version (ups (migrations M)))"
    and "clean (rows c)" and "known M (rows c)" and "checksums_match (migrations M) (rows c)"
  shows "\<exists>c' r. run_direct D M c = (c', r)
    \<and> (case exec_pending script (pending (migrations M) (rows c)) (rows c, data c) of
         (x, None) \<Rightarrow> r = Inr () \<and> held c' = held c \<and> healthy c' \<and> (rows c', data c') = x
       | (x, Some v) \<Rightarrow> (\<exists>e. r = Inl (ExecuteMigration e v))
           \<and> held c' = (if locking M \<and> locks then held c + 1 else held c)
           \<and> (\<forall>m \<in> set (pending (migrations M) (rows c)). version m = v \<and> atomic m \<longrightarrow>
                healthy c' \<and> (rows c', data c') = x))"
proof -
  let ?app = "map_option snd \<circ> rows c"
  let ?x = "exec_pending script (pending (migrations M) (rows c)) (rows c, data c)"
  obtain c1 where 1: "prepare_run D M c = (c1, Inr ?app)" "same_view c c1"
      "held c1 = (if locking M \<and> locks then held c + 1 else held c)"
    using prepare_ok [OF assms(1,3,4)] by blast
  have cs: "\<forall>m \<in> set (ups (migrations M)). \<forall>cs. ?app (version m) = Some cs \<longrightarrow> checksum m = cs"
    using assms(5) by (auto simp: checksums_match_def)
  have none: "\<forall>m \<in> set (pending (migrations M) ?app). rows c1 (version m) = None"
    using 1(2) by (auto simp: same_view_def) (auto simp: pending_def)
  have h: "healthy c1" "rows c1 = rows c" "data c1 = data c" using 1(2) by (simp_all add: same_view_def)
  obtain c2 r where 2: "migrate_loop D ?app (migrations M) c1 = (c2, r)" "held c2 = held c1"
      "case ?x of
         (x, None) \<Rightarrow> r = Inr () \<and> healthy c2 \<and> (rows c2, data c2) = x
       | (x, Some v) \<Rightarrow> (\<exists>e. r = Inl (ExecuteMigration e v))
           \<and> (\<forall>m \<in> set (pending (migrations M) (rows c)). version m = v \<and> atomic m \<longrightarrow>
                healthy c2 \<and> (rows c2, data c2) = x)"
    using loop_refines [OF h(1) assms(2) cs none, unfolded pending_applied h(2,3)]
    by (elim exE conjE) (rule that)
  obtain x vo where x: "?x = (x, vo)" by (cases ?x)
  show ?thesis
  proof (cases vo)
    case None
    then have r: "migrate_loop D ?app (migrations M) c1 = (c2, Inr ())" "healthy c2" "(rows c2, data c2) = x"
      using 2(1,3) x by simp_all
    moreover obtain c3 where "lock_if (locking M) (unlock D) c2 = (c3, Inr ())" "same_view c2 c3"
        "held c3 = (if locking M \<and> locks then held c2 - 1 else held c2)" using finish_unlock [OF r(2)] by blast
    ultimately show ?thesis using None 1 2(2) x
      by (auto simp: run_direct_def mbind_simps same_view_def)
  next
    case (Some v)
    then obtain e where e: "migrate_loop D ?app (migrations M) c1 = (c2, Inl (ExecuteMigration e v))" using 2(1,3) x by auto
    then have "run_direct D M c = (c2, Inl (ExecuteMigration e v))"
      using 1(1) by (simp add: run_direct_def mbind_simps)
    with Some 1(3) 2(2,3) x show ?thesis by simp
  qed
qed

lemma run_held:
  assumes "healthy c" and "distinct (map version (ups (migrations M)))"
  shows "\<exists>c' r. run_direct D M c = (c', r)
    \<and> held c' = (if r = Inr () then held c else if locking M \<and> locks then held c + 1 else held c)
    \<and> (r = Inr () \<longrightarrow> clean (rows c) \<and> known M (rows c) \<and> checksums_match (migrations M) (rows c))"
proof -
  let ?app = "map_option snd \<circ> rows c"
  obtain c1 r1 where 1: "prepare_run D M c = (c1, r1)" "same_view c c1"
    "held c1 = (if locking M \<and> locks then held c + 1 else held c)"
    "case r1 of
       Inr applied \<Rightarrow> clean (rows c) \<and> known M (rows c) \<and> applied = ?app
     | Inl e \<Rightarrow> (\<exists>v cs. e = Dirty v \<and> rows c v = Some (False, cs))
         \<or> clean (rows c) \<and> (\<exists>v. e = VersionMissing v \<and> \<not> ignore_missing M \<and> v \<in> dom (rows c) - version ` set (migrations M))"
    using prepare_cases [OF assms(1), of M] by blast
  show ?thesis
  proof (cases r1)
    case (Inl e)
    with 1 show ?thesis by (simp add: run_direct_def mbind_simps)
  next
    case (Inr applied)
    with 1(4) have ok: "clean (rows c)" "known M (rows c)" "applied = ?app" by simp_all
    have h: "healthy c1" "rows c1 = rows c" using 1(2) by (simp_all add: same_view_def)
    have none: "\<forall>m \<in> set (pending (migrations M) ?app). rows c1 (version m) = None"
      using h(2) by (simp add: pending_applied) (simp add: pending_def)
    obtain c2 r where 2: "migrate_loop D ?app (migrations M) c1 = (c2, r)" "held c2 = held c1"
        "r = Inr () \<longrightarrow> healthy c2
          \<and> (\<forall>m \<in> set (ups (migrations M)). \<forall>cs. ?app (version m) = Some cs \<longrightarrow> checksum m = cs)"
      using loop_held [OF h(1) assms(2) none] by (elim exE conjE) (rule that)
    show ?thesis
    proof (cases r)
      case (Inl e)
      with 1 2 Inr ok show ?thesis by (simp add: run_direct_def mbind_simps)
    next
      case r: (Inr u)
      obtain c3 where "lock_if (locking M) (unlock D) c2 = (c3, Inr ())" "same_view c2 c3"
          "held c3 = (if locking M \<and> locks then held c2 - 1 else held c2)"
        using finish_unlock [of c2 M] 2(3) r by auto
      moreover have "checksums_match (migrations M) (rows c)"
        using 2(3) r by (auto simp: checksums_match_def)
      ultimately show ?thesis using 1 2 Inr r ok by (auto simp: run_direct_def mbind_simps)
    qed
  qed
qed

lemma rerun_nothing:
  assumes "healthy c" and "distinct (map version (ups (migrations M)))"
    and "clean (rows c)" and "known M (rows c)" and "checksums_match (migrations M) (rows c)"
    and "run_direct D M c = (c1, Inr ())"
  shows "\<exists>c2. run_direct D M c1 = (c2, Inr ()) \<and> rows c2 = rows c1 \<and> data c2 = data c1"
proof -
  let ?x = "exec_pending script (pending (migrations M) (rows c)) (rows c, data c)"
  have 1: "healthy c1" "?x = ((rows c1, data c1), None)"
    using run_refines [OF assms(1-5)] assms(6) by (auto split: prod.splits option.splits)
  note fin = pending_done [OF 1(2) assms(2,3,5)]
  have "known M (rows c1)" using assms(4) fin(4) by (auto simp: known_def)
  from run_refines [OF 1(1) assms(2) fin(2) this fin(3)] fin(1) show ?thesis by auto
qed

lemma undo_loop_refines:
  assumes "healthy c"
  shows "\<exists>c' r. undo_loop D ms c = (c', r)
    \<and> (snd (exec_reverts script ms (rows c, data c)) = None \<longleftrightarrow> r = Inr ())
    \<and> (r = Inr () \<longrightarrow> healthy c' \<and> (rows c', data c') = fst (exec_reverts script ms (rows c, data c)))"
  using assms
proof (induction ms arbitrary: c)
  case Nil
  then show ?case by simp
next
  case (Cons m ms)
  show ?case
  proof (cases "script (sql m) (data c)")
    case None
    with revert_fails_law [OF Cons.prems(1) None] show ?thesis by (auto simp: mbind_simps)
  next
    case (Some d)
    obtain c' where c': "revert_migration D m c = (c', Inr ())" "healthy c'" "rows c' = (rows c)(version m := None)"
        "data c' = d" using revert_law [OF Cons.prems(1) Some] by blast
    have "undo_loop D (m # ms) c = undo_loop D ms c'" using c'(1) by (simp add: mbind_simps)
    moreover have "exec_reverts script (m # ms) (rows c, data c) = exec_reverts script ms (rows c', data c')"
      using Some c'(3,4) by simp
    ultimately show ?thesis using Cons.IH [OF c'(2)] by simp
  qed
qed

lemma undo_refines:
  assumes "healthy c" and "clean (rows c)" and "known M (rows c)"
  shows "\<exists>c' r. undo D M target c = (c', r)
    \<and> (snd (exec_reverts script (to_revert M (map_option snd \<circ> rows c) target) (rows c, data c)) = None \<longleftrightarrow> r = Inr ())
    \<and> (r = Inr () \<longrightarrow>
        (rows c', data c') = fst (exec_reverts script (to_revert M (map_option snd \<circ> rows c) target) (rows c, data c)))"
proof -
  let ?app = "map_option snd \<circ> rows c"
  let ?ms = "to_revert M ?app target"
  obtain c1 where 1: "prepare_run D M c = (c1, Inr ?app)" "same_view c c1"
    using prepare_ok [OF assms(1-3)] by blast
  then obtain c2 r where 2: "undo_loop D ?ms c1 = (c2, r)"
      "snd (exec_reverts script ?ms (rows c, data c)) = None \<longleftrightarrow> r = Inr ()"
      "r = Inr () \<longrightarrow> healthy c2 \<and> (rows c2, data c2) = fst (exec_reverts script ?ms (rows c, data c))"
    using undo_loop_refines [of c1 ?ms] by (auto simp: same_view_def)
  show ?thesis
  proof (cases r)
    case (Inl e)
    with 1 2 show ?thesis by (simp add: undo_def mbind_simps)
  next
    case (Inr u)
    obtain c3 where "lock_if (locking M) (unlock D) c2 = (c3, Inr ())" "same_view c2 c3"
      using finish_unlock [of c2 M] 2(3) Inr by auto
    with Inr 1 2 show ?thesis by (auto simp: undo_def mbind_simps same_view_def)
  qed
qed

lemma failed_prepare_keeps_lock:
  assumes "healthy c" and "locking M" and "\<not> clean (rows c) \<or> \<not> known M (rows c)"
  shows "\<exists>c' e. run_direct D M c = (c', Inl e) \<and> held c' = (if locks then held c + 1 else held c) \<and> rows c' = rows c \<and> data c' = data c
    \<and> (\<not> clean (rows c) \<longrightarrow> (\<exists>v cs. e = Dirty v \<and> rows c v = Some (False, cs)))"
proof -
  obtain c1 r where 1: "prepare_run D M c = (c1, r)" "same_view c c1" "held c1 = (if locking M \<and> locks then held c + 1 else held c)"
    "case r of
       Inr applied \<Rightarrow> clean (rows c) \<and> known M (rows c) \<and> applied = map_option snd \<circ> rows c
     | Inl e \<Rightarrow> (\<exists>v cs. e = Dirty v \<and> rows c v = Some (False, cs))
         \<or> clean (rows c) \<and> (\<exists>v. e = VersionMissing v \<and> \<not> ignore_missing M \<and> v \<in> dom (rows c) - version ` set (migrations M))"
    using prepare_cases [OF assms(1), of M] by blast
  then obtain e where r: "r = Inl e" using assms(3) by (cases r) auto
  then have "\<not> clean (rows c) \<longrightarrow> (\<exists>v cs. e = Dirty v \<and> rows c v = Some (False, cs))" using 1(4) by auto
  with r 1(1-3) assms(2) show ?thesis by (auto simp: run_direct_def mbind_simps same_view_def)
qed

end

lemma exec_reverts_rows:
  "exec_reverts scr ms (r, d) = ((r', d'), None) \<Longrightarrow> r' = r |` (- version ` set ms)"
proof (induction ms arbitrary: r d)
  case Nil
  then show ?case by (simp add: restrict_map_def)
next
  case (Cons m ms)
  then show ?case
    by (cases "scr (sql m) d") (auto simp: restrict_map_def fun_eq_iff)
qed

subsection \<open>Directories\<close>

lemma ends_with_iff: "ends_with s suf \<longleftrightarrow> (\<exists>p. s = p @ suf)"
proof
  assume "ends_with s suf"
  then have "s = take (length s - length suf) s @ suf"
    unfolding ends_with_def by (metis append_take_drop_id)
  then show "\<exists>p. s = p @ suf" ..
qed (auto simp: ends_with_def)

lemma ends_with_rev: "ends_with s suf \<longleftrightarrow> (\<exists>p. rev s = rev suf @ p)"
  unfolding ends_with_iff by (metis rev_append rev_rev_ident)

lemma ascii_suffixes:
  "ascii ''.sql'' = [46, 115, 113, 108]" "ascii ''.up.sql'' = [46, 117, 112, 46, 115, 113, 108]"
  "ascii ''.down.sql'' = [46, 100, 111, 119, 110, 46, 115, 113, 108]"
  by (simp_all add: ascii_def)

lemma from_filename_suffix: "46 \<notin> set desc \<Longrightarrow> from_filename (desc @ suffix_of t) = t"
  by (cases t) (auto simp: from_filename_def suffix_of_def ends_with_rev ascii_suffixes dest: arg_cong [where f = set])

lemma ends_with_sql: "ends_with (desc @ suffix_of t) (ascii ''.sql'')"
  by (cases t) (auto simp: suffix_of_def ends_with_rev ascii_suffixes)

lemma trim_suffix: "46 \<notin> set desc \<Longrightarrow> trim_end_matches (suffix_of t) (desc @ suffix_of t) = desc"
proof -
  assume a: "46 \<notin> set desc"
  have ne: "suffix_of t \<noteq> []" "46 \<in> set (suffix_of t)" by (cases t; simp add: suffix_of_def ascii_suffixes)+
  then have "\<not> ends_with desc (suffix_of t)" using a by (auto simp: ends_with_iff)
  then have "trim_end_matches (suffix_of t) desc = desc" by (subst trim_end_matches.simps) simp
  moreover have "ends_with (desc @ suffix_of t) (suffix_of t)" by (auto simp: ends_with_iff)
  ultimately show ?thesis using ne by (subst trim_end_matches.simps) simp
qed

lemma split_underscore_first: "95 \<notin> set p \<Longrightarrow> split_underscore (p @ 95 # r) = Some (p, r)"
  by (auto simp: split_underscore_def dropWhile_append takeWhile_append split: list.splits)

lemma dec_no_underscore: "95 \<notin> set (ascii (dec_string n))"
  using digit_byte_ascii [of n] by (auto simp: list_all_iff digit_byte_def)

text \<open>A script: the version as written, the description, the type and the content.\<close>

type_synonym script_file = "bytes \<times> bytes \<times> MigrationType \<times> bytes"

definition script_entry :: "script_file \<Rightarrow> dir_entry" where
  "script_entry = (\<lambda>(w, desc, t, q).
     \<lparr>file_name = w @ 95 # desc @ suffix_of t, is_file = Some True, file_text = Some q\<rparr>)"

definition script_migration :: "(bytes \<Rightarrow> bytes) \<Rightarrow> script_file \<Rightarrow> migration" where
  "script_migration sha384 = (\<lambda>(w, desc, t, q).
     \<lparr>version = the (parse_signed 64 w), description = map (\<lambda>b. if b = 95 then 32 else b) desc, migration_type = t, sql = q,
      checksum = sha384 q, no_tx = starts_with q (ascii ''-- no-transaction'')\<rparr>)"

definition good_script :: "script_file \<Rightarrow> bool" where
  "good_script = (\<lambda>(w, desc, t, q). 95 \<notin> set w \<and> parse_signed 64 w \<noteq> None \<and> 46 \<notin> set desc)"

lemma resolve_script: "good_script f \<Longrightarrow> resolve_file sha384 (script_entry f) = Inr (Some (script_migration sha384 f))"
  by (cases f) (auto simp: good_script_def script_entry_def script_migration_def resolve_file_def split_underscore_first
      ends_with_sql from_filename_suffix trim_suffix migration_new_def Let_def)

text \<open>Entries the resolver passes over: whatever is no file, and names without an underscore or not ending in \<^verbatim>\<open>.sql\<close>.\<close>

definition ignored_entry :: "dir_entry \<Rightarrow> bool" where
  "ignored_entry e \<longleftrightarrow>
     is_file e = Some False
     \<or> is_file e = Some True \<and> (95 \<notin> set (file_name e) \<or> \<not> ends_with (file_name e) (ascii ''.sql''))"

text \<open>A file with an underscore in its name and ending in \<^verbatim>\<open>.sql\<close>, but with something else than an integer
  before the first underscore.\<close>

definition misnamed_entry :: "dir_entry \<Rightarrow> bool" where
  "misnamed_entry e \<longleftrightarrow>
     is_file e = Some True \<and> 95 \<in> set (file_name e) \<and> ends_with (file_name e) (ascii ''.sql'')
     \<and> parse_signed 64 (takeWhile (\<lambda>b. b \<noteq> 95) (file_name e)) = None"

lemma resolve_misnamed:
  assumes "misnamed_entry e"
  shows "resolve_file sha384 e = Inl (SourceError ''error parsing migration filename'')"
proof -
  let ?f = "file_name e"
  have f: "95 \<in> set ?f" "ends_with ?f (ascii ''.sql'')" using assms by (simp_all add: misnamed_entry_def)
  obtain w r where wr: "?f = w @ 95 # r" "95 \<notin> set w" using f(1) split_list_first [of 95 ?f] by blast
  then have w: "w = takeWhile (\<lambda>b. b \<noteq> 95) ?f" by (auto simp: takeWhile_append)
  obtain p where p: "?f = p @ ascii ''.sql''" using f(2) by (auto simp: ends_with_iff)
  have "95 \<notin> set (ascii ''.sql'')" by (simp add: ascii_suffixes)
  then have "95 \<in> set p" using f(1) p by auto
  then obtain w' r' where "p = w' @ 95 # r'" "95 \<notin> set w'" using split_list_first [of 95 p] by blast
  with p have f': "?f = w' @ 95 # (r' @ ascii ''.sql'')" "95 \<notin> set w'" by simp_all
  have "split_underscore ?f = Some (w', r' @ ascii ''.sql'')" unfolding f'(1) by (rule split_underscore_first [OF f'(2)])
  moreover have "split_underscore ?f = Some (w, r)" unfolding wr(1) by (rule split_underscore_first [OF wr(2)])
  ultimately have "split_underscore ?f = Some (w, r)" "ends_with r (ascii ''.sql'')" by (auto simp: ends_with_iff)
  with assms w show ?thesis by (simp add: misnamed_entry_def resolve_file_def)
qed

lemma resolve_ignored: "ignored_entry e \<Longrightarrow> resolve_file sha384 e = Inr None"
proof -
  assume a: "ignored_entry e"
  have "\<not> ends_with rest (ascii ''.sql'')" if "split_underscore (file_name e) = Some (ver, rest)"
      "\<not> ends_with (file_name e) (ascii ''.sql'')" for ver rest
  proof
    assume "ends_with rest (ascii ''.sql'')"
    then obtain p where "rest = p @ ascii ''.sql''" by (auto simp: ends_with_iff)
    moreover have "\<exists>x. dropWhile (\<lambda>b. b \<noteq> 95) (file_name e) = x # rest"
      using that(1) by (auto simp: split_underscore_def split: list.splits)
    then obtain x where "file_name e = takeWhile (\<lambda>b. b \<noteq> 95) (file_name e) @ x # rest"
      by (metis takeWhile_dropWhile_id)
    ultimately have "\<exists>q. file_name e = q @ ascii ''.sql''"
      by (metis append_Cons append_assoc)
    with that(2) show False by (simp add: ends_with_iff)
  qed
  moreover have "split_underscore (file_name e) = None" if "95 \<notin> set (file_name e)"
  proof -
    have "dropWhile (\<lambda>b. b \<noteq> 95) (file_name e) = []" using that by (auto simp: dropWhile_eq_Nil_conv)
    then show ?thesis by (simp only: split_underscore_def list.case)
  qed
  ultimately show ?thesis using a
    by (auto simp: ignored_entry_def resolve_file_def split: option.splits)
qed

abbreviation entry_of :: "dir_entry + script_file \<Rightarrow> dir_entry" where
  "entry_of x \<equiv> (case x of Inl e \<Rightarrow> e | Inr f \<Rightarrow> script_entry f)"

lemma resolve_entries_scripts:
  "list_all (\<lambda>x. case x of Inl e \<Rightarrow> ignored_entry e | Inr f \<Rightarrow> good_script f) xs \<Longrightarrow>
   resolve_entries sha384 (map (Some \<circ> entry_of) xs @ rest) ms =
     resolve_entries sha384 rest (ms @ concat (map (\<lambda>x. case x of Inl e \<Rightarrow> [] | Inr f \<Rightarrow> [script_migration sha384 f]) xs))"
  by (induction xs arbitrary: ms) (auto simp: resolve_script resolve_ignored split: sum.splits)

text \<open>C29. How a directory resolves.  Of its entries, scripts are the files
  \<^verbatim>\<open><VERSION>_<DESCRIPTION>.sql\<close> (or \<^verbatim>\<open>.up.sql\<close>, \<^verbatim>\<open>.down.sql\<close>) with an integer of 64 bits as version and no
  dot in the description; what is not a file, has no underscore in its name or does not end in
  \<^verbatim>\<open>.sql\<close> is ignored.  If there is nothing else, the result is exactly the scripts' migrations, each with its
  version, its description with spaces for underscores, its type and its checksum, ordered by version, and
  in directory order where versions agree.  If, after such entries, there is a file with an underscore in its
  name and ending in \<^verbatim>\<open>.sql\<close>, but no integer before the underscore, it is not ignored: the whole directory
  fails to resolve.\<close>

theorem resolve_directory:
  assumes "list_all (\<lambda>x. case x of Inl e \<Rightarrow> ignored_entry e | Inr f \<Rightarrow> good_script f) xs"
  shows "resolve_blocking sha384 (Some (map (Some \<circ> entry_of) xs)) =
      Inr (sort_key version (concat (map (\<lambda>x. case x of Inl e \<Rightarrow> [] | Inr f \<Rightarrow> [script_migration sha384 f]) xs)))
    \<and> (misnamed_entry bad \<longrightarrow>
       resolve_blocking sha384 (Some (map (Some \<circ> entry_of) xs @ Some bad # rest)) =
         Inl (SourceError ''error parsing migration filename''))"
  using resolve_entries_scripts [OF assms, of sha384 "[]" "[]"]
    resolve_entries_scripts [OF assms, of sha384 "Some bad # rest" "[]"]
  by (auto simp: resolve_blocking_def resolve_misnamed)

theorem resolve_directory_witness:
  "resolve_blocking id (Some
     [Some (script_entry ([50, 48], [98, 95, 99], ReversibleDown, [50])),
      Some \<lparr>file_name = [97, 46, 116], is_file = Some True, file_text = None\<rparr>,
      Some (script_entry ([48, 51], [97], Simple, [49]))]) =
   Inr [\<lparr>version = 3, description = [97], migration_type = Simple, sql = [49], checksum = [49], no_tx = False\<rparr>,
        \<lparr>version = 20, description = [98, 32, 99], migration_type = ReversibleDown, sql = [50], checksum = [50], no_tx = False\<rparr>]
   \<and> resolve_blocking id (Some
     [Some (script_entry ([50, 48], [98, 95, 99], ReversibleDown, [50])),
      Some \<lparr>file_name = [118, 49, 95, 97, 46, 115, 113, 108], is_file = Some True, file_text = Some []\<rparr>]) =
     Inl (SourceError ''error parsing migration filename'')"
proof -
  let ?f = "Inr ([50, 48], [98, 95, 99], ReversibleDown, [50]) :: dir_entry + script_file"
  let ?xs = "[?f, Inl \<lparr>file_name = [97, 46, 116], is_file = Some True, file_text = None\<rparr>, Inr ([48, 51], [97], Simple, [49])]"
  let ?bad = "\<lparr>file_name = [118, 49, 95, 97, 46, 115, 113, 108], is_file = Some True, file_text = Some []\<rparr>"
  have p: "parse_signed 64 [50, 48] = Some 20" "parse_signed 64 [48, 51] = Some 3" "parse_signed 64 [118, 49] = None"
    by (simp_all add: parse_signed_def parse_digits_def digit_byte_def dec_value_def digit_val_def)
  have "list_all (\<lambda>x. case x of Inl e \<Rightarrow> ignored_entry e | Inr f \<Rightarrow> good_script f) ?xs"
    "list_all (\<lambda>x. case x of Inl e \<Rightarrow> ignored_entry e | Inr f \<Rightarrow> good_script f) [?f]"
    by (simp_all add: ignored_entry_def good_script_def p)
  from resolve_directory [OF this(1), of id] resolve_directory [OF this(2), of id ?bad "[]"] show ?thesis
    by (simp add: script_migration_def starts_with_def ascii_def p misnamed_entry_def ends_with_def)
qed

text \<open>Where the documentation of the migration source says that files with other names are silently
  ignored, and that a version is greater than zero, the resolver fails on a \<^verbatim>\<open>.sql\<close> file whose name
  starts with anything but an integer before the first underscore, and takes negative versions.\<close>

theorem resolve_not_ignored:
  assumes "95 \<notin> set w" and "parse_signed 64 w = None" and "95 \<notin> set desc" and "46 \<notin> set desc" and "n \<le> 2 ^ 63"
  shows "resolve_file sha384 \<lparr>file_name = w @ 95 # desc @ suffix_of t, is_file = Some True, file_text = Some q\<rparr> =
      Inl (SourceError ''error parsing migration filename'')
    \<and> (\<exists>m. resolve_file sha384 \<lparr>file_name = (45 # ascii (dec_string n)) @ 95 # desc @ suffix_of t, is_file = Some True,
        file_text = Some q\<rparr> = Inr (Some m) \<and> version m = - int n)"
proof -
  have "parse_signed 64 (45 # ascii (dec_string n)) = Some (- int n)"
    using assms(5) by (simp add: parse_signed_def Let_def)
  moreover have "95 \<notin> set (45 # ascii (dec_string n))" using dec_no_underscore [of n] by simp
  ultimately show ?thesis using assms(1,2)
    by (simp only: resolve_file_def dir_entry.simps option.case bool.case split_underscore_first prod.case ends_with_sql
        not_True_eq_False if_False Let_def sum.inject option.inject ex_simps simp_thms)
      (simp add: migration_new_def)
qed

theorem resolve_not_ignored_witness:
  "resolve_file id \<lparr>file_name = [118, 49] @ 95 # [97] @ suffix_of Simple, is_file = Some True, file_text = Some []\<rparr> =
      Inl (SourceError ''error parsing migration filename'')
    \<and> (\<exists>m. resolve_file id \<lparr>file_name = (45 # ascii (dec_string 7)) @ 95 # [97] @ suffix_of Simple, is_file = Some True,
        file_text = Some []\<rparr> = Inr (Some m) \<and> version m = - 7)"
  using resolve_not_ignored [of "[118, 49]" "[97]" 7 id Simple "[]"]
  by (simp add: parse_signed_def parse_digits_def digit_byte_def)

end
