(* ===== verification/Migrate_Drivers.thy ===== *)
theory Migrate_Drivers
  imports Migrator
begin

section \<open>Migrations on the three databases: \<^verbatim>\<open>migrate.rs\<close> of the drivers\<close>

text \<open>
  The \<^verbatim>\<open>Migrate\<close> impls of \<^verbatim>\<open>PgConnection\<close>, \<^verbatim>\<open>MySqlConnection\<close> and
  \<^verbatim>\<open>SqliteConnection\<close>.  The database server is a parameter: each SQL text of the source is a
  constructor of \<open>sql_text\<close> or a query of the record, and the locale \<open>migration_server\<close> states what
  the databases document about them: a table keyed by version, transactions that restore the state they
  began in, statements that commit the open transaction implicitly (MySQL's data definition statements),
  and advisory locks that count.  \<open>sv_drop\<close> is dropping a \<^verbatim>\<open>Transaction\<close>: the source queues a rollback that the
  connection sends before its next command, and the model takes the state that command finds.  Other
  sessions are not modelled: \<^verbatim>\<open>lock\<close> is the call that returns once the lock is granted.
\<close>

subsection \<open>The server\<close>

datatype lock_key = PgKey int | MyKey string

datatype sql_text =
    CreateMigrationsTable
  | InsertRow int bytes bool bytes
  | SetSuccess bool int
  | SetExecutionTime int
  | DeleteRow int
  | Script bytes
  | AcquireLock lock_key
  | ReleaseLock lock_key

record 's server_api =
  sv_execute :: "sql_text \<Rightarrow> 's \<Rightarrow> 's \<times> error option"
  sv_first_dirty :: "'s \<Rightarrow> 's \<times> (error + int option)"
  sv_applied :: "'s \<Rightarrow> 's \<times> (error + (int \<times> bytes) list)"
  sv_current_database :: "'s \<Rightarrow> 's \<times> (error + bytes)"
  sv_begin :: "'s \<Rightarrow> 's \<times> error option"
  sv_commit :: "'s \<Rightarrow> 's \<times> error option"
  sv_drop :: "'s \<Rightarrow> 's"

definition db_exec :: "'s server_api \<Rightarrow> sql_text \<Rightarrow> ('s, unit) mig" where
  "db_exec S q s = (case sv_execute S q s of (s, None) \<Rightarrow> (s, Inr ()) | (s, Some e) \<Rightarrow> (s, Inl (Execute e)))"

definition db_query :: "('s \<Rightarrow> 's \<times> (error + 'a)) \<Rightarrow> ('s, 'a) mig" where
  "db_query q s = (case q s of (s, Inr x) \<Rightarrow> (s, Inr x) | (s, Inl e) \<Rightarrow> (s, Inl (Execute e)))"

text \<open>\<^verbatim>\<open>self.begin()\<close>, the statements, \<^verbatim>\<open>tx.commit()\<close>; leaving early drops the transaction.\<close>

definition with_transaction :: "'s server_api \<Rightarrow> ('s, unit) mig \<Rightarrow> ('s, unit) mig" where
  "with_transaction S body s =
     (case sv_begin S s of
        (s, Some e) \<Rightarrow> (s, Inl (Execute e))
      | (s, None) \<Rightarrow>
          (case body s of
             (s, Inl e) \<Rightarrow> (sv_drop S s, Inl e)
           | (s, Inr _) \<Rightarrow>
               (case sv_commit S s of (s, None) \<Rightarrow> (s, Inr ()) | (s, Some e) \<Rightarrow> (sv_drop S s, Inl (Execute e)))))"

definition run_script :: "'s server_api \<Rightarrow> migration \<Rightarrow> ('s, unit) mig" where
  "run_script S m s =
     (case sv_execute S (Script (sql m)) s of
        (s, None) \<Rightarrow> (s, Inr ()) | (s, Some e) \<Rightarrow> (s, Inl (ExecuteMigration e (version m))))"

definition db_ensure_migrations_table :: "'s server_api \<Rightarrow> ('s, unit) mig" where
  "db_ensure_migrations_table S = db_exec S CreateMigrationsTable"

definition db_dirty_version :: "'s server_api \<Rightarrow> ('s, int option) mig" where
  "db_dirty_version S = db_query (sv_first_dirty S)"

definition db_list_applied_migrations :: "'s server_api \<Rightarrow> ('s, applied_migration list) mig" where
  "db_list_applied_migrations S =
     mbind (db_query (sv_applied S)) (\<lambda>rs.
       mret (Inr (map (\<lambda>(v, cs). \<lparr>applied_version = v, applied_checksum = cs\<rparr>) rs)))"

subsection \<open>PostgreSQL\<close>

definition generate_lock_id :: "(bytes \<Rightarrow> u32) \<Rightarrow> bytes \<Rightarrow> int" where
  "generate_lock_id crc db = 0x3d32ad9e * int (unat (crc db))"

definition pg_lock :: "'s server_api \<Rightarrow> (bytes \<Rightarrow> u32) \<Rightarrow> ('s, unit) mig" where
  "pg_lock S crc =
     mbind (db_query (sv_current_database S)) (\<lambda>db. db_exec S (AcquireLock (PgKey (generate_lock_id crc db))))"

definition pg_unlock :: "'s server_api \<Rightarrow> (bytes \<Rightarrow> u32) \<Rightarrow> ('s, unit) mig" where
  "pg_unlock S crc =
     mbind (db_query (sv_current_database S)) (\<lambda>db. db_exec S (ReleaseLock (PgKey (generate_lock_id crc db))))"

definition pg_execute_migration :: "'s server_api \<Rightarrow> migration \<Rightarrow> ('s, unit) mig" where
  "pg_execute_migration S m =
     mbind (run_script S m) (\<lambda>_. db_exec S (InsertRow (version m) (description m) True (checksum m)))"

definition pg_apply :: "'s server_api \<Rightarrow> migration \<Rightarrow> ('s, unit) mig" where
  "pg_apply S m =
     mbind (if no_tx m then pg_execute_migration S m else with_transaction S (pg_execute_migration S m)) (\<lambda>_.
       db_exec S (SetExecutionTime (version m)))"

definition pg_revert_migration :: "'s server_api \<Rightarrow> migration \<Rightarrow> ('s, unit) mig" where
  "pg_revert_migration S m = mbind (run_script S m) (\<lambda>_. db_exec S (DeleteRow (version m)))"

definition pg_revert :: "'s server_api \<Rightarrow> migration \<Rightarrow> ('s, unit) mig" where
  "pg_revert S m = (if no_tx m then pg_revert_migration S m else with_transaction S (pg_revert_migration S m))"

definition pg_migrate :: "'s server_api \<Rightarrow> (bytes \<Rightarrow> u32) \<Rightarrow> 's migrate_api" where
  "pg_migrate S crc =
     \<lparr>lock = pg_lock S crc, unlock = pg_unlock S crc, ensure_migrations_table = db_ensure_migrations_table S,
      dirty_version = db_dirty_version S, list_applied_migrations = db_list_applied_migrations S,
      apply_migration = pg_apply S, revert_migration = pg_revert S\<rparr>"

subsection \<open>MySQL\<close>

definition hex_digit :: "nat \<Rightarrow> char" where
  "hex_digit d = (if d < 10 then digit_char d else char_of (87 + d))"

fun hex_string :: "nat \<Rightarrow> string" where
  "hex_string n = (if n < 16 then [hex_digit n] else hex_string (n div 16) @ [hex_digit (n mod 16)])"

declare hex_string.simps [simp del]

definition my_generate_lock_id :: "(bytes \<Rightarrow> u32) \<Rightarrow> bytes \<Rightarrow> string" where
  "my_generate_lock_id crc db = hex_string (0x3d32ad9e * unat (crc db))"

definition my_lock :: "'s server_api \<Rightarrow> (bytes \<Rightarrow> u32) \<Rightarrow> ('s, unit) mig" where
  "my_lock S crc =
     mbind (db_query (sv_current_database S)) (\<lambda>db. db_exec S (AcquireLock (MyKey (my_generate_lock_id crc db))))"

definition my_unlock :: "'s server_api \<Rightarrow> (bytes \<Rightarrow> u32) \<Rightarrow> ('s, unit) mig" where
  "my_unlock S crc =
     mbind (db_query (sv_current_database S)) (\<lambda>db. db_exec S (ReleaseLock (MyKey (my_generate_lock_id crc db))))"

definition my_apply :: "'s server_api \<Rightarrow> migration \<Rightarrow> ('s, unit) mig" where
  "my_apply S m =
     mbind (with_transaction S
       (mbind (db_exec S (InsertRow (version m) (description m) False (checksum m))) (\<lambda>_.
        mbind (run_script S m) (\<lambda>_.
          db_exec S (SetSuccess True (version m)))))) (\<lambda>_.
       db_exec S (SetExecutionTime (version m)))"

definition my_revert :: "'s server_api \<Rightarrow> migration \<Rightarrow> ('s, unit) mig" where
  "my_revert S m =
     with_transaction S
       (mbind (db_exec S (SetSuccess False (version m))) (\<lambda>_.
        mbind (db_exec S (Script (sql m))) (\<lambda>_.
          db_exec S (DeleteRow (version m)))))"

definition my_migrate :: "'s server_api \<Rightarrow> (bytes \<Rightarrow> u32) \<Rightarrow> 's migrate_api" where
  "my_migrate S crc =
     \<lparr>lock = my_lock S crc, unlock = my_unlock S crc, ensure_migrations_table = db_ensure_migrations_table S,
      dirty_version = db_dirty_version S, list_applied_migrations = db_list_applied_migrations S,
      apply_migration = my_apply S, revert_migration = my_revert S\<rparr>"

subsection \<open>SQLite\<close>

definition sq_apply :: "'s server_api \<Rightarrow> migration \<Rightarrow> ('s, unit) mig" where
  "sq_apply S m =
     mbind (with_transaction S
       (mbind (run_script S m) (\<lambda>_.
          db_exec S (InsertRow (version m) (description m) True (checksum m))))) (\<lambda>_.
       db_exec S (SetExecutionTime (version m)))"

definition sq_revert :: "'s server_api \<Rightarrow> migration \<Rightarrow> ('s, unit) mig" where
  "sq_revert S m =
     with_transaction S (mbind (db_exec S (Script (sql m))) (\<lambda>_. db_exec S (DeleteRow (version m))))"

definition sq_migrate :: "'s server_api \<Rightarrow> 's migrate_api" where
  "sq_migrate S =
     \<lparr>lock = mret (Inr ()), unlock = mret (Inr ()), ensure_migrations_table = db_ensure_migrations_table S,
      dirty_version = db_dirty_version S, list_applied_migrations = db_list_applied_migrations S,
      apply_migration = sq_apply S, revert_migration = sq_revert S\<rparr>"

lemma lock_id_fits: "0 \<le> generate_lock_id crc db \<and> generate_lock_id crc db < 2 ^ 63"
proof -
  have "int (unat (crc db)) < 4294967296" using unat_u32_less [of "crc db"] by linarith
  then show ?thesis by (simp add: generate_lock_id_def)
qed

subsection \<open>What the server promises\<close>

locale migration_server =
  fixes S :: "'s server_api"
    and rows :: "'s \<Rightarrow> rows"
    and data :: "'s \<Rightarrow> 'd"
    and saved :: "'s \<Rightarrow> (rows \<times> 'd) option"
    and held :: "'s \<Rightarrow> nat"
    and healthy :: "'s \<Rightarrow> bool"
    and script :: "bytes \<Rightarrow> 'd \<Rightarrow> 'd option"
    and implicit :: "bytes \<Rightarrow> bool"
    and dbname :: bytes
  assumes create_law:
      "healthy s \<Longrightarrow> \<exists>s'. sv_execute S CreateMigrationsTable s = (s', None) \<and> healthy s' \<and> rows s' = rows s
        \<and> data s' = data s \<and> saved s' = saved s \<and> held s' = held s"
    and insert_law:
      "healthy s \<Longrightarrow> rows s v = None \<Longrightarrow> \<exists>s'. sv_execute S (InsertRow v desc b cs) s = (s', None) \<and> healthy s'
        \<and> rows s' = (rows s)(v \<mapsto> (b, cs)) \<and> data s' = data s \<and> saved s' = saved s \<and> held s' = held s"
    and success_law:
      "healthy s \<Longrightarrow> \<exists>s'. sv_execute S (SetSuccess b v) s = (s', None) \<and> healthy s'
        \<and> rows s' = (case rows s v of None \<Rightarrow> rows s | Some (_, cs) \<Rightarrow> (rows s)(v \<mapsto> (b, cs)))
        \<and> data s' = data s \<and> saved s' = saved s \<and> held s' = held s"
    and time_law:
      "healthy s \<Longrightarrow> \<exists>s'. sv_execute S (SetExecutionTime v) s = (s', None) \<and> healthy s' \<and> rows s' = rows s
        \<and> data s' = data s \<and> saved s' = saved s \<and> held s' = held s"
    and delete_law:
      "healthy s \<Longrightarrow> \<exists>s'. sv_execute S (DeleteRow v) s = (s', None) \<and> healthy s' \<and> rows s' = (rows s)(v := None)
        \<and> data s' = data s \<and> saved s' = saved s \<and> held s' = held s"
    and script_law:
      "healthy s \<Longrightarrow> script q (data s) = Some d \<Longrightarrow> \<exists>s'. sv_execute S (Script q) s = (s', None) \<and> healthy s'
        \<and> rows s' = rows s \<and> data s' = d \<and> saved s' = (if implicit q then None else saved s) \<and> held s' = held s"
    and script_fails_law:
      "healthy s \<Longrightarrow> script q (data s) = None \<Longrightarrow> \<exists>s' e. sv_execute S (Script q) s = (s', Some e)
        \<and> held s' = held s
        \<and> (if implicit q then saved s' = None \<and> healthy s' \<and> rows s' = rows s else saved s' = saved s)"
    and begin_law:
      "healthy s \<Longrightarrow> saved s = None \<Longrightarrow> \<exists>s'. sv_begin S s = (s', None) \<and> healthy s' \<and> rows s' = rows s \<and> data s' = data s
        \<and> saved s' = Some (rows s, data s) \<and> held s' = held s"
    and commit_law:
      "healthy s \<Longrightarrow> \<exists>s'. sv_commit S s = (s', None) \<and> healthy s' \<and> rows s' = rows s \<and> data s' = data s
        \<and> saved s' = None \<and> held s' = held s"
    and drop_law:
      "saved s = Some (r, d) \<Longrightarrow> healthy (sv_drop S s) \<and> rows (sv_drop S s) = r \<and> data (sv_drop S s) = d
        \<and> saved (sv_drop S s) = None \<and> held (sv_drop S s) = held s"
    and drop_idle_law:
      "saved s = None \<Longrightarrow> healthy s \<Longrightarrow> healthy (sv_drop S s) \<and> rows (sv_drop S s) = rows s
        \<and> data (sv_drop S s) = data s \<and> saved (sv_drop S s) = None \<and> held (sv_drop S s) = held s"
    and first_dirty_law:
      "healthy s \<Longrightarrow> \<exists>s' r. sv_first_dirty S s = (s', Inr r) \<and> healthy s' \<and> rows s' = rows s \<and> data s' = data s
        \<and> saved s' = saved s \<and> held s' = held s
        \<and> (case r of None \<Rightarrow> (\<forall>v cs. rows s v \<noteq> Some (False, cs)) | Some v \<Rightarrow> (\<exists>cs. rows s v = Some (False, cs)))"
    and applied_law:
      "healthy s \<Longrightarrow> \<exists>s' rs. sv_applied S s = (s', Inr rs) \<and> healthy s' \<and> rows s' = rows s \<and> data s' = data s
        \<and> saved s' = saved s \<and> held s' = held s \<and> distinct (map fst rs) \<and> map_of rs = map_option snd \<circ> rows s"
    and database_law:
      "healthy s \<Longrightarrow> \<exists>s'. sv_current_database S s = (s', Inr dbname) \<and> healthy s' \<and> rows s' = rows s \<and> data s' = data s
        \<and> saved s' = saved s \<and> held s' = held s"
    and acquire_law:
      "healthy s \<Longrightarrow> \<exists>s'. sv_execute S (AcquireLock k) s = (s', None) \<and> healthy s' \<and> rows s' = rows s \<and> data s' = data s
        \<and> saved s' = saved s \<and> held s' = held s + 1"
    and release_law:
      "healthy s \<Longrightarrow> \<exists>s'. sv_execute S (ReleaseLock k) s = (s', None) \<and> healthy s' \<and> rows s' = rows s \<and> data s' = data s
        \<and> saved s' = saved s \<and> held s' = held s - 1"

context migration_server
begin

definition view :: "'s \<Rightarrow> rows \<times> 'd \<times> (rows \<times> 'd) option \<times> nat" where
  "view s = (rows s, data s, saved s, held s)"

text \<open>An operation succeeds from every healthy state with a view, and leads to a healthy state with another.\<close>

definition steps where
  "steps m \<sigma> x \<sigma>' \<longleftrightarrow> (\<forall>s. healthy s \<and> view s = \<sigma> \<longrightarrow> (\<exists>s'. m s = (s', Inr x) \<and> healthy s' \<and> view s' = \<sigma>'))"

definition fails where
  "fails m \<sigma> P V \<longleftrightarrow> (\<forall>s. healthy s \<and> view s = \<sigma> \<longrightarrow> (\<exists>s' e. m s = (s', Inl e) \<and> P e \<and> V s'))"

lemma steps_bind: "steps m \<sigma> x \<sigma>' \<Longrightarrow> steps (f x) \<sigma>' y \<sigma>'' \<Longrightarrow> steps (mbind m f) \<sigma> y \<sigma>''"
  unfolding steps_def by (metis mbind_simps(1))

lemma fails_bind: "steps m \<sigma> x \<sigma>' \<Longrightarrow> fails (f x) \<sigma>' P V \<Longrightarrow> fails (mbind m f) \<sigma> P V"
  unfolding steps_def fails_def by (metis mbind_simps(1))

lemma fails_first: "fails m \<sigma> P V \<Longrightarrow> fails (mbind m f) \<sigma> P V"
  unfolding fails_def by (metis mbind_simps(2))

lemma steps_exec:
  assumes "\<And>s. healthy s \<Longrightarrow> view s = \<sigma> \<Longrightarrow> \<exists>s'. sv_execute S q s = (s', None) \<and> healthy s' \<and> view s' = \<sigma>'"
  shows "steps (db_exec S q) \<sigma> () \<sigma>'"
  unfolding steps_def db_exec_def using assms by (metis (no_types, lifting) case_prod_conv option.simps(4))

lemma steps_create: "steps (db_exec S CreateMigrationsTable) (r, d, v, h) () (r, d, v, h)"
  by (rule steps_exec, drule create_law, auto simp: view_def)

lemma steps_insert: "r x = None \<Longrightarrow> steps (db_exec S (InsertRow x desc b cs)) (r, d, v, h) () (r(x \<mapsto> (b, cs)), d, v, h)"
  by (rule steps_exec, drule insert_law [of _ x desc b cs], auto simp: view_def)

lemma steps_time: "steps (db_exec S (SetExecutionTime x)) (r, d, v, h) () (r, d, v, h)"
  by (rule steps_exec, drule time_law [of _ x], auto simp: view_def)

lemma steps_delete: "steps (db_exec S (DeleteRow x)) (r, d, v, h) () (r(x := None), d, v, h)"
  by (rule steps_exec, drule delete_law [of _ x], auto simp: view_def)

lemma steps_success:
  "steps (db_exec S (SetSuccess b x)) (r, d, v, h) () (case r x of None \<Rightarrow> r | Some (_, cs) \<Rightarrow> r(x \<mapsto> (b, cs)), d, v, h)"
  by (rule steps_exec, drule success_law [of _ b x], auto simp: view_def)

lemma steps_acquire: "steps (db_exec S (AcquireLock k)) (r, d, v, h) () (r, d, v, h + 1)"
  by (rule steps_exec, drule acquire_law [of _ k], auto simp: view_def)

lemma steps_release: "steps (db_exec S (ReleaseLock k)) (r, d, v, h) () (r, d, v, h - 1)"
  by (rule steps_exec, drule release_law [of _ k], auto simp: view_def)

lemma steps_exec_script: "script q d = Some d' \<Longrightarrow>
  steps (db_exec S (Script q)) (r, d, v, h) () (r, d', if implicit q then None else v, h)"
  by (rule steps_exec, drule script_law [of _ q d'], auto simp: view_def)

lemma steps_script: "script (sql m) d = Some d' \<Longrightarrow>
  steps (run_script S m) (r, d, v, h) () (r, d', if implicit (sql m) then None else v, h)"
  unfolding steps_def run_script_def using script_law [of _ "sql m" d'] by (fastforce simp: view_def)

text \<open>The state behind a failed statement: the transaction it ran in, if any, is open or was committed
  implicitly.\<close>

definition after_error where
  "after_error q v h s \<longleftrightarrow> held s = h \<and> (if implicit q then saved s = None \<and> healthy s else saved s = v)"

lemma fails_script: "script (sql m) d = None \<Longrightarrow>
  fails (run_script S m) (r, d, v, h) (\<lambda>e. \<exists>e'. e = ExecuteMigration e' (version m)) (after_error (sql m) v h)"
  unfolding fails_def run_script_def after_error_def
  using script_fails_law [of _ "sql m"] by (fastforce simp: view_def)

lemma fails_exec_script: "script q d = None \<Longrightarrow>
  fails (db_exec S (Script q)) (r, d, v, h) (\<lambda>e. True) (after_error q v h)"
  unfolding fails_def db_exec_def after_error_def
  using script_fails_law [of _ q] by (fastforce simp: view_def)

lemma steps_transaction:
  assumes "steps body (r, d, Some (r, d), h) () (r', d', v', h')"
  shows "steps (with_transaction S body) (r, d, None, h) () (r', d', None, h')"
proof (unfold steps_def, intro allI impI, elim conjE)
  fix s assume h: "healthy s" and v: "view s = (r, d, None, h)"
  then obtain s1 where 1: "sv_begin S s = (s1, None)" "healthy s1" "view s1 = (r, d, Some (r, d), h)"
    using begin_law [OF h] by (auto simp: view_def)
  with assms obtain s2 where 2: "body s1 = (s2, Inr ())" "healthy s2" "view s2 = (r', d', v', h')"
    unfolding steps_def by blast
  obtain s3 where "sv_commit S s2 = (s3, None)" "healthy s3" "view s3 = (r', d', None, h')"
    using commit_law [OF 2(2)] 2(3) by (auto simp: view_def)
  with 1 2 show "\<exists>s'. with_transaction S body s = (s', Inr ()) \<and> healthy s' \<and> view s' = (r', d', None, h')"
    by (simp add: with_transaction_def)
qed

definition undone where
  "undone r d h undo_ok s \<longleftrightarrow> held s = h \<and> (undo_ok \<longrightarrow> healthy s \<and> view s = (r, d, None, h))"

lemma fails_transaction:
  assumes "fails body (r, d, Some (r, d), h) P (after_error q (Some (r, d)) h)"
  shows "fails (with_transaction S body) (r, d, None, h) P (undone r d h (\<not> implicit q))"
proof (unfold fails_def, intro allI impI, elim conjE)
  fix s assume h: "healthy s" and v: "view s = (r, d, None, h)"
  then obtain s1 where 1: "sv_begin S s = (s1, None)" "healthy s1" "view s1 = (r, d, Some (r, d), h)"
    using begin_law [OF h] by (auto simp: view_def)
  with assms obtain s2 e where 2: "body s1 = (s2, Inl e)" "P e" "after_error q (Some (r, d)) h s2"
    unfolding fails_def by blast
  then have "undone r d h (\<not> implicit q) (sv_drop S s2)"
    using drop_law [of s2 r d] drop_idle_law [of s2]
    by (cases "implicit q") (simp_all add: undone_def after_error_def view_def)
  with 1 2 show "\<exists>s' e. with_transaction S body s = (s', Inl e) \<and> P e \<and> undone r d h (\<not> implicit q) s'"
    by (simp add: with_transaction_def)
qed

lemma fails_plain:
  assumes "fails body (r, d, None, h) P (after_error q None h)"
  shows "fails body (r, d, None, h) P (undone r d h False)"
  using assms unfolding fails_def after_error_def undone_def by metis

lemma steps_database: "steps (db_query (sv_current_database S)) (r, d, v, h) dbname (r, d, v, h)"
  unfolding steps_def db_query_def using database_law by (fastforce simp: view_def)

lemma pg_apply_steps:
  "r (version m) = None \<Longrightarrow> script (sql m) d = Some d' \<Longrightarrow>
   steps (pg_apply S m) (r, d, None, h) () (r(version m \<mapsto> (True, checksum m)), d', None, h)"
proof -
  assume a: "r (version m) = None" "script (sql m) d = Some d'"
  have b: "steps (pg_execute_migration S m) (r, d, v, h) ()
      (r(version m \<mapsto> (True, checksum m)), d', if implicit (sql m) then None else v, h)" for v
    unfolding pg_execute_migration_def by (rule steps_bind [OF steps_script [OF a(2)]]) (rule steps_insert [where r = r, OF a(1)])
  have "steps (if no_tx m then pg_execute_migration S m else with_transaction S (pg_execute_migration S m)) (r, d, None, h) ()
      (r(version m \<mapsto> (True, checksum m)), d', None, h)"
    using b [of None] steps_transaction [OF b [of "Some (r, d)"]] by simp
  then show ?thesis unfolding pg_apply_def by (rule steps_bind) (rule steps_time)
qed

lemma sq_apply_steps:
  "r (version m) = None \<Longrightarrow> script (sql m) d = Some d' \<Longrightarrow>
   steps (sq_apply S m) (r, d, None, h) () (r(version m \<mapsto> (True, checksum m)), d', None, h)"
  unfolding sq_apply_def
  by (rule steps_bind [OF steps_transaction [OF steps_bind [OF steps_script steps_insert]] steps_time])

lemma my_apply_steps:
  assumes "r (version m) = None" and "script (sql m) d = Some d'"
  shows "steps (my_apply S m) (r, d, None, h) () (r(version m \<mapsto> (True, checksum m)), d', None, h)"
proof -
  let ?r = "r(version m \<mapsto> (False, checksum m))"
  let ?v = "if implicit (sql m) then None else Some (r, d)"
  have 1: "steps (db_exec S (InsertRow (version m) (description m) False (checksum m))) (r, d, Some (r, d), h) () (?r, d, Some (r, d), h)"
    by (rule steps_insert [where r = r, OF assms(1)])
  have 2: "steps (run_script S m) (?r, d, Some (r, d), h) () (?r, d', ?v, h)" by (rule steps_script [OF assms(2)])
  have 3: "steps (db_exec S (SetSuccess True (version m))) (?r, d', ?v, h) () (r(version m \<mapsto> (True, checksum m)), d', ?v, h)"
    using steps_success [of True "version m" ?r d' ?v h] by simp
  show ?thesis unfolding my_apply_def
    by (rule steps_bind [OF steps_transaction [OF steps_bind [OF 1 steps_bind [OF 2 3]]] steps_time])
qed

lemma pg_revert_steps:
  "script (sql m) d = Some d' \<Longrightarrow> steps (pg_revert S m) (r, d, None, h) () (r(version m := None), d', None, h)"
proof -
  assume a: "script (sql m) d = Some d'"
  have b: "steps (pg_revert_migration S m) (r, d, v, h) () (r(version m := None), d', if implicit (sql m) then None else v, h)" for v
    unfolding pg_revert_migration_def by (rule steps_bind [OF steps_script [OF a] steps_delete])
  show ?thesis using b [of None] steps_transaction [OF b [of "Some (r, d)"]] by (simp add: pg_revert_def)
qed

lemma sq_revert_steps:
  "script (sql m) d = Some d' \<Longrightarrow> steps (sq_revert S m) (r, d, None, h) () (r(version m := None), d', None, h)"
  unfolding sq_revert_def by (rule steps_transaction [OF steps_bind [OF steps_exec_script steps_delete]])

lemma my_revert_steps:
  assumes "script (sql m) d = Some d'"
  shows "steps (my_revert S m) (r, d, None, h) () (r(version m := None), d', None, h)"
proof -
  define r1 where "r1 = (case r (version m) of None \<Rightarrow> r | Some (_, cs) \<Rightarrow> r(version m \<mapsto> (False, cs)))"
  have "r1(version m := None) = r(version m := None)" by (auto simp: r1_def split: option.split)
  with steps_bind [OF steps_exec_script [OF assms, of r1 "Some (r, d)" h] steps_delete [of "version m"]]
  have "steps (mbind (db_exec S (Script (sql m))) (\<lambda>_. db_exec S (DeleteRow (version m)))) (r1, d, Some (r, d), h) ()
      (r(version m := None), d', if implicit (sql m) then None else Some (r, d), h)" by simp
  then show ?thesis unfolding my_revert_def
    by (rule steps_transaction [OF steps_bind [OF steps_success [of False "version m" r, folded r1_def]]])
qed

lemma pg_apply_fails:
  "script (sql m) d = None \<Longrightarrow>
   fails (pg_apply S m) (r, d, None, h) (\<lambda>e. \<exists>e'. e = ExecuteMigration e' (version m))
     (undone r d h (\<not> no_tx m \<and> \<not> implicit (sql m)))"
  unfolding pg_apply_def
  using fails_transaction [OF fails_first [OF fails_script]] fails_plain [OF fails_first [OF fails_script]]
  by (intro fails_first, cases "no_tx m") (simp_all add: pg_execute_migration_def)

lemma sq_apply_fails:
  "script (sql m) d = None \<Longrightarrow>
   fails (sq_apply S m) (r, d, None, h) (\<lambda>e. \<exists>e'. e = ExecuteMigration e' (version m)) (undone r d h (\<not> implicit (sql m)))"
  by (simp add: sq_apply_def fails_first fails_transaction fails_script)

lemma my_apply_fails:
  "r (version m) = None \<Longrightarrow> script (sql m) d = None \<Longrightarrow>
   fails (my_apply S m) (r, d, None, h) (\<lambda>e. \<exists>e'. e = ExecuteMigration e' (version m)) (undone r d h (\<not> implicit (sql m)))"
  unfolding my_apply_def
  by (rule fails_first [OF fails_transaction [OF fails_bind [OF steps_insert fails_first [OF fails_script]]]])

lemma pg_revert_fails:
  "script (sql m) d = None \<Longrightarrow>
   fails (pg_revert S m) (r, d, None, h) (\<lambda>e. \<exists>e'. e = ExecuteMigration e' (version m))
     (undone r d h (\<not> no_tx m \<and> \<not> implicit (sql m)))"
  using fails_transaction [OF fails_first [OF fails_script]] fails_plain [OF fails_first [OF fails_script]]
  by (cases "no_tx m") (simp_all add: pg_revert_def pg_revert_migration_def)

lemma sq_revert_fails:
  "script (sql m) d = None \<Longrightarrow>
   fails (sq_revert S m) (r, d, None, h) (\<lambda>e. True) (undone r d h (\<not> implicit (sql m)))"
  by (simp add: sq_revert_def fails_first fails_transaction fails_exec_script)

lemma my_revert_fails:
  "script (sql m) d = None \<Longrightarrow>
   fails (my_revert S m) (r, d, None, h) (\<lambda>e. True) (undone r d h (\<not> implicit (sql m)))"
  unfolding my_revert_def
  by (rule fails_transaction [OF fails_bind [OF steps_success fails_first [OF fails_exec_script]]])

definition idle :: "'s \<Rightarrow> bool" where
  "idle s \<longleftrightarrow> healthy s \<and> saved s = None"

lemma steps_idle:
  assumes "steps m (rows s, data s, None, held s) x (r, d, None, h)" and "idle s"
  shows "\<exists>s'. m s = (s', Inr x) \<and> idle s' \<and> rows s' = r \<and> data s' = d \<and> held s' = h"
  using assms unfolding steps_def view_def idle_def by auto

lemma fails_idle:
  assumes "fails m (rows s, data s, None, held s) P (undone (rows s) (data s) (held s) b)" and "idle s"
  shows "\<exists>s' e. m s = (s', Inl e) \<and> P e \<and> held s' = held s \<and> (b \<longrightarrow> idle s' \<and> rows s' = rows s \<and> data s' = data s)"
  using assms unfolding fails_def view_def idle_def undone_def by auto

lemma db_dirty_idle:
  assumes "idle s"
  shows "\<exists>s' r. db_dirty_version S s = (s', Inr r) \<and> idle s' \<and> rows s' = rows s \<and> data s' = data s \<and> held s' = held s
    \<and> (case r of None \<Rightarrow> (\<forall>v cs. rows s v \<noteq> Some (False, cs)) | Some v \<Rightarrow> (\<exists>cs. rows s v = Some (False, cs)))"
proof -
  obtain s' r where "sv_first_dirty S s = (s', Inr r)" "healthy s'" "rows s' = rows s" "data s' = data s"
      "saved s' = saved s" "held s' = held s"
      "case r of None \<Rightarrow> (\<forall>v cs. rows s v \<noteq> Some (False, cs)) | Some v \<Rightarrow> (\<exists>cs. rows s v = Some (False, cs))"
    using first_dirty_law [of s] assms unfolding idle_def by blast
  with assms show ?thesis by (simp add: db_dirty_version_def db_query_def idle_def)
qed

lemma db_list_idle:
  assumes "idle s"
  shows "\<exists>s' as. db_list_applied_migrations S s = (s', Inr as) \<and> idle s' \<and> rows s' = rows s \<and> data s' = data s
    \<and> held s' = held s \<and> distinct (map applied_version as)
    \<and> map_of (map (\<lambda>a. (applied_version a, applied_checksum a)) as) = map_option snd \<circ> rows s"
proof -
  obtain s' rs where "sv_applied S s = (s', Inr rs)" "healthy s'" "rows s' = rows s" "data s' = data s"
      "saved s' = saved s" "held s' = held s" "distinct (map fst rs)" "map_of rs = map_option snd \<circ> rows s"
    using applied_law [of s] assms unfolding idle_def by blast
  with assms show ?thesis
    by (simp add: db_list_applied_migrations_def db_query_def mbind_def mret_def idle_def comp_def case_prod_beta)
qed

lemma migrateI:
  assumes "\<And>r d h. steps (lock D) (r, d, None, h) () (r, d, None, if locks then h + 1 else h)"
    and "\<And>r d h. steps (unlock D) (r, d, None, h) () (r, d, None, if locks then h - 1 else h)"
    and "ensure_migrations_table D = db_ensure_migrations_table S" and "dirty_version D = db_dirty_version S"
    and "list_applied_migrations D = db_list_applied_migrations S"
    and app: "\<And>m r d d' h. r (version m) = None \<Longrightarrow> script (sql m) d = Some d' \<Longrightarrow>
      steps (apply_migration D m) (r, d, None, h) () (r(version m \<mapsto> (True, checksum m)), d', None, h)"
    and app_fails: "\<And>m r d h. r (version m) = None \<Longrightarrow> script (sql m) d = None \<Longrightarrow>
      fails (apply_migration D m) (r, d, None, h) (\<lambda>e. \<exists>e'. e = ExecuteMigration e' (version m)) (undone r d h (atomic m))"
    and revert: "\<And>m r d d' h. script (sql m) d = Some d' \<Longrightarrow>
      steps (revert_migration D m) (r, d, None, h) () (r(version m := None), d', None, h)"
    and revert_fails: "\<And>m r d h. script (sql m) d = None \<Longrightarrow>
      fails (revert_migration D m) (r, d, None, h) (\<lambda>e. True) (undone r d h (atomic m))"
  shows "migrate D rows data held idle script atomic locks"
proof
  fix c m d
  assume i: "idle c"
  show "\<exists>c'. lock D c = (c', Inr ()) \<and> idle c' \<and> rows c' = rows c \<and> data c' = data c
      \<and> held c' = (if locks then held c + 1 else held c)"
    by (rule steps_idle [OF assms(1) i])
  show "\<exists>c'. unlock D c = (c', Inr ()) \<and> idle c' \<and> rows c' = rows c \<and> data c' = data c
      \<and> held c' = (if locks then held c - 1 else held c)"
    by (rule steps_idle [OF assms(2) i])
  show "\<exists>c'. ensure_migrations_table D c = (c', Inr ()) \<and> idle c' \<and> rows c' = rows c \<and> data c' = data c \<and> held c' = held c"
    unfolding assms(3) db_ensure_migrations_table_def by (rule steps_idle [OF steps_create i])
  show "\<exists>c' r. dirty_version D c = (c', Inr r) \<and> idle c' \<and> rows c' = rows c \<and> data c' = data c \<and> held c' = held c
      \<and> (case r of None \<Rightarrow> (\<forall>v cs. rows c v \<noteq> Some (False, cs)) | Some v \<Rightarrow> (\<exists>cs. rows c v = Some (False, cs)))"
    unfolding assms(4) by (rule db_dirty_idle [OF i])
  show "\<exists>c' as. list_applied_migrations D c = (c', Inr as) \<and> idle c' \<and> rows c' = rows c \<and> data c' = data c
      \<and> held c' = held c \<and> distinct (map applied_version as)
      \<and> map_of (map (\<lambda>a. (applied_version a, applied_checksum a)) as) = map_option snd \<circ> rows c"
    unfolding assms(5) by (rule db_list_idle [OF i])
  show "\<exists>c'. revert_migration D m c = (c', Inr ()) \<and> idle c' \<and> rows c' = (rows c)(version m := None)
      \<and> data c' = d \<and> held c' = held c" if "script (sql m) (data c) = Some d"
    by (rule steps_idle [OF revert [OF that] i])
  show "\<exists>c' e. revert_migration D m c = (c', Inl e) \<and> held c' = held c
      \<and> (atomic m \<longrightarrow> idle c' \<and> rows c' = rows c \<and> data c' = data c)" if "script (sql m) (data c) = None"
    using fails_idle [OF revert_fails [OF that] i] by blast
  assume r: "rows c (version m) = None"
  show "\<exists>c'. apply_migration D m c = (c', Inr ()) \<and> idle c' \<and> rows c' = (rows c)(version m \<mapsto> (True, checksum m))
      \<and> data c' = d \<and> held c' = held c" if "script (sql m) (data c) = Some d"
    by (rule steps_idle [OF app [of "rows c" m, OF r that] i])
  show "\<exists>c' e. apply_migration D m c = (c', Inl (ExecuteMigration e (version m))) \<and> held c' = held c
      \<and> (atomic m \<longrightarrow> idle c' \<and> rows c' = rows c \<and> data c' = data c)" if "script (sql m) (data c) = None"
    using fails_idle [OF app_fails [of "rows c" m, OF r that] i] by blast
qed

lemma steps_mret: "steps (mret (Inr x)) \<sigma> x \<sigma>"
  by (simp add: steps_def mret_def)

lemma fails_any: "fails m \<sigma> P V \<Longrightarrow> fails m \<sigma> (\<lambda>e. True) V"
  unfolding fails_def by blast

end

sublocale migration_server \<subseteq> pg: migrate "pg_migrate S crc" rows data held idle script
    "\<lambda>m. \<not> no_tx m \<and> \<not> implicit (sql m)" True for crc
  by (rule migrateI) (auto simp: pg_migrate_def pg_lock_def pg_unlock_def
      intro: steps_bind [OF steps_database steps_acquire, simplified] steps_bind [OF steps_database steps_release, simplified]
        pg_apply_steps pg_apply_fails pg_revert_steps fails_any [OF pg_revert_fails])

sublocale migration_server \<subseteq> my: migrate "my_migrate S crc" rows data held idle script
    "\<lambda>m. \<not> implicit (sql m)" True for crc
  by (rule migrateI) (auto simp: my_migrate_def my_lock_def my_unlock_def
      intro: steps_bind [OF steps_database steps_acquire, simplified] steps_bind [OF steps_database steps_release, simplified]
        my_apply_steps my_apply_fails my_revert_steps my_revert_fails)

sublocale migration_server \<subseteq> sq: migrate "sq_migrate S" rows data held idle script
    "\<lambda>m. \<not> implicit (sql m)" False
  by (rule migrateI) (auto simp: sq_migrate_def
      intro: steps_mret sq_apply_steps sq_apply_fails sq_revert_steps sq_revert_fails)

context migration_server
begin

lemma my_apply_partial:
  assumes "idle s" and "rows s (version m) = None" and "script (sql m) (data s) = None" and "implicit (sql m)"
  shows "\<exists>s' e. my_apply S m s = (s', Inl (ExecuteMigration e (version m))) \<and> idle s'
    \<and> rows s' = (rows s)(version m \<mapsto> (False, checksum m))"
proof -
  let ?r = "(rows s)(version m \<mapsto> (False, checksum m))"
  have s: "healthy s" "saved s = None" using assms(1) by (simp_all add: idle_def)
  obtain s1 where 1: "sv_begin S s = (s1, None)" "healthy s1" "rows s1 = rows s" "data s1 = data s" "saved s1 \<noteq> None"
    using begin_law [OF s] by auto
  obtain s2 where 2: "sv_execute S (InsertRow (version m) (description m) False (checksum m)) s1 = (s2, None)"
      "healthy s2" "rows s2 = ?r" "data s2 = data s" "saved s2 \<noteq> None"
    using insert_law [of s1 "version m" "description m" False "checksum m"] 1 assms(2) by auto
  obtain s3 e where 3: "sv_execute S (Script (sql m)) s2 = (s3, Some e)" "saved s3 = None" "healthy s3" "rows s3 = ?r"
    using script_fails_law [of s2 "sql m"] 2 assms(3,4) by auto
  have "healthy (sv_drop S s3)" "rows (sv_drop S s3) = ?r" "saved (sv_drop S s3) = None"
    using drop_idle_law [OF 3(2,3)] 3(4) by simp_all
  moreover have "my_apply S m s = (sv_drop S s3, Inl (ExecuteMigration e (version m)))"
    using 1(1) 2(1) 3(1) by (simp add: my_apply_def with_transaction_def mbind_def db_exec_def run_script_def)
  ultimately show ?thesis by (auto simp: idle_def)
qed

lemma my_dirty_run:
  assumes "idle s" and "\<not> clean (rows s)" and "locking M"
  shows "\<exists>s' v cs. run_direct (my_migrate S crc) M s = (s', Inl (Dirty v)) \<and> rows s v = Some (False, cs)
    \<and> rows s' = rows s \<and> data s' = data s"
  using my.failed_prepare_keeps_lock [OF assms(1,3), of crc] assms(2) by blast

end

subsection \<open>A server that keeps the promises\<close>

record mig_db =
  mdb_rows :: "(int \<times> bool \<times> bytes) list"
  mdb_data :: "bytes list"
  mdb_saved :: "((int \<times> bool \<times> bytes) list \<times> bytes list) option"
  mdb_held :: nat

definition ref_script :: "bytes \<Rightarrow> bytes list \<Rightarrow> bytes list option" where
  "ref_script q d = (if q = [0] then None else Some (d @ [q]))"

fun ref_exec :: "(bytes \<Rightarrow> bool) \<Rightarrow> sql_text \<Rightarrow> mig_db \<Rightarrow> mig_db \<times> error option" where
  "ref_exec imp CreateMigrationsTable s = (s, None)"
| "ref_exec imp (InsertRow v desc b cs) s =
     (if v \<in> fst ` set (mdb_rows s) then (s, Some (Database [] [])) else (s\<lparr>mdb_rows := mdb_rows s @ [(v, b, cs)]\<rparr>, None))"
| "ref_exec imp (SetSuccess b v) s =
     (s\<lparr>mdb_rows := map (\<lambda>(x, b', cs). (x, if x = v then b else b', cs)) (mdb_rows s)\<rparr>, None)"
| "ref_exec imp (SetExecutionTime v) s = (s, None)"
| "ref_exec imp (DeleteRow v) s = (s\<lparr>mdb_rows := filter (\<lambda>(x, _). x \<noteq> v) (mdb_rows s)\<rparr>, None)"
| "ref_exec imp (Script q) s =
     (let s' = (if imp q then s\<lparr>mdb_saved := None\<rparr> else s) in
      case ref_script q (mdb_data s) of
        None \<Rightarrow> (s', Some (Database [] []))
      | Some d \<Rightarrow> (s'\<lparr>mdb_data := d\<rparr>, None))"
| "ref_exec imp (AcquireLock k) s = (s\<lparr>mdb_held := mdb_held s + 1\<rparr>, None)"
| "ref_exec imp (ReleaseLock k) s = (s\<lparr>mdb_held := mdb_held s - 1\<rparr>, None)"

definition ref_mig :: "(bytes \<Rightarrow> bool) \<Rightarrow> mig_db server_api" where
  "ref_mig imp =
     \<lparr>sv_execute = ref_exec imp,
      sv_first_dirty = (\<lambda>s. (s, Inr (map_option fst (find (\<lambda>(_, b, _). \<not> b) (mdb_rows s))))),
      sv_applied = (\<lambda>s. (s, Inr (map (\<lambda>(v, _, cs). (v, cs)) (mdb_rows s)))),
      sv_current_database = (\<lambda>s. (s, Inr [100, 98])),
      sv_begin = (\<lambda>s. (s\<lparr>mdb_saved := Some (mdb_rows s, mdb_data s)\<rparr>, None)),
      sv_commit = (\<lambda>s. (s\<lparr>mdb_saved := None\<rparr>, None)),
      sv_drop = (\<lambda>s. case mdb_saved s of
          None \<Rightarrow> s | Some (r, d) \<Rightarrow> s\<lparr>mdb_rows := r, mdb_data := d, mdb_saved := None\<rparr>)\<rparr>"

definition ref_rows :: "mig_db \<Rightarrow> rows" where
  "ref_rows s = map_of (mdb_rows s)"

definition ref_saved :: "mig_db \<Rightarrow> (rows \<times> bytes list) option" where
  "ref_saved s =
     (case mdb_saved s of
        Some (r, d) \<Rightarrow> if distinct (map fst r) then Some (map_of r, d) else None
      | None \<Rightarrow> None)"

definition ref_healthy :: "mig_db \<Rightarrow> bool" where
  "ref_healthy s \<longleftrightarrow>
     distinct (map fst (mdb_rows s)) \<and> (case mdb_saved s of None \<Rightarrow> True | Some (r, _) \<Rightarrow> distinct (map fst r))"

lemma map_of_success:
  "map_of (map (\<lambda>(x, b', cs). (x, if x = v then b else b', cs)) xs) =
     (case map_of xs v of None \<Rightarrow> map_of xs | Some (_, cs) \<Rightarrow> (map_of xs)(v \<mapsto> (b, cs)))"
  by (induction xs) (auto split: option.splits)

lemma map_of_delete: "map_of (filter (\<lambda>(x, _). x \<noteq> v) xs) = (map_of xs)(v := None)"
  by (induction xs) auto

lemma map_of_checksums: "map_of (map (\<lambda>(v, _, cs). (v, cs)) xs) = map_option snd \<circ> map_of xs"
  by (induction xs) auto

lemma map_of_snoc: "v \<notin> fst ` set xs \<Longrightarrow> map_of (xs @ [(v, y)]) = (map_of xs)(v \<mapsto> y)"
  by (induction xs) auto

lemma find_dirty:
  "distinct (map fst xs) \<Longrightarrow>
   case map_option fst (find (\<lambda>(_, b, _). \<not> b) xs) of
     None \<Rightarrow> (\<forall>v cs. map_of xs v \<noteq> Some (False, cs)) | Some v \<Rightarrow> (\<exists>cs. map_of xs v = Some (False, cs))"
  by (induction xs) (auto split: option.splits simp: map_of_eq_None_iff dest: map_of_SomeD, force)

interpretation ref_mig: migration_server "ref_mig imp" ref_rows mdb_data ref_saved mdb_held ref_healthy ref_script imp "[100, 98]"
  for imp
proof unfold_locales
  fix s :: mig_db and v :: int and b cs
  assume h: "ref_healthy s"
  show "\<exists>s'. sv_execute (ref_mig imp) (SetSuccess b v) s = (s', None) \<and> ref_healthy s'
      \<and> ref_rows s' = (case ref_rows s v of None \<Rightarrow> ref_rows s | Some (_, cs) \<Rightarrow> (ref_rows s)(v \<mapsto> (b, cs)))
      \<and> mdb_data s' = mdb_data s \<and> ref_saved s' = ref_saved s \<and> mdb_held s' = mdb_held s"
    unfolding ref_rows_def using h by (simp add: ref_mig_def map_of_success ref_healthy_def ref_saved_def comp_def case_prod_beta)
  show "\<exists>s'. sv_execute (ref_mig imp) (DeleteRow v) s = (s', None) \<and> ref_healthy s' \<and> ref_rows s' = (ref_rows s)(v := None)
      \<and> mdb_data s' = mdb_data s \<and> ref_saved s' = ref_saved s \<and> mdb_held s' = mdb_held s"
    using h by (simp add: ref_mig_def ref_rows_def map_of_delete ref_healthy_def ref_saved_def distinct_map_filter)
  show "\<exists>s' r. sv_first_dirty (ref_mig imp) s = (s', Inr r) \<and> ref_healthy s' \<and> ref_rows s' = ref_rows s \<and> mdb_data s' = mdb_data s
      \<and> ref_saved s' = ref_saved s \<and> mdb_held s' = mdb_held s
      \<and> (case r of None \<Rightarrow> (\<forall>v cs. ref_rows s v \<noteq> Some (False, cs)) | Some v \<Rightarrow> (\<exists>cs. ref_rows s v = Some (False, cs)))"
    unfolding ref_rows_def using h find_dirty [of "mdb_rows s"] by (simp add: ref_mig_def ref_healthy_def)
  show "\<exists>s' rs. sv_applied (ref_mig imp) s = (s', Inr rs) \<and> ref_healthy s' \<and> ref_rows s' = ref_rows s \<and> mdb_data s' = mdb_data s
      \<and> ref_saved s' = ref_saved s \<and> mdb_held s' = mdb_held s \<and> distinct (map fst rs) \<and> map_of rs = map_option snd \<circ> ref_rows s"
    using h by (simp add: ref_mig_def ref_rows_def ref_healthy_def map_of_checksums) (simp add: comp_def case_prod_beta)
  assume "ref_rows s v = None"
  then show "\<exists>s'. sv_execute (ref_mig imp) (InsertRow v desc b cs) s = (s', None) \<and> ref_healthy s'
      \<and> ref_rows s' = (ref_rows s)(v \<mapsto> (b, cs)) \<and> mdb_data s' = mdb_data s \<and> ref_saved s' = ref_saved s \<and> mdb_held s' = mdb_held s" for desc
    using h by (auto simp: ref_mig_def ref_rows_def ref_healthy_def ref_saved_def map_of_eq_None_iff map_of_snoc simp del: map_of_append split: option.splits)
qed (auto simp: ref_mig_def ref_rows_def ref_healthy_def ref_saved_def Let_def split: option.splits if_splits)

subsection \<open>Properties\<close>

text \<open>C11. Running migrations refines executing the pending scripts in order: on any driver that keeps the
  promises of the trait, and on a database with no dirty or unknown migration and matching checksums,
  the run executes the up migrations not yet applied, in order, and records each with its checksum.  When
  all succeed it returns success and gives the lock back.  Otherwise it stops at the first failing script and
  reports its version, with the lock still held; if the driver runs that migration atomically, its effects and its row are
  undone, and the database is as the scripts before it left it.  Atomic are, on PostgreSQL, the migrations that
  do not opt out of the transaction, and on any of the databases only scripts without implicit
  commits.\<close>

theorem migrate_run:
  assumes "migrate D rows data held healthy script atomic locks"
    and "healthy c" and "distinct (map version (ups (migrations M)))"
    and "clean (rows c)" and "known M (rows c)" and "checksums_match (migrations M) (rows c)"
  shows "\<exists>c' r. run_direct D M c = (c', r)
    \<and> (case exec_pending script (pending (migrations M) (rows c)) (rows c, data c) of
         (x, None) \<Rightarrow> r = Inr () \<and> held c' = held c \<and> healthy c' \<and> (rows c', data c') = x
       | (x, Some v) \<Rightarrow> (\<exists>e. r = Inl (ExecuteMigration e v))
           \<and> held c' = (if locking M \<and> locks then held c + 1 else held c)
           \<and> (\<forall>m \<in> set (pending (migrations M) (rows c)). version m = v \<and> atomic m \<longrightarrow>
                healthy c' \<and> (rows c', data c') = x))"
  by (rule migrate.run_refines [OF assms])

definition demo_migration :: "int \<Rightarrow> MigrationType \<Rightarrow> bytes \<Rightarrow> migration" where
  "demo_migration v t q = \<lparr>version = v, description = [], migration_type = t, sql = q, checksum = q, no_tx = False\<rparr>"

definition demo_migrator :: "migration list \<Rightarrow> migrator" where
  "demo_migrator ms = \<lparr>migrations = ms, ignore_missing = False, locking = True, migrator_no_tx = False\<rparr>"

definition demo_db :: "(int \<times> bool \<times> bytes) list \<Rightarrow> mig_db" where
  "demo_db rs = \<lparr>mdb_rows = rs, mdb_data = [], mdb_saved = None, mdb_held = 0\<rparr>"

lemmas demo_defs = demo_migration_def demo_migrator_def demo_db_def ref_rows_def ref_mig.idle_def ref_healthy_def ref_saved_def
  ups_def pending_def clean_def known_def checksums_match_def is_down_migration_def

theorem migrate_run_witness:
  "\<exists>c'. run_direct (pg_migrate (ref_mig (\<lambda>_. False)) (\<lambda>_. 7))
      (demo_migrator [demo_migration 1 Simple [5], demo_migration 2 ReversibleUp [6], demo_migration 2 ReversibleDown [7]])
      (demo_db [(1, True, [5])]) = (c', Inr ())
    \<and> ref_rows c' = [1 \<mapsto> (True, [5]), 2 \<mapsto> (True, [6])] \<and> mdb_data c' = [[6]] \<and> mdb_held c' = 0"
proof -
  let ?M = "demo_migrator [demo_migration 1 Simple [5], demo_migration 2 ReversibleUp [6], demo_migration 2 ReversibleDown [7]]"
  let ?c = "demo_db [(1, True, [5])]"
  note r = migrate_run [OF ref_mig.pg.migrate_axioms [where crc = "\<lambda>_. 7" and imp = "\<lambda>_. False"], of ?c ?M]
  have "ref_mig.idle ?c" "distinct (map version (ups (migrations ?M)))" "clean (ref_rows ?c)" "known ?M (ref_rows ?c)"
    "checksums_match (migrations ?M) (ref_rows ?c)"
    by (simp_all add: demo_defs)
  moreover have "exec_pending ref_script (pending (migrations ?M) (ref_rows ?c)) (ref_rows ?c, mdb_data ?c) =
      (([1 \<mapsto> (True, [5]), 2 \<mapsto> (True, [6])], [[6]]), None)"
    by (simp add: demo_defs ref_script_def)
  moreover have "mdb_held ?c = 0" by (simp add: demo_defs)
  ultimately show ?thesis using r by auto
qed

text \<open>C25. Migrations run once: after a successful run, running the same migrator again succeeds and
  changes neither the migrations table nor the data.\<close>

theorem migrate_rerun:
  assumes "migrate D rows data held healthy script atomic locks"
    and "healthy c" and "distinct (map version (ups (migrations M)))"
    and "clean (rows c)" and "known M (rows c)" and "checksums_match (migrations M) (rows c)"
    and "run_direct D M c = (c1, Inr ())"
  shows "\<exists>c2. run_direct D M c1 = (c2, Inr ()) \<and> rows c2 = rows c1 \<and> data c2 = data c1"
  by (rule migrate.rerun_nothing [OF assms])

theorem migrate_rerun_witness:
  "\<exists>c1 c2. run_direct (sq_migrate (ref_mig (\<lambda>_. False))) (demo_migrator [demo_migration 1 Simple [5]]) (demo_db []) = (c1, Inr ())
    \<and> run_direct (sq_migrate (ref_mig (\<lambda>_. False))) (demo_migrator [demo_migration 1 Simple [5]]) c1 = (c2, Inr ())
    \<and> ref_rows c2 = ref_rows c1 \<and> mdb_data c2 = mdb_data c1"
proof -
  let ?M = "demo_migrator [demo_migration 1 Simple [5]]"
  let ?D = "sq_migrate (ref_mig (\<lambda>_. False))"
  have h: "ref_mig.idle (demo_db [])" "distinct (map version (ups (migrations ?M)))" "clean (ref_rows (demo_db []))"
    "known ?M (ref_rows (demo_db []))" "checksums_match (migrations ?M) (ref_rows (demo_db []))"
    by (simp_all add: demo_defs)
  have "exec_pending ref_script (pending (migrations ?M) (ref_rows (demo_db []))) (ref_rows (demo_db []), mdb_data (demo_db [])) =
      (([1 \<mapsto> (True, [5])], [[5]]), None)"
    by (simp add: demo_defs ref_script_def)
  with ref_mig.sq.run_refines [OF h] obtain c1 where c1: "run_direct ?D ?M (demo_db []) = (c1, Inr ())" by auto
  from migrate_rerun [OF ref_mig.sq.migrate_axioms h c1] c1 show ?thesis by blast
qed

text \<open>C26. Undoing to a target version executes, newest first, the down scripts of the applied
  migrations above the target, and removes exactly their rows; applied migrations without a down script
  stay, whatever their version.\<close>

theorem migrate_undo:
  assumes "migrate D rows data held healthy script atomic locks"
    and "healthy c" and "clean (rows c)" and "known M (rows c)"
    and "undo D M target c = (c', Inr ())"
  shows "rows c' = rows c |` {v. \<not> (target < v \<and> (\<exists>m \<in> set (migrations M). is_down_migration (migration_type m) \<and> version m = v))}
    \<and> data c' = snd (fst (exec_reverts script (to_revert M (map_option snd \<circ> rows c) target) (rows c, data c)))"
proof -
  let ?ms = "to_revert M (map_option snd \<circ> rows c) target"
  have u: "(rows c', data c') = fst (exec_reverts script ?ms (rows c, data c))" "snd (exec_reverts script ?ms (rows c, data c)) = None"
    using migrate.undo_refines [OF assms(1-4), of target] assms(5) by auto
  then have "exec_reverts script ?ms (rows c, data c) = ((rows c', data c'), None)" by (metis prod.collapse)
  from exec_reverts_rows [OF this] have "rows c' = rows c |` (- version ` set ?ms)" .
  also have "\<dots> = rows c |` {v. \<not> (target < v \<and> (\<exists>m \<in> set (migrations M). is_down_migration (migration_type m) \<and> version m = v))}"
    by (auto simp: restrict_map_def fun_eq_iff to_revert_def)
  finally show ?thesis using u(1) by (metis snd_conv)
qed

theorem migrate_undo_witness:
  "\<exists>c'. undo (my_migrate (ref_mig (\<lambda>_. False)) (\<lambda>_. 7))
      (demo_migrator [demo_migration 1 Simple [5], demo_migration 2 ReversibleUp [6], demo_migration 2 ReversibleDown [7]]) 0
      (demo_db [(1, True, [5]), (2, True, [6])]) = (c', Inr ())
    \<and> ref_rows c' = [1 \<mapsto> (True, [5])] \<and> mdb_data c' = [[7]]"
proof -
  let ?M = "demo_migrator [demo_migration 1 Simple [5], demo_migration 2 ReversibleUp [6], demo_migration 2 ReversibleDown [7]]"
  let ?c = "demo_db [(1, True, [5]), (2, True, [6])]"
  let ?D = "my_migrate (ref_mig (\<lambda>_. False)) (\<lambda>_. 7)"
  have h: "ref_mig.idle ?c" "clean (ref_rows ?c)" "known ?M (ref_rows ?c)"
    by (simp_all add: demo_defs)
  have x: "exec_reverts ref_script (to_revert ?M (map_option snd \<circ> ref_rows ?c) 0) (ref_rows ?c, mdb_data ?c) =
      (((ref_rows ?c)(2 := None), [[7]]), None)"
    by (simp add: demo_defs to_revert_def ref_script_def)
  from ref_mig.my.undo_refines [OF h, where target = 0 and crc = "\<lambda>_. 7"] obtain c' where c': "undo ?D ?M 0 ?c = (c', Inr ())" by (auto simp: x)
  from migrate_undo [OF ref_mig.my.migrate_axioms h c'] have
    "ref_rows c' = ref_rows ?c |` {v. \<not> (0 < v \<and> (\<exists>m \<in> set (migrations ?M). is_down_migration (migration_type m) \<and> version m = v))}"
    "mdb_data c' = [[7]]" by (simp_all add: x)
  moreover have "ref_rows ?c |` {v. \<not> (0 < v \<and> (\<exists>m \<in> set (migrations ?M). is_down_migration (migration_type m) \<and> version m = v))}
      = [1 \<mapsto> (True, [5])]"
    by (auto simp: demo_defs restrict_map_def fun_eq_iff)
  ultimately show ?thesis using c' by auto
qed

text \<open>C28. A run that fails does not give the lock back.  Whatever the error, a dirty or unknown migration
  in the table, a checksum that differs or a script that fails, the migrator returns it with the session's
  advisory lock still held; only a successful run gives the lock back, and a run on a database with a
  dirty or unknown migration or a differing checksum never succeeds.\<close>

theorem migrate_error_keeps_lock:
  assumes "migrate D rows data held healthy script atomic True"
    and "healthy c" and "locking M" and "distinct (map version (ups (migrations M)))"
  shows "\<exists>c' r. run_direct D M c = (c', r)
    \<and> held c' = (case r of Inl e \<Rightarrow> held c + 1 | Inr _ \<Rightarrow> held c)
    \<and> (\<not> clean (rows c) \<or> \<not> known M (rows c) \<or> \<not> checksums_match (migrations M) (rows c) \<longrightarrow> (\<exists>e. r = Inl e))"
proof -
  obtain c' r where "run_direct D M c = (c', r)" "held c' = (if r = Inr () then held c else held c + 1)"
      "r = Inr () \<longrightarrow> clean (rows c) \<and> known M (rows c) \<and> checksums_match (migrations M) (rows c)"
    using migrate.run_held [OF assms(1,2,4)] assms(3) by auto
  then show ?thesis by (cases r) auto
qed

text \<open>An unknown migration; and a script that fails.\<close>

theorem migrate_error_keeps_lock_witness:
  "(\<exists>c' e. run_direct (pg_migrate (ref_mig (\<lambda>_. False)) (\<lambda>_. 7)) (demo_migrator []) (demo_db [(1, True, [5])]) = (c', Inl e)
      \<and> mdb_held c' = 1)
   \<and> (\<exists>c' r. run_direct (my_migrate (ref_mig (\<lambda>_. False)) (\<lambda>_. 7)) (demo_migrator [demo_migration 1 Simple [0]]) (demo_db []) = (c', r)
      \<and> mdb_held c' = (case r of Inl e \<Rightarrow> 1 | Inr _ \<Rightarrow> 0))"
proof
  let ?c = "demo_db [(1, True, [5])]"
  have "\<not> known (demo_migrator []) (ref_rows ?c)" "mdb_held ?c = 0" "ref_mig.idle ?c" by (simp_all add: demo_defs)
  with migrate_error_keeps_lock [OF ref_mig.pg.migrate_axioms [where crc = "\<lambda>_. 7" and imp = "\<lambda>_. False"], of ?c "demo_migrator []"]
  show "\<exists>c' e. run_direct (pg_migrate (ref_mig (\<lambda>_. False)) (\<lambda>_. 7)) (demo_migrator []) ?c = (c', Inl e) \<and> mdb_held c' = 1"
    by (fastforce simp: demo_migrator_def ups_def)
  let ?D = "my_migrate (ref_mig (\<lambda>_. False)) (\<lambda>_. 7)" and ?M = "demo_migrator [demo_migration 1 Simple [0]]"
  have "mdb_held (demo_db []) = 0" "ref_mig.idle (demo_db [])" "locking ?M" "distinct (map version (ups (migrations ?M)))"
    by (simp_all add: demo_defs)
  with migrate_error_keeps_lock [OF ref_mig.my.migrate_axioms [where crc = "\<lambda>_. 7" and imp = "\<lambda>_. False"], of "demo_db []" ?M]
  obtain c' r where "run_direct ?D ?M (demo_db []) = (c', r)"
    "mdb_held c' = (case r of Inl e \<Rightarrow> mdb_held (demo_db []) + 1 | Inr _ \<Rightarrow> mdb_held (demo_db []))" by blast
  with \<open>mdb_held (demo_db []) = 0\<close>
  show "\<exists>c' r. run_direct ?D ?M (demo_db []) = (c', r) \<and> mdb_held c' = (case r of Inl e \<Rightarrow> 1 | Inr _ \<Rightarrow> 0)"
    by (auto split: sum.splits)
qed

text \<open>C27. MySQL detects a partly executed migration: when a script fails after a statement that
  commits implicitly, its row stays marked as unsuccessful, and every later run, of any migrator, reports
  a dirty version and executes nothing.\<close>

theorem mysql_partial_migration_is_dirty:
  assumes "migration_server S rows data saved held healthy script implicit db"
    and "healthy s" and "saved s = None" and "rows s (version m) = None"
    and "script (sql m) (data s) = None" and "implicit (sql m)" and "locking M"
  shows "\<exists>s1 e s2 v cs. my_apply S m s = (s1, Inl (ExecuteMigration e (version m)))
    \<and> rows s1 = (rows s)(version m \<mapsto> (False, checksum m))
    \<and> run_direct (my_migrate S crc) M s1 = (s2, Inl (Dirty v)) \<and> rows s1 v = Some (False, cs)
    \<and> rows s2 = rows s1 \<and> data s2 = data s1"
proof -
  have i: "migration_server.idle saved healthy s"
    using assms(2,3) by (simp add: migration_server.idle_def [OF assms(1)])
  obtain s1 e where 1: "my_apply S m s = (s1, Inl (ExecuteMigration e (version m)))"
      "migration_server.idle saved healthy s1" "rows s1 = (rows s)(version m \<mapsto> (False, checksum m))"
    using migration_server.my_apply_partial [OF assms(1) i assms(4-6)] by blast
  have "\<not> clean (rows s1)" using 1(3) by (auto simp: clean_def)
  with migration_server.my_dirty_run [OF assms(1) 1(2) this assms(7), of crc] 1 show ?thesis by blast
qed

theorem mysql_partial_migration_is_dirty_witness:
  "\<exists>s1 e s2 v cs. my_apply (ref_mig (\<lambda>_. True)) (demo_migration 3 Simple [0]) (demo_db []) =
      (s1, Inl (ExecuteMigration e 3))
    \<and> run_direct (my_migrate (ref_mig (\<lambda>_. True)) (\<lambda>_. 7)) (demo_migrator []) s1 = (s2, Inl (Dirty v))
    \<and> ref_rows s1 v = Some (False, cs)"
  using mysql_partial_migration_is_dirty [OF ref_mig.migration_server_axioms [of "\<lambda>_. True"],
      of "demo_db []" "demo_migration 3 Simple [0]" "demo_migrator []" "\<lambda>_. 7"]
  by (auto simp: demo_defs ref_script_def)

end
