(* ===== verification/Int_Map.thy ===== *)
theory Int_Map
  imports Prelude
begin

section \<open>The integer map of the SQLite driver\<close>

text \<open>
  \<^verbatim>\<open>sqlx-sqlite/src/connection/intmap.rs\<close>: a map from small integers kept as a vector of options.  A negative
  key panics, a key beyond the vector is absent.  Two vectors that differ only in absent trailing
  entries are the same map, so \<^verbatim>\<open>PartialEq\<close> and \<^verbatim>\<open>Hash\<close> are written by hand; the lemmas show that
  they agree with the map the vector stands for.
\<close>

type_synonym 'v int_map = "'v option list"

definition im_new :: "'v int_map" where
  "im_new = []"

definition im_index :: "int \<Rightarrow> nat result" where
  "im_index i = (if 0 \<le> i then Ok (nat i) else Panic)"

definition im_expand :: "int \<Rightarrow> 'v int_map \<Rightarrow> (nat \<times> 'v int_map) result" where
  "im_expand i m = rbind (im_index i) (\<lambda>idx. Ok (idx, m @ replicate (Suc idx - length m) None))"

definition im_values :: "'v int_map \<Rightarrow> 'v list" where
  "im_values m = List.map_filter id m"

text \<open>\<^verbatim>\<open>values_mut\<close> with what the caller does to every value.\<close>

definition im_map_values :: "('v \<Rightarrow> 'v) \<Rightarrow> 'v int_map \<Rightarrow> 'v int_map" where
  "im_map_values f m = map (map_option f) m"

definition im_lookup :: "'v int_map \<Rightarrow> nat \<Rightarrow> 'v option" where
  "im_lookup m idx = (if idx < length m then m ! idx else None)"

definition im_get :: "'v int_map \<Rightarrow> int \<Rightarrow> 'v option result" where
  "im_get m i = rbind (im_index i) (\<lambda>idx. Ok (im_lookup m idx))"

text \<open>\<^verbatim>\<open>get_mut\<close> with what the caller does to the value, if there is one.\<close>

definition im_get_mut :: "int \<Rightarrow> ('v \<Rightarrow> 'v) \<Rightarrow> 'v int_map \<Rightarrow> 'v int_map result" where
  "im_get_mut i f m =
     rbind (im_index i) (\<lambda>idx.
       Ok (case im_lookup m idx of Some v \<Rightarrow> m[idx := Some (f v)] | None \<Rightarrow> m))"

definition im_insert :: "int \<Rightarrow> 'v \<Rightarrow> 'v int_map \<Rightarrow> ('v int_map \<times> 'v option) result" where
  "im_insert i v m = rbind (im_expand i m) (\<lambda>(idx, m). Ok (m[idx := Some v], m ! idx))"

definition im_remove :: "int \<Rightarrow> 'v int_map \<Rightarrow> ('v int_map \<times> 'v option) result" where
  "im_remove i m =
     rbind (im_index i) (\<lambda>idx. Ok (if idx < length m then (m[idx := None], m ! idx) else (m, None)))"

definition im_iter_entries :: "'v int_map \<Rightarrow> (int \<times> 'v) list" where
  "im_iter_entries m = List.map_filter (\<lambda>(i, v). map_option (Pair (int i)) v) (List.enumerate 0 m)"

definition im_last_index :: "'v int_map \<Rightarrow> int option" where
  "im_last_index m =
     (case rev (im_iter_entries m) of [] \<Rightarrow> None | (i, _) # _ \<Rightarrow> Some i)"

text \<open>The map with the default filled in, and the value there.\<close>

definition im_get_mut_or_default :: "'v \<Rightarrow> int \<Rightarrow> 'v int_map \<Rightarrow> ('v int_map \<times> 'v) result" where
  "im_get_mut_or_default d i m =
     rbind (im_expand i m) (\<lambda>(idx, m).
       case m ! idx of None \<Rightarrow> Ok (m[idx := Some d], d) | Some v \<Rightarrow> Ok (m, v))"

definition im_from_elem :: "'v \<Rightarrow> nat \<Rightarrow> 'v int_map" where
  "im_from_elem elem len = replicate len (Some elem)"

definition im_from_dense_record :: "'v list \<Rightarrow> 'v int_map" where
  "im_from_dense_record record = map Some record"

text \<open>Slices compare element by element; \<open>eq\<close> is the comparison of the values.\<close>

definition im_eq :: "('v \<Rightarrow> 'v \<Rightarrow> bool) \<Rightarrow> 'v int_map \<Rightarrow> 'v int_map \<Rightarrow> bool" where
  "im_eq eq a b =
     (if length b < length a then
        list_all2 (rel_option eq) (take (length b) a) b \<and> list_all Option.is_none (drop (length b) a)
      else if length a < length b then
        list_all2 (rel_option eq) (take (length a) b) a \<and> list_all Option.is_none (drop (length a) b)
      else list_all2 (rel_option eq) a b)"

text \<open>What \<^verbatim>\<open>hash\<close> feeds to the hasher, given what hashing a value feeds.\<close>

definition im_hash :: "('v \<Rightarrow> 'h list) \<Rightarrow> 'v int_map \<Rightarrow> 'h list" where
  "im_hash hash m = concat (map hash (im_values m))"

definition im_diff :: "('v \<Rightarrow> 'v \<Rightarrow> bool) \<Rightarrow> 'v int_map \<Rightarrow> 'v int_map \<Rightarrow> (nat \<times> 'v option) list" where
  "im_diff eq m prev =
     (let new = m @ replicate (length prev - length m) None;
          old = prev @ replicate (length new - length prev) None in
      map (\<lambda>(i, n, p). (i, n)) (filter (\<lambda>(i, n, p). \<not> rel_option eq n p) (List.enumerate 0 (zip new old))))"

fun im_from_iter :: "(int \<times> 'v) list \<Rightarrow> 'v int_map \<Rightarrow> 'v int_map result" where
  "im_from_iter [] m = Ok m"
| "im_from_iter ((i, v) # rest) m =
     rbind (im_expand i m) (\<lambda>(idx, m). im_from_iter rest (m[idx := Some v]))"

lemma im_eq_cong [fundef_cong]:
  assumes "a = a'" and "b = b'"
    and "\<And>x y. Some x \<in> set a' \<Longrightarrow> Some y \<in> set b' \<Longrightarrow> eq x y = eq' x y"
    and "\<And>x y. Some x \<in> set a' \<Longrightarrow> Some y \<in> set b' \<Longrightarrow> eq y x = eq' y x"
  shows "im_eq eq a b = im_eq eq' a' b'"
proof -
  have "rel_option eq u v = rel_option eq' u v \<and> rel_option eq v u = rel_option eq' v u"
    if "u \<in> set a'" "v \<in> set b'" for u v
    using assms(3,4) that by (cases u; cases v) auto
  then show ?thesis
    unfolding im_eq_def assms(1,2)
    by (auto simp: list_all2_conv_all_nth)
qed

subsection \<open>The map behind the vector\<close>

named_theorems im_simps \<open>what the operations of the integer map do to its entries\<close>

lemma im_negative: "i < 0 \<Longrightarrow> im_insert i v m = Panic \<and> im_get m i = Panic \<and> im_remove i m = Panic"
  by (simp add: im_insert_def im_expand_def im_get_def im_remove_def im_index_def)

lemma im_index_nonneg [im_simps]: "0 \<le> i \<Longrightarrow> im_index i = Ok (nat i)"
  by (simp add: im_index_def)

lemma im_get_nonneg [im_simps]: "0 \<le> i \<Longrightarrow> im_get m i = Ok (im_lookup m (nat i))"
  by (simp add: im_get_def im_index_def)

lemma im_lookup_new [simp]: "im_lookup [] n = None"
  by (simp add: im_lookup_def)

definition im_upd :: "nat \<Rightarrow> 'v \<Rightarrow> 'v int_map \<Rightarrow> 'v int_map" where
  "im_upd n v m = (m @ replicate (Suc n - length m) None)[n := Some v]"

lemma im_insert_nonneg [im_simps]:
  "0 \<le> i \<Longrightarrow> im_insert i v m = Ok (im_upd (nat i) v m, im_lookup m (nat i))"
  by (auto simp: im_insert_def im_expand_def im_index_def im_upd_def im_lookup_def nth_append)

lemma im_lookup_upd [simp]: "im_lookup (im_upd n v m) k = (if k = n then Some v else im_lookup m k)"
  by (auto simp: im_upd_def im_lookup_def nth_list_update nth_append)

lemma im_remove_nonneg [im_simps]:
  "0 \<le> i \<Longrightarrow> im_remove i m = Ok (m[nat i := None], im_lookup m (nat i))"
  by (simp add: im_remove_def im_index_def im_lookup_def list_update_beyond)

lemma im_lookup_delete [simp]: "im_lookup (m[n := None]) k = (if k = n then None else im_lookup m k)"
  by (auto simp: im_lookup_def nth_list_update)

definition im_adj :: "nat \<Rightarrow> ('v \<Rightarrow> 'v) \<Rightarrow> 'v int_map \<Rightarrow> 'v int_map" where
  "im_adj n f m = (case im_lookup m n of Some v \<Rightarrow> m[n := Some (f v)] | None \<Rightarrow> m)"

lemma im_get_mut_nonneg [im_simps]: "0 \<le> i \<Longrightarrow> im_get_mut i f m = Ok (im_adj (nat i) f m)"
  by (simp add: im_get_mut_def im_index_def im_adj_def)

lemma im_lookup_adj [simp]:
  "im_lookup (im_adj n f m) k = (if k = n then map_option f (im_lookup m n) else im_lookup m k)"
  by (auto simp: im_adj_def im_lookup_def nth_list_update split: option.split if_splits)

lemma im_lookup_map [simp]: "im_lookup (im_map_values f m) k = map_option f (im_lookup m k)"
  by (simp add: im_map_values_def im_lookup_def)

lemma im_lookup_dense [simp]:
  "im_lookup (im_from_dense_record xs) k = (if k < length xs then Some (xs ! k) else None)"
  by (simp add: im_from_dense_record_def im_lookup_def)

lemma im_lookup_elem [simp]: "im_lookup (im_from_elem x n) k = (if k < n then Some x else None)"
  by (simp add: im_from_elem_def im_lookup_def)

lemma im_lookup_append: "im_lookup (a @ b) k = (if k < length a then a ! k else im_lookup b (k - length a))"
  by (auto simp: im_lookup_def nth_append)

lemma all_none_lookup: "list_all Option.is_none m \<longleftrightarrow> (\<forall>k. im_lookup m k = None)"
  by (auto simp: list_all_length im_lookup_def Option.is_none_def)

lemma im_eq_longer:
  assumes "length b \<le> length a"
  shows "list_all2 (rel_option eq) (take (length b) a) b \<and> list_all Option.is_none (drop (length b) a) \<longleftrightarrow>
    (\<forall>k. rel_option eq (im_lookup a k) (im_lookup b k))" (is "?l \<longleftrightarrow> ?r")
proof
  assume l: ?l
  show ?r
  proof
    fix k
    show "rel_option eq (im_lookup a k) (im_lookup b k)"
    proof (cases "k < length b")
      case True
      with l assms show ?thesis by (auto simp: list_all2_conv_all_nth im_lookup_def)
    next
      case False
      moreover have "im_lookup (drop (length b) a) (k - length b) = None"
        using l by (simp add: all_none_lookup)
      ultimately show ?thesis using assms by (auto simp: im_lookup_def split: if_splits)
    qed
  qed
next
  assume r: ?r
  have "rel_option eq (a ! k) (b ! k)" if "k < length b" for k
    using r [rule_format, of k] that assms by (simp add: im_lookup_def)
  moreover have "im_lookup (drop (length b) a) k = None" for k
    using r [rule_format, of "length b + k"] assms by (auto simp: im_lookup_def split: if_splits)
  ultimately show ?l using assms by (simp add: list_all2_conv_all_nth all_none_lookup)
qed

lemma im_eq_lookup:
  assumes sym: "\<And>x y. eq x y \<longleftrightarrow> eq y x"
  shows "im_eq eq a b \<longleftrightarrow> (\<forall>k. rel_option eq (im_lookup a k) (im_lookup b k))"
proof -
  have s: "rel_option eq x y \<longleftrightarrow> rel_option eq y x" for x y
    using sym by (cases x; cases y) simp_all
  consider "length b < length a" | "length a < length b" | "length a = length b" by linarith
  then show ?thesis
  proof cases
    case 1
    then show ?thesis using im_eq_longer [of b a eq] by (simp add: im_eq_def)
  next
    case 2
    then show ?thesis using im_eq_longer [of a b eq] s by (simp add: im_eq_def)
  next
    case 3
    then show ?thesis using im_eq_longer [of b a eq] by (simp add: im_eq_def)
  qed
qed

lemma im_values_split: "im_values (a @ b) = im_values a @ im_values b"
  by (simp add: im_values_def map_filter_def)

lemma im_values_none: "list_all Option.is_none m \<Longrightarrow> im_values m = []"
  by (induction m) (auto simp: im_values_def map_filter_def Option.is_none_def)

lemma im_values_rel:
  "list_all2 (rel_option eq) a b \<Longrightarrow> list_all2 eq (im_values a) (im_values b)"
proof (induction rule: list_all2_induct)
  case Nil
  show ?case by (simp add: im_values_def map_filter_def)
next
  case (Cons x xs y ys)
  then show ?case by (cases x; cases y) (simp_all add: im_values_def map_filter_def)
qed

lemma hash_of_values:
  assumes "\<And>x y. eq x y \<Longrightarrow> hash x = hash y" and "list_all2 eq xs ys"
  shows "map hash xs = map hash ys"
  using assms(2) by (induction rule: list_all2_induct) (simp_all add: assms(1))

lemma im_eq_hash:
  assumes h: "\<And>x y. eq x y \<Longrightarrow> hash x = hash y" and "im_eq eq a b"
  shows "im_hash hash a = im_hash hash b"
proof -
  have "map hash (im_values a) = map hash (im_values b)"
  proof (cases "length b < length a")
    case True
    with assms(2) have r: "list_all2 (rel_option eq) (take (length b) a) b"
      and n: "list_all Option.is_none (drop (length b) a)" by (auto simp: im_eq_def)
    have "im_values a = im_values (take (length b) a)"
      using im_values_split [of "take (length b) a" "drop (length b) a"] im_values_none [OF n] by simp
    with hash_of_values [of eq hash, OF h im_values_rel [OF r]] show ?thesis by simp
  next
    case False
    show ?thesis
    proof (cases "length a < length b")
      case True
      with assms(2) have r: "list_all2 (rel_option eq) (take (length a) b) a"
        and n: "list_all Option.is_none (drop (length a) b)" by (auto simp: im_eq_def)
      have "im_values b = im_values (take (length a) b)"
        using im_values_split [of "take (length a) b" "drop (length a) b"] im_values_none [OF n] by simp
      with hash_of_values [of eq hash, OF h im_values_rel [OF r]] show ?thesis by simp
    next
      case False
      with \<open>\<not> length b < length a\<close> assms(2) have "list_all2 (rel_option eq) a b" by (simp add: im_eq_def)
      from hash_of_values [of eq hash, OF h im_values_rel [OF this]] show ?thesis .
    qed
  qed
  then show ?thesis by (simp add: im_hash_def)
qed

text \<open>
  C32. Comparing integer maps compares the maps they stand for: when the comparison of the values is
  symmetric, two vectors are equal exactly when every key has equal values or is absent in both,
  and equal vectors feed the same values to the hasher, however many absent entries trail them.
\<close>

theorem intmap_equality:
  assumes "\<And>x y. eq x y \<longleftrightarrow> eq y x" and "\<And>x y. eq x y \<Longrightarrow> hash x = hash y"
  shows "(im_eq eq a b \<longleftrightarrow> (\<forall>k. rel_option eq (im_lookup a k) (im_lookup b k))) \<and>
    (im_eq eq a b \<longrightarrow> im_hash hash a = im_hash hash b)"
  using im_eq_lookup [of eq a b] im_eq_hash [of eq hash a b] assms by blast

theorem intmap_equality_witness:
  "im_eq (=) [Some 7, None, None] [Some (7 :: nat)] \<and>
    im_hash (\<lambda>x. [x]) [Some 7, None, None] = im_hash (\<lambda>x. [x]) [Some (7 :: nat)]"
proof -
  have "(7 :: nat) = 7" by simp
  have e: "im_eq (=) [Some 7, None, None] [Some (7 :: nat)]" by (simp add: im_eq_def)
  have "(x = y) = (y = x)" for x y :: nat by blast
  from intmap_equality [of "(=)" "\<lambda>x :: nat. [x]", OF this, of "[Some 7, None, None]" "[Some 7]"] e
  show ?thesis by simp
qed

text \<open>
  The operations of the integer map are those of a map: with a key that is not negative, an
  insertion returns what was there and is what a later lookup finds, a removal empties the key,
  and neither touches another key; a negative key panics.
\<close>

theorem intmap_operations:
  "(0 \<le> i \<longrightarrow> (\<exists>m'. im_insert i v m = Ok (m', im_lookup m (nat i)) \<and>
       (\<forall>j \<ge> 0. im_get m' j = (if j = i then Ok (Some v) else im_get m j)))) \<and>
   (0 \<le> i \<longrightarrow> (\<exists>m'. im_remove i m = Ok (m', im_lookup m (nat i)) \<and>
       (\<forall>j \<ge> 0. im_get m' j = (if j = i then Ok None else im_get m j)))) \<and>
   (i < 0 \<longrightarrow> im_insert i v m = Panic \<and> im_get m i = Panic \<and> im_remove i m = Panic)"
  using im_negative [of i v m] by (simp add: im_simps eq_nat_nat_iff)

theorem intmap_operations_witness:
  "\<exists>m'. im_insert 2 True [Some False] = Ok (m', None) \<and> im_get m' 0 = Ok (Some False)"
proof -
  have "im_lookup [Some False] (nat 2) = None" and "im_get [Some False] 0 = Ok (Some False)"
    by (simp_all add: im_lookup_def im_get_def im_index_def)
  moreover have "(0 :: int) \<le> 2" by simp
  moreover from this intmap_operations [of 2 True "[Some False]"] obtain m' where
    "im_insert 2 True [Some False] = Ok (m', im_lookup [Some False] (nat 2))"
    "\<forall>j \<ge> 0. im_get m' j = (if j = 2 then Ok (Some True) else im_get [Some False] j)" by blast
  ultimately have "im_insert 2 True [Some False] = Ok (m', None) \<and> im_get m' 0 = Ok (Some False)" by simp
  then show ?thesis ..
qed

end
