(* ===== verification/Sqlite_Explain.thy ===== *)
theory Sqlite_Explain
  imports Int_Map "HOL-Library.Sublist" "HOL-Library.While_Combinator"
begin

section \<open>Type inference of the SQLite driver\<close>

text \<open>
  \<^verbatim>\<open>sqlx-sqlite/src/connection/explain.rs\<close> finds the types and the nullability of the columns of a query by
  executing the bytecode that \<^verbatim>\<open>EXPLAIN\<close> prints, on types instead of values.  An instruction that may go two
  ways forks a branch; a branch whose memory was seen before is dropped; a counter (\<^verbatim>\<open>gas\<close>) bounds
  the work.  Every arm of the interpreter is a definition here (\<open>op_\<dots>\<close>), the loops are
  \<open>branch_loop\<close> and \<open>explain_loop\<close>.  Rows that SQLite returns are arguments.  The driver's
  \<^verbatim>\<open>type_info.rs\<close> is modelled along with it; the logger only prints and is left out.
  An \<^verbatim>\<open>i64\<close> is an \<open>int\<close>, and leaving its range is a panic, as in a build with overflow checks.
\<close>

subsection \<open>Types\<close>

datatype data_type =
  TNull | TInteger | TFloat | TText | TBlob | TNumeric | TBool | TInt4 | TDate | TTime | TDatetime

definition type_name :: "data_type \<Rightarrow> string" where
  "type_name t =
     (case t of
        TNull \<Rightarrow> ''NULL'' | TText \<Rightarrow> ''TEXT'' | TFloat \<Rightarrow> ''REAL'' | TBlob \<Rightarrow> ''BLOB''
      | TInt4 \<Rightarrow> ''INTEGER'' | TInteger \<Rightarrow> ''INTEGER'' | TNumeric \<Rightarrow> ''NUMERIC''
      | TBool \<Rightarrow> ''BOOLEAN'' | TDate \<Rightarrow> ''DATE'' | TTime \<Rightarrow> ''TIME'' | TDatetime \<Rightarrow> ''DATETIME'')"

definition type_is_null :: "data_type \<Rightarrow> bool" where
  "type_is_null t \<longleftrightarrow> t = TNull"

text \<open>The codes \<^verbatim>\<open>SQLITE_INTEGER\<close>, \<^verbatim>\<open>SQLITE_FLOAT\<close>, \<^verbatim>\<open>SQLITE_TEXT\<close>, \<^verbatim>\<open>SQLITE_BLOB\<close>, \<^verbatim>\<open>SQLITE_NULL\<close> are 1 to 5.\<close>

definition from_code :: "int \<Rightarrow> data_type result" where
  "from_code code =
     (if code = 1 then Ok TInteger
      else if code = 2 then Ok TFloat
      else if code = 4 then Ok TBlob
      else if code = 5 then Ok TNull
      else if code = 3 then Ok TText
      else Panic)"

definition ascii_lower :: "u8 \<Rightarrow> u8" where
  "ascii_lower b = (if 65 \<le> b \<and> b \<le> 90 then b + 32 else b)"

definition type_from_str :: "bytes \<Rightarrow> data_type result" where
  "type_from_str s =
     (let s = map ascii_lower s; contains = (\<lambda>n. sublist (ascii n) s) in
      if s = ascii ''int4'' then Ok TInt4
      else if s = ascii ''int8'' then Ok TInteger
      else if s = ascii ''boolean'' \<or> s = ascii ''bool'' then Ok TBool
      else if s = ascii ''date'' then Ok TDate
      else if s = ascii ''time'' then Ok TTime
      else if s = ascii ''datetime'' \<or> s = ascii ''timestamp'' then Ok TDatetime
      else if contains ''int'' then Ok TInteger
      else if contains ''char'' \<or> contains ''clob'' \<or> contains ''text'' then Ok TText
      else if contains ''blob'' then Ok TBlob
      else if contains ''real'' \<or> contains ''floa'' \<or> contains ''doub'' then Ok TFloat
      else Err (DecodeError ''unknown type''))"

datatype column_type = CSingle data_type "bool option" | CRecord "column_type option list"

definition column_default :: column_type where
  "column_default = CSingle TNull None"

definition column_null :: column_type where
  "column_null = CSingle TNull (Some True)"

definition ct_datatype :: "column_type \<Rightarrow> data_type" where
  "ct_datatype c = (case c of CSingle d _ \<Rightarrow> d | CRecord _ \<Rightarrow> TNull)"

definition ct_nullable :: "column_type \<Rightarrow> bool option" where
  "ct_nullable c = (case c of CSingle _ n \<Rightarrow> n | CRecord _ \<Rightarrow> None)"

text \<open>An assignment through \<^verbatim>\<open>ColumnType::Single { nullable, .. }\<close>.\<close>

definition ct_set_nullable :: "bool \<Rightarrow> column_type \<Rightarrow> column_type" where
  "ct_set_nullable b c = (case c of CSingle d _ \<Rightarrow> CSingle d (Some b) | CRecord r \<Rightarrow> CRecord r)"

datatype reg_data_type = RSingle column_type | RInt int

definition reg_datatype :: "reg_data_type \<Rightarrow> data_type" where
  "reg_datatype r = (case r of RSingle d \<Rightarrow> ct_datatype d | RInt _ \<Rightarrow> TInteger)"

definition reg_nullable :: "reg_data_type \<Rightarrow> bool option" where
  "reg_nullable r = (case r of RSingle d \<Rightarrow> ct_nullable d | RInt _ \<Rightarrow> Some False)"

definition reg_columntype :: "reg_data_type \<Rightarrow> column_type" where
  "reg_columntype r = (case r of RSingle d \<Rightarrow> d | RInt _ \<Rightarrow> CSingle TInteger (Some False))"

definition reg_default :: reg_data_type where
  "reg_default = RSingle column_default"

definition reg_set_nullable :: "bool \<Rightarrow> reg_data_type \<Rightarrow> reg_data_type" where
  "reg_set_nullable b r = (case r of RSingle c \<Rightarrow> RSingle (ct_set_nullable b c) | RInt i \<Rightarrow> RInt i)"

record table_data_type =
  cols :: "column_type int_map"
  is_empty :: "bool option"

datatype cursor_data_type = Normal int | Pseudo int

definition cursor_columns ::
  "cursor_data_type \<Rightarrow> table_data_type int_map \<Rightarrow> reg_data_type int_map \<Rightarrow> column_type int_map option result"
where
  "cursor_columns c t r =
     (case c of
        Normal i \<Rightarrow> rbind (im_get t i) (\<lambda>tab. Ok (map_option cols tab))
      | Pseudo i \<Rightarrow> rbind (im_get r i) (\<lambda>v. Ok (case v of Some (RSingle (CRecord rec)) \<Rightarrow> Some rec | _ \<Rightarrow> None)))"

text \<open>\<^verbatim>\<open>columns_mut\<close> with what the caller does to the columns.\<close>

definition cursor_columns_mut ::
  "cursor_data_type \<Rightarrow> (column_type int_map \<Rightarrow> column_type int_map) \<Rightarrow> table_data_type int_map \<Rightarrow> reg_data_type int_map \<Rightarrow>
    (table_data_type int_map \<times> reg_data_type int_map) result"
where
  "cursor_columns_mut c f t r =
     (case c of
        Normal i \<Rightarrow> rbind (im_get_mut i (cols_update f) t) (\<lambda>t. Ok (t, r))
      | Pseudo i \<Rightarrow>
          rbind (im_get_mut i (\<lambda>v. case v of RSingle (CRecord rec) \<Rightarrow> RSingle (CRecord (f rec)) | _ \<Rightarrow> v) r)
            (\<lambda>r. Ok (t, r)))"

definition cursor_table_mut ::
  "cursor_data_type \<Rightarrow> (table_data_type \<Rightarrow> table_data_type) \<Rightarrow> table_data_type int_map \<Rightarrow> table_data_type int_map result"
where
  "cursor_table_mut c f t = (case c of Normal i \<Rightarrow> im_get_mut i f t | Pseudo _ \<Rightarrow> Ok t)"

definition cursor_is_empty :: "cursor_data_type \<Rightarrow> table_data_type int_map \<Rightarrow> bool option result" where
  "cursor_is_empty c t =
     (case c of
        Normal i \<Rightarrow> rbind (im_get t i) (\<lambda>tab. Ok (case tab of Some tab \<Rightarrow> is_empty tab | None \<Rightarrow> Some True))
      | Pseudo _ \<Rightarrow> Ok (Some False))"

definition affinity_to_type :: "u8 \<Rightarrow> data_type" where
  "affinity_to_type a =
     (if a = 0x41 then TBlob else if a = 0x44 then TInteger else if a = 0x43 then TNumeric
      else if a = 0x45 then TFloat else if a = 0x42 then TText else TNull)"

subsection \<open>Opcodes\<close>

abbreviation (input) OP_INIT :: string where "OP_INIT \<equiv> ''Init''"
abbreviation (input) OP_GOTO :: string where "OP_GOTO \<equiv> ''Goto''"
abbreviation (input) OP_DECR_JUMP_ZERO :: string where "OP_DECR_JUMP_ZERO \<equiv> ''DecrJumpZero''"
abbreviation (input) OP_DELETE :: string where "OP_DELETE \<equiv> ''Delete''"
abbreviation (input) OP_ELSE_EQ :: string where "OP_ELSE_EQ \<equiv> ''ElseEq''"
abbreviation (input) OP_EQ :: string where "OP_EQ \<equiv> ''Eq''"
abbreviation (input) OP_END_COROUTINE :: string where "OP_END_COROUTINE \<equiv> ''EndCoroutine''"
abbreviation (input) OP_FILTER :: string where "OP_FILTER \<equiv> ''Filter''"
abbreviation (input) OP_FK_IF_ZERO :: string where "OP_FK_IF_ZERO \<equiv> ''FkIfZero''"
abbreviation (input) OP_FOUND :: string where "OP_FOUND \<equiv> ''Found''"
abbreviation (input) OP_GE :: string where "OP_GE \<equiv> ''Ge''"
abbreviation (input) OP_GO_SUB :: string where "OP_GO_SUB \<equiv> ''Gosub''"
abbreviation (input) OP_GT :: string where "OP_GT \<equiv> ''Gt''"
abbreviation (input) OP_IDX_GE :: string where "OP_IDX_GE \<equiv> ''IdxGE''"
abbreviation (input) OP_IDX_GT :: string where "OP_IDX_GT \<equiv> ''IdxGT''"
abbreviation (input) OP_IDX_LE :: string where "OP_IDX_LE \<equiv> ''IdxLE''"
abbreviation (input) OP_IDX_LT :: string where "OP_IDX_LT \<equiv> ''IdxLT''"
abbreviation (input) OP_IF :: string where "OP_IF \<equiv> ''If''"
abbreviation (input) OP_IF_NO_HOPE :: string where "OP_IF_NO_HOPE \<equiv> ''IfNoHope''"
abbreviation (input) OP_IF_NOT :: string where "OP_IF_NOT \<equiv> ''IfNot''"
abbreviation (input) OP_IF_NOT_OPEN :: string where "OP_IF_NOT_OPEN \<equiv> ''IfNotOpen''"
abbreviation (input) OP_IF_NOT_ZERO :: string where "OP_IF_NOT_ZERO \<equiv> ''IfNotZero''"
abbreviation (input) OP_IF_NULL_ROW :: string where "OP_IF_NULL_ROW \<equiv> ''IfNullRow''"
abbreviation (input) OP_IF_POS :: string where "OP_IF_POS \<equiv> ''IfPos''"
abbreviation (input) OP_IF_SMALLER :: string where "OP_IF_SMALLER \<equiv> ''IfSmaller''"
abbreviation (input) OP_INCR_VACUUM :: string where "OP_INCR_VACUUM \<equiv> ''IncrVacuum''"
abbreviation (input) OP_INIT_COROUTINE :: string where "OP_INIT_COROUTINE \<equiv> ''InitCoroutine''"
abbreviation (input) OP_IS_NULL :: string where "OP_IS_NULL \<equiv> ''IsNull''"
abbreviation (input) OP_IS_NULL_OR_TYPE :: string where "OP_IS_NULL_OR_TYPE \<equiv> ''IsNullOrType''"
abbreviation (input) OP_LAST :: string where "OP_LAST \<equiv> ''Last''"
abbreviation (input) OP_LE :: string where "OP_LE \<equiv> ''Le''"
abbreviation (input) OP_LT :: string where "OP_LT \<equiv> ''Lt''"
abbreviation (input) OP_MUST_BE_INT :: string where "OP_MUST_BE_INT \<equiv> ''MustBeInt''"
abbreviation (input) OP_NE :: string where "OP_NE \<equiv> ''Ne''"
abbreviation (input) OP_NEXT :: string where "OP_NEXT \<equiv> ''Next''"
abbreviation (input) OP_NO_CONFLICT :: string where "OP_NO_CONFLICT \<equiv> ''NoConflict''"
abbreviation (input) OP_NOT_EXISTS :: string where "OP_NOT_EXISTS \<equiv> ''NotExists''"
abbreviation (input) OP_NOT_NULL :: string where "OP_NOT_NULL \<equiv> ''NotNull''"
abbreviation (input) OP_ONCE :: string where "OP_ONCE \<equiv> ''Once''"
abbreviation (input) OP_PREV :: string where "OP_PREV \<equiv> ''Prev''"
abbreviation (input) OP_PROGRAM :: string where "OP_PROGRAM \<equiv> ''Program''"
abbreviation (input) OP_RETURN :: string where "OP_RETURN \<equiv> ''Return''"
abbreviation (input) OP_REWIND :: string where "OP_REWIND \<equiv> ''Rewind''"
abbreviation (input) OP_ROW_DATA :: string where "OP_ROW_DATA \<equiv> ''RowData''"
abbreviation (input) OP_ROW_SET_READ :: string where "OP_ROW_SET_READ \<equiv> ''RowSetRead''"
abbreviation (input) OP_ROW_SET_TEST :: string where "OP_ROW_SET_TEST \<equiv> ''RowSetTest''"
abbreviation (input) OP_SEEK_GE :: string where "OP_SEEK_GE \<equiv> ''SeekGE''"
abbreviation (input) OP_SEEK_GT :: string where "OP_SEEK_GT \<equiv> ''SeekGT''"
abbreviation (input) OP_SEEK_LE :: string where "OP_SEEK_LE \<equiv> ''SeekLE''"
abbreviation (input) OP_SEEK_LT :: string where "OP_SEEK_LT \<equiv> ''SeekLT''"
abbreviation (input) OP_SEEK_ROW_ID :: string where "OP_SEEK_ROW_ID \<equiv> ''SeekRowid''"
abbreviation (input) OP_SEEK_SCAN :: string where "OP_SEEK_SCAN \<equiv> ''SeekScan''"
abbreviation (input) OP_SEQUENCE :: string where "OP_SEQUENCE \<equiv> ''Sequence''"
abbreviation (input) OP_SEQUENCE_TEST :: string where "OP_SEQUENCE_TEST \<equiv> ''SequenceTest''"
abbreviation (input) OP_SORT :: string where "OP_SORT \<equiv> ''Sort''"
abbreviation (input) OP_SORTER_DATA :: string where "OP_SORTER_DATA \<equiv> ''SorterData''"
abbreviation (input) OP_SORTER_INSERT :: string where "OP_SORTER_INSERT \<equiv> ''SorterInsert''"
abbreviation (input) OP_SORTER_NEXT :: string where "OP_SORTER_NEXT \<equiv> ''SorterNext''"
abbreviation (input) OP_SORTER_OPEN :: string where "OP_SORTER_OPEN \<equiv> ''SorterOpen''"
abbreviation (input) OP_SORTER_SORT :: string where "OP_SORTER_SORT \<equiv> ''SorterSort''"
abbreviation (input) OP_V_FILTER :: string where "OP_V_FILTER \<equiv> ''VFilter''"
abbreviation (input) OP_V_NEXT :: string where "OP_V_NEXT \<equiv> ''VNext''"
abbreviation (input) OP_YIELD :: string where "OP_YIELD \<equiv> ''Yield''"
abbreviation (input) OP_JUMP :: string where "OP_JUMP \<equiv> ''Jump''"
abbreviation (input) OP_COLUMN :: string where "OP_COLUMN \<equiv> ''Column''"
abbreviation (input) OP_MAKE_RECORD :: string where "OP_MAKE_RECORD \<equiv> ''MakeRecord''"
abbreviation (input) OP_INSERT :: string where "OP_INSERT \<equiv> ''Insert''"
abbreviation (input) OP_IDX_INSERT :: string where "OP_IDX_INSERT \<equiv> ''IdxInsert''"
abbreviation (input) OP_OPEN_DUP :: string where "OP_OPEN_DUP \<equiv> ''OpenDup''"
abbreviation (input) OP_OPEN_PSEUDO :: string where "OP_OPEN_PSEUDO \<equiv> ''OpenPseudo''"
abbreviation (input) OP_OPEN_READ :: string where "OP_OPEN_READ \<equiv> ''OpenRead''"
abbreviation (input) OP_OPEN_WRITE :: string where "OP_OPEN_WRITE \<equiv> ''OpenWrite''"
abbreviation (input) OP_OPEN_EPHEMERAL :: string where "OP_OPEN_EPHEMERAL \<equiv> ''OpenEphemeral''"
abbreviation (input) OP_OPEN_AUTOINDEX :: string where "OP_OPEN_AUTOINDEX \<equiv> ''OpenAutoindex''"
abbreviation (input) OP_AGG_FINAL :: string where "OP_AGG_FINAL \<equiv> ''AggFinal''"
abbreviation (input) OP_AGG_VALUE :: string where "OP_AGG_VALUE \<equiv> ''AggValue''"
abbreviation (input) OP_AGG_STEP :: string where "OP_AGG_STEP \<equiv> ''AggStep''"
abbreviation (input) OP_FUNCTION :: string where "OP_FUNCTION \<equiv> ''Function''"
abbreviation (input) OP_MOVE :: string where "OP_MOVE \<equiv> ''Move''"
abbreviation (input) OP_COPY :: string where "OP_COPY \<equiv> ''Copy''"
abbreviation (input) OP_SCOPY :: string where "OP_SCOPY \<equiv> ''SCopy''"
abbreviation (input) OP_NULL :: string where "OP_NULL \<equiv> ''Null''"
abbreviation (input) OP_NULL_ROW :: string where "OP_NULL_ROW \<equiv> ''NullRow''"
abbreviation (input) OP_INT_COPY :: string where "OP_INT_COPY \<equiv> ''IntCopy''"
abbreviation (input) OP_CAST :: string where "OP_CAST \<equiv> ''Cast''"
abbreviation (input) OP_STRING8 :: string where "OP_STRING8 \<equiv> ''String8''"
abbreviation (input) OP_INT64 :: string where "OP_INT64 \<equiv> ''Int64''"
abbreviation (input) OP_INTEGER :: string where "OP_INTEGER \<equiv> ''Integer''"
abbreviation (input) OP_REAL :: string where "OP_REAL \<equiv> ''Real''"
abbreviation (input) OP_NOT :: string where "OP_NOT \<equiv> ''Not''"
abbreviation (input) OP_BLOB :: string where "OP_BLOB \<equiv> ''Blob''"
abbreviation (input) OP_VARIABLE :: string where "OP_VARIABLE \<equiv> ''Variable''"
abbreviation (input) OP_COUNT :: string where "OP_COUNT \<equiv> ''Count''"
abbreviation (input) OP_ROWID :: string where "OP_ROWID \<equiv> ''Rowid''"
abbreviation (input) OP_NEWROWID :: string where "OP_NEWROWID \<equiv> ''NewRowid''"
abbreviation (input) OP_OR :: string where "OP_OR \<equiv> ''Or''"
abbreviation (input) OP_AND :: string where "OP_AND \<equiv> ''And''"
abbreviation (input) OP_BIT_AND :: string where "OP_BIT_AND \<equiv> ''BitAnd''"
abbreviation (input) OP_BIT_OR :: string where "OP_BIT_OR \<equiv> ''BitOr''"
abbreviation (input) OP_SHIFT_LEFT :: string where "OP_SHIFT_LEFT \<equiv> ''ShiftLeft''"
abbreviation (input) OP_SHIFT_RIGHT :: string where "OP_SHIFT_RIGHT \<equiv> ''ShiftRight''"
abbreviation (input) OP_ADD :: string where "OP_ADD \<equiv> ''Add''"
abbreviation (input) OP_SUBTRACT :: string where "OP_SUBTRACT \<equiv> ''Subtract''"
abbreviation (input) OP_MULTIPLY :: string where "OP_MULTIPLY \<equiv> ''Multiply''"
abbreviation (input) OP_DIVIDE :: string where "OP_DIVIDE \<equiv> ''Divide''"
abbreviation (input) OP_REMAINDER :: string where "OP_REMAINDER \<equiv> ''Remainder''"
abbreviation (input) OP_CONCAT :: string where "OP_CONCAT \<equiv> ''Concat''"
abbreviation (input) OP_OFFSET_LIMIT :: string where "OP_OFFSET_LIMIT \<equiv> ''OffsetLimit''"
abbreviation (input) OP_RESULT_ROW :: string where "OP_RESULT_ROW \<equiv> ''ResultRow''"
abbreviation (input) OP_HALT :: string where "OP_HALT \<equiv> ''Halt''"
abbreviation (input) OP_HALT_IF_NULL :: string where "OP_HALT_IF_NULL \<equiv> ''HaltIfNull''"

definition opcode_to_type :: "string \<Rightarrow> data_type" where
  "opcode_to_type op =
     (if op = OP_REAL then TFloat
      else if op = OP_BLOB then TBlob
      else if op \<in> {OP_AND, OP_OR} then TBool
      else if op \<in> {OP_NEWROWID, OP_ROWID, OP_COUNT, OP_INT64, OP_INTEGER} then TInteger
      else if op = OP_STRING8 then TText
      else TNull)"

definition MAX_LOOP_COUNT :: nat where "MAX_LOOP_COUNT = 2"

definition MAX_TOTAL_INSTRUCTION_COUNT :: nat where "MAX_TOTAL_INSTRUCTION_COUNT = 100000"

text \<open>An \<^verbatim>\<open>as\<close> cast keeps the low bits.\<close>

definition as_usize :: "int \<Rightarrow> nat" where
  "as_usize p = nat (p mod 2 ^ 64)"

definition as_i64 :: "nat \<Rightarrow> int" where
  "as_i64 n = (int n + 2 ^ 63) mod 2 ^ 64 - 2 ^ 63"

definition as_u8 :: "int \<Rightarrow> u8" where
  "as_u8 p = word_of_int p"

definition i64 :: "int \<Rightarrow> int result" where
  "i64 x = (if - (2 ^ 63) \<le> x \<and> x < 2 ^ 63 then Ok x else Panic)"

subsection \<open>Branches\<close>

type_synonym instruction = "int \<times> string \<times> int \<times> int \<times> int \<times> bytes"

type_synonym root_columns = "(int \<times> int) \<rightharpoonup> column_type int_map"

record branch_parent =
  parent_id :: int
  parent_idx :: int

record memory_state =
  program_i :: nat
  regs :: "reg_data_type int_map"
  cursors :: "cursor_data_type int_map"
  tables :: "table_data_type int_map"

record query_state =
  visited :: "nat list"
  branch_id :: int
  instruction_counter :: int
  branch_parent :: "branch_parent option"
  mem :: memory_state
  q_result :: "(data_type option \<times> bool option) list option"

text \<open>The \<^verbatim>\<open>BranchList\<close> (its vector with the last state first), the \<^verbatim>\<open>Sequence\<close> and the rows found so far (the
  last first).\<close>

record explorer =
  branch_states :: "query_state list"
  visited_branch_state :: "(memory_state \<times> branch_parent) list"
  branch_seq :: int
  result_states :: "column_type list list"

text \<open>The derived comparisons; that of records goes through the map's.\<close>

function (sequential) ct_eq :: "column_type \<Rightarrow> column_type \<Rightarrow> bool" where
  "ct_eq (CSingle d n) (CSingle d' n') \<longleftrightarrow> d = d' \<and> n = n'"
| "ct_eq (CRecord r) (CRecord r') \<longleftrightarrow> im_eq ct_eq r r'"
| "ct_eq _ _ \<longleftrightarrow> False"
  by pat_completeness auto

termination
proof (relation "measure (\<lambda>(a, b). size a + size b)")
  have s: "size x < size_list (size_option size) r" if "Some x \<in> set r" for x :: column_type and r
    using that by (induction r) auto
  fix r r' :: "column_type option list" and x y :: column_type
  assume "Some x \<in> set r" "Some y \<in> set r'"
  from s [OF this(1)] s [OF this(2)]
  show "((x, y), CRecord r, CRecord r') \<in> measure (\<lambda>(a, b). size a + size b)"
    "((y, x), CRecord r, CRecord r') \<in> measure (\<lambda>(a, b). size a + size b)" by simp_all
qed simp

definition reg_eq :: "reg_data_type \<Rightarrow> reg_data_type \<Rightarrow> bool" where
  "reg_eq a b = (case (a, b) of (RSingle c, RSingle d) \<Rightarrow> ct_eq c d | (RInt i, RInt j) \<Rightarrow> i = j | _ \<Rightarrow> False)"

definition table_eq :: "table_data_type \<Rightarrow> table_data_type \<Rightarrow> bool" where
  "table_eq a b \<longleftrightarrow> im_eq ct_eq (cols a) (cols b) \<and> is_empty a = is_empty b"

definition mem_eq :: "memory_state \<Rightarrow> memory_state \<Rightarrow> bool" where
  "mem_eq a b \<longleftrightarrow> program_i a = program_i b \<and> im_eq reg_eq (regs a) (regs b) \<and>
     im_eq (=) (cursors a) (cursors b) \<and> im_eq table_eq (tables a) (tables b)"

definition get_reference :: "query_state \<Rightarrow> branch_parent" where
  "get_reference st = \<lparr>parent_id = branch_id st, parent_idx = instruction_counter st\<rparr>"

definition seq_next :: "explorer \<Rightarrow> int \<times> explorer" where
  "seq_next X = (branch_seq X, X\<lparr>branch_seq := branch_seq X + 1\<rparr>)"

definition new_branch :: "query_state \<Rightarrow> explorer \<Rightarrow> query_state \<times> explorer" where
  "new_branch st X =
     (let (n, X) = seq_next X in
      (\<lparr>visited = visited st, branch_id = n, instruction_counter = 0,
        branch_parent = Some \<lparr>parent_id = branch_id st, parent_idx = instruction_counter st - 1\<rparr>,
        mem = mem st, q_result = q_result st\<rparr>, X))"

definition branch_push :: "query_state \<Rightarrow> explorer \<Rightarrow> explorer result" where
  "branch_push st X =
     rassert (branch_parent st \<noteq> None)
       (Ok (if list_ex (\<lambda>(m, _). mem_eq m (mem st)) (visited_branch_state X) then X
            else X\<lparr>visited_branch_state := (mem st, get_reference st) # visited_branch_state X,
                   branch_states := st # branch_states X\<rparr>))"

definition branch_pop :: "explorer \<Rightarrow> (query_state \<times> explorer) option" where
  "branch_pop X =
     (case branch_states X of [] \<Rightarrow> None | st # rest \<Rightarrow> Some (st, X\<lparr>branch_states := rest\<rparr>))"

text \<open>Writes to the memory of a state.\<close>

definition with_mem :: "(memory_state \<Rightarrow> memory_state) \<Rightarrow> query_state \<Rightarrow> query_state" where
  "with_mem f st = st\<lparr>mem := f (mem st)\<rparr>"

definition goto_i :: "nat \<Rightarrow> query_state \<Rightarrow> query_state" where
  "goto_i i = with_mem (\<lambda>m. m\<lparr>program_i := i\<rparr>)"

definition next_i :: "query_state \<Rightarrow> query_state" where
  "next_i = with_mem (\<lambda>m. m\<lparr>program_i := program_i m + 1\<rparr>)"

definition set_reg :: "int \<Rightarrow> reg_data_type \<Rightarrow> query_state \<Rightarrow> query_state result" where
  "set_reg i v st = rbind (im_insert i v (regs (mem st))) (\<lambda>(r, _). Ok (with_mem (\<lambda>m. m\<lparr>regs := r\<rparr>) st))"

definition get_reg :: "int \<Rightarrow> query_state \<Rightarrow> reg_data_type option result" where
  "get_reg i st = im_get (regs (mem st)) i"

definition reg_mut :: "int \<Rightarrow> (reg_data_type \<Rightarrow> reg_data_type) \<Rightarrow> query_state \<Rightarrow> query_state result" where
  "reg_mut i f st = rbind (im_get_mut i f (regs (mem st))) (\<lambda>r. Ok (with_mem (\<lambda>m. m\<lparr>regs := r\<rparr>) st))"

definition remove_reg :: "int \<Rightarrow> query_state \<Rightarrow> query_state result" where
  "remove_reg i st = rbind (im_remove i (regs (mem st))) (\<lambda>(r, _). Ok (with_mem (\<lambda>m. m\<lparr>regs := r\<rparr>) st))"

definition get_cursor :: "int \<Rightarrow> query_state \<Rightarrow> cursor_data_type option result" where
  "get_cursor i st = im_get (cursors (mem st)) i"

definition set_cursor :: "int \<Rightarrow> cursor_data_type \<Rightarrow> query_state \<Rightarrow> query_state result" where
  "set_cursor i c st = rbind (im_insert i c (cursors (mem st))) (\<lambda>(p, _). Ok (with_mem (\<lambda>m. m\<lparr>cursors := p\<rparr>) st))"

definition set_table :: "int \<Rightarrow> table_data_type \<Rightarrow> query_state \<Rightarrow> query_state result" where
  "set_table i tb st = rbind (im_insert i tb (tables (mem st))) (\<lambda>(t, _). Ok (with_mem (\<lambda>m. m\<lparr>tables := t\<rparr>) st))"

text \<open>What the cursor in register \<open>i\<close> of the cursors points to, changed in place.\<close>

definition cursor_table_update :: "int \<Rightarrow> (table_data_type \<Rightarrow> table_data_type) \<Rightarrow> query_state \<Rightarrow> query_state result" where
  "cursor_table_update i f st =
     rbind (get_cursor i st) (\<lambda>c.
       case c of
         None \<Rightarrow> Ok st
       | Some c \<Rightarrow> rbind (cursor_table_mut c f (tables (mem st))) (\<lambda>t. Ok (with_mem (\<lambda>m. m\<lparr>tables := t\<rparr>) st)))"

text \<open>\<open>Fall\<close>: the arm ends and the next instruction follows; \<open>Continue\<close> and \<open>Break\<close>
  are Rust's.\<close>

datatype flow = Fall query_state | Continue query_state | Break

text \<open>\<^verbatim>\<open>new_branch\<close>, what is done to it, \<^verbatim>\<open>states.push\<close>.\<close>

definition fork :: "(query_state \<Rightarrow> query_state result) \<Rightarrow> query_state \<Rightarrow> explorer \<Rightarrow> explorer result" where
  "fork f st X = (let (b, X) = new_branch st X in rbind (f b) (\<lambda>b. branch_push b X))"

definition fork_to :: "int \<Rightarrow> query_state \<Rightarrow> explorer \<Rightarrow> explorer result" where
  "fork_to p = fork (\<lambda>b. Ok (goto_i (as_usize p) b))"

subsection \<open>The arms of the interpreter\<close>

type_synonym op_result = "(flow \<times> explorer) result"

definition op_goto :: "int \<Rightarrow> query_state \<Rightarrow> explorer \<Rightarrow> op_result" where
  "op_goto p2 st X = Ok (Continue (goto_i (as_usize p2) st), X)"

definition op_go_sub :: "int \<Rightarrow> int \<Rightarrow> query_state \<Rightarrow> explorer \<Rightarrow> op_result" where
  "op_go_sub p1 p2 st X =
     rbind (set_reg p1 (RInt (as_i64 (program_i (mem st)))) st) (\<lambda>st. Ok (Continue (goto_i (as_usize p2) st), X))"

definition op_branch :: "int \<Rightarrow> query_state \<Rightarrow> explorer \<Rightarrow> op_result" where
  "op_branch p2 st X = rbind (fork_to p2 st X) (\<lambda>X. Ok (Continue (next_i st), X))"

definition op_is_null :: "int \<Rightarrow> int \<Rightarrow> query_state \<Rightarrow> explorer \<Rightarrow> op_result" where
  "op_is_null p1 p2 st X =
     rbind (get_reg p1 st) (\<lambda>v.
       let might_branch = (case v of Some r \<Rightarrow> reg_nullable r \<noteq> Some False | None \<Rightarrow> False);
           might_not_branch = (case v of Some r \<Rightarrow> reg_datatype r \<noteq> TNull | None \<Rightarrow> False) in
       rbind (if might_branch
              then fork (\<lambda>b. set_reg p1 (RSingle column_default) (goto_i (as_usize p2) b)) st X
              else Ok X) (\<lambda>X.
       if might_not_branch
       then rbind (reg_mut p1 (reg_set_nullable False) (next_i st)) (\<lambda>st. Ok (Continue st, X))
       else Ok (Break, X)))"

definition op_not_null :: "int \<Rightarrow> int \<Rightarrow> query_state \<Rightarrow> explorer \<Rightarrow> op_result" where
  "op_not_null p1 p2 st X =
     rbind (get_reg p1 st) (\<lambda>v.
       let might_branch = (case v of Some r \<Rightarrow> reg_datatype r \<noteq> TNull | None \<Rightarrow> False);
           might_not_branch = (case v of Some r \<Rightarrow> reg_nullable r \<noteq> Some False | None \<Rightarrow> False) in
       rbind (if might_branch
              then fork (\<lambda>b. reg_mut p1 (reg_set_nullable False) (goto_i (as_usize p2) b)) st X
              else Ok X) (\<lambda>X.
       if might_not_branch
       then rbind (set_reg p1 (RSingle column_default) (next_i st)) (\<lambda>st. Ok (Continue st, X))
       else Ok (Break, X)))"

definition op_must_be_int :: "int \<Rightarrow> query_state \<Rightarrow> explorer \<Rightarrow> op_result" where
  "op_must_be_int p2 st X =
     rbind (if p2 \<noteq> 0 then fork_to p2 st X else Ok X) (\<lambda>X. Ok (Continue (next_i st), X))"

definition op_if :: "int \<Rightarrow> int \<Rightarrow> int \<Rightarrow> query_state \<Rightarrow> explorer \<Rightarrow> op_result" where
  "op_if p1 p2 p3 st X =
     rbind (get_reg p1 st) (\<lambda>v.
       let might_branch = (case v of Some (RInt i) \<Rightarrow> i \<noteq> 0 | _ \<Rightarrow> True);
           might_not_branch = (case v of Some (RInt i) \<Rightarrow> i = 0 | _ \<Rightarrow> True) in
       rbind (if might_branch
              then fork (\<lambda>b. let b = goto_i (as_usize p2) b in if p3 = 0 then set_reg p1 (RInt 1) b else Ok b) st X
              else Ok X) (\<lambda>X.
       if might_not_branch
       then rbind (if p3 = 0 then set_reg p1 (RInt 0) (next_i st) else Ok (next_i st)) (\<lambda>st. Ok (Continue st, X))
       else Ok (Break, X)))"

text \<open>\<open>*r_p1 -= 1\<close>, when the register holds an integer.\<close>

definition decrement_reg :: "int \<Rightarrow> query_state \<Rightarrow> query_state result" where
  "decrement_reg p1 b =
     rbind (get_reg p1 b) (\<lambda>v.
       case v of Some (RInt i) \<Rightarrow> rbind (i64 (i - 1)) (\<lambda>j. reg_mut p1 (\<lambda>_. RInt j) b) | _ \<Rightarrow> Ok b)"

definition op_if_pos :: "int \<Rightarrow> int \<Rightarrow> query_state \<Rightarrow> explorer \<Rightarrow> op_result" where
  "op_if_pos p1 p2 st X =
     rbind (get_reg p1 st) (\<lambda>v.
       let might_branch = (case v of Some (RInt i) \<Rightarrow> 1 \<le> i | _ \<Rightarrow> True);
           might_not_branch = (case v of Some (RInt i) \<Rightarrow> i < 1 | _ \<Rightarrow> True);
           loop_detected = 1 < visited st ! program_i (mem st) in
       rbind (if might_branch \<or> loop_detected
              then fork (\<lambda>b. decrement_reg p1 (goto_i (as_usize p2) b)) st X
              else Ok X) (\<lambda>X.
       if might_not_branch then Ok (Continue (next_i st), X)
       else if loop_detected
       then rbind (case v of
                     Some (RInt _) \<Rightarrow> set_reg p1 (RSingle (CSingle TInteger (Some False))) (next_i st)
                   | _ \<Rightarrow> Ok (next_i st)) (\<lambda>st. Ok (Continue st, X))
       else Ok (Break, X)))"

definition op_rewind :: "int \<Rightarrow> int \<Rightarrow> query_state \<Rightarrow> explorer \<Rightarrow> op_result" where
  "op_rewind p1 p2 st X =
     (if p2 = 0 then Ok (Continue (next_i st), X)
      else
        rbind (get_cursor p1 st) (\<lambda>c.
          case c of
            None \<Rightarrow> Ok (Break, X)
          | Some c \<Rightarrow>
              rbind (cursor_is_empty c (tables (mem st))) (\<lambda>e.
                rbind (if e \<noteq> Some False
                       then fork (\<lambda>b. cursor_table_update p1 (is_empty_update (\<lambda>_. Some True)) (goto_i (as_usize p2) b)) st X
                       else Ok X) (\<lambda>X.
                if e \<noteq> Some True then Ok (Continue (next_i st), X) else Ok (Break, X)))))"

definition op_init_coroutine :: "int \<Rightarrow> int \<Rightarrow> int \<Rightarrow> query_state \<Rightarrow> explorer \<Rightarrow> op_result" where
  "op_init_coroutine p1 p2 p3 st X =
     rbind (set_reg p1 (RInt p3) st) (\<lambda>st.
       Ok (Continue (if p2 \<noteq> 0 then goto_i (as_usize p2) st else next_i st), X))"

definition program_get :: "instruction list \<Rightarrow> nat \<Rightarrow> instruction option" where
  "program_get P i = (if i < length P then Some (P ! i) else None)"

definition op_end_coroutine :: "instruction list \<Rightarrow> int \<Rightarrow> query_state \<Rightarrow> explorer \<Rightarrow> op_result" where
  "op_end_coroutine P p1 st X =
     rbind (get_reg p1 st) (\<lambda>v.
       case v of
         Some (RInt yield_i) \<Rightarrow>
           (case program_get P (as_usize yield_i) of
              Some (_, yield_op, _, yield_p2, _, _) \<Rightarrow>
                if yield_op = OP_YIELD
                then rbind (remove_reg p1 (goto_i (as_usize yield_p2) st)) (\<lambda>st. Ok (Continue st, X))
                else Ok (Break, X)
            | None \<Rightarrow> Ok (Break, X))
       | _ \<Rightarrow> Ok (Break, X))"

definition op_return :: "int \<Rightarrow> int \<Rightarrow> query_state \<Rightarrow> explorer \<Rightarrow> op_result" where
  "op_return p1 p3 st X =
     rbind (get_reg p1 st) (\<lambda>v.
       case v of
         Some (RInt return_i) \<Rightarrow>
           rbind (i64 (return_i + 1)) (\<lambda>i.
             rbind (remove_reg p1 (goto_i (as_usize i) st)) (\<lambda>st. Ok (Continue st, X)))
       | _ \<Rightarrow> if p3 = 1 then Ok (Continue (next_i st), X) else Ok (Break, X))"

definition op_yield :: "instruction list \<Rightarrow> int \<Rightarrow> query_state \<Rightarrow> explorer \<Rightarrow> op_result" where
  "op_yield P p1 st X =
     rbind (get_reg p1 st) (\<lambda>v.
       case v of
         Some (RInt yield_i) \<Rightarrow>
           rbind (if map_option (\<lambda>(_, yield_op, _). yield_op) (program_get P (as_usize yield_i)) = Some OP_YIELD
                  then i64 (yield_i + 1) else Ok yield_i) (\<lambda>target.
             rbind (reg_mut p1 (\<lambda>_. RInt (as_i64 (program_i (mem st)))) (goto_i (as_usize target) st))
               (\<lambda>st. Ok (Continue st, X)))
       | _ \<Rightarrow> Ok (Break, X))"

definition op_jump :: "int \<Rightarrow> int \<Rightarrow> int \<Rightarrow> query_state \<Rightarrow> explorer \<Rightarrow> op_result" where
  "op_jump p1 p2 p3 st X =
     rbind (fork_to p1 st X) (\<lambda>X. rbind (fork_to p2 st X) (\<lambda>X. rbind (fork_to p3 st X) (\<lambda>X. Ok (Fall st, X))))"

text \<open>The arms below do not branch: they change the state and fall through.\<close>

definition op_column :: "int \<Rightarrow> int \<Rightarrow> int \<Rightarrow> query_state \<Rightarrow> query_state result" where
  "op_column p1 p2 p3 st =
     rbind (get_cursor p1 st) (\<lambda>c.
     rbind (case c of None \<Rightarrow> Ok None | Some c \<Rightarrow> cursor_columns c (tables (mem st)) (regs (mem st))) (\<lambda>cc.
     rbind (case cc of None \<Rightarrow> Ok None | Some cc \<Rightarrow> im_get cc p2) (\<lambda>v.
       set_reg p3 (RSingle (case v of Some v \<Rightarrow> v | None \<Rightarrow> column_default)) st)))"

definition op_sequence :: "int \<Rightarrow> query_state \<Rightarrow> query_state result" where
  "op_sequence p2 st = set_reg p2 (RSingle (CSingle TInteger (Some False))) st"

definition op_row_data :: "int \<Rightarrow> int \<Rightarrow> query_state \<Rightarrow> query_state result" where
  "op_row_data p1 p2 st =
     rbind (get_cursor p1 st) (\<lambda>c.
     rbind (case c of None \<Rightarrow> Ok None | Some c \<Rightarrow> cursor_columns c (tables (mem st)) (regs (mem st))) (\<lambda>record.
       set_reg p2 (RSingle (CRecord (case record of Some r \<Rightarrow> r | None \<Rightarrow> im_new))) st))"

fun read_regs :: "int list \<Rightarrow> query_state \<Rightarrow> column_type list result" where
  "read_regs [] st = Ok []"
| "read_regs (i # is) st =
     rbind (get_reg i st) (\<lambda>v.
     rbind (read_regs is st) (\<lambda>vs.
       Ok ((case v of Some d \<Rightarrow> reg_columntype d | None \<Rightarrow> column_default) # vs)))"

text \<open>\<^verbatim>\<open>Vec::with_capacity\<close> panics when a negative count becomes a huge capacity.\<close>

definition op_make_record :: "int \<Rightarrow> int \<Rightarrow> int \<Rightarrow> query_state \<Rightarrow> query_state result" where
  "op_make_record p1 p2 p3 st =
     rassert (0 \<le> p2)
       (rbind (i64 (p1 + p2)) (\<lambda>e.
        rbind (read_regs [p1..e - 1] st) (\<lambda>record.
          set_reg p3 (RSingle (CRecord (im_from_dense_record record))) st)))"

definition op_insert :: "int \<Rightarrow> int \<Rightarrow> query_state \<Rightarrow> query_state result" where
  "op_insert p1 p2 st =
     rbind (get_reg p2 st) (\<lambda>v.
       case v of
         Some (RSingle (CRecord record)) \<Rightarrow>
           cursor_table_update p1 (\<lambda>tb. tb\<lparr>cols := record, is_empty := Some False\<rparr>) st
       | Some (RSingle (CSingle d _)) \<Rightarrow>
           if d = TNull then cursor_table_update p1 (\<lambda>tb. tb\<lparr>is_empty := Some False\<rparr>) st else Ok st
       | _ \<Rightarrow> Ok st)"

definition op_delete :: "int \<Rightarrow> query_state \<Rightarrow> query_state result" where
  "op_delete p1 st =
     cursor_table_update p1 (\<lambda>tb. if is_empty tb = Some False then tb\<lparr>is_empty := None\<rparr> else tb) st"

definition op_open_pseudo :: "int \<Rightarrow> int \<Rightarrow> query_state \<Rightarrow> query_state result" where
  "op_open_pseudo p1 p2 st = set_cursor p1 (Pseudo p2) st"

definition op_open_dup :: "int \<Rightarrow> int \<Rightarrow> query_state \<Rightarrow> query_state result" where
  "op_open_dup p1 p2 st =
     rbind (get_cursor p2 st) (\<lambda>c. case c of Some cur \<Rightarrow> set_cursor p1 cur st | None \<Rightarrow> Ok st)"

text \<open>A table named after the instruction that opened it, and the cursor on it.\<close>

definition open_table :: "int \<Rightarrow> table_data_type \<Rightarrow> query_state \<Rightarrow> query_state result" where
  "open_table p1 tb st =
     rbind (set_table (as_i64 (program_i (mem st))) tb st)
       (\<lambda>st. set_cursor p1 (Normal (as_i64 (program_i (mem st)))) st)"

definition op_open_read :: "root_columns \<Rightarrow> int \<Rightarrow> int \<Rightarrow> int \<Rightarrow> query_state \<Rightarrow> query_state result" where
  "op_open_read C p1 p2 p3 st =
     open_table p1
       \<lparr>cols = (if p3 = 0 \<or> p3 = 1 then (case C (p3, p2) of Some columns \<Rightarrow> columns | None \<Rightarrow> im_new) else im_new),
        is_empty = None\<rparr> st"

definition op_open_ephemeral :: "int \<Rightarrow> int \<Rightarrow> query_state \<Rightarrow> query_state result" where
  "op_open_ephemeral p1 p2 st =
     rassert (0 \<le> p2) (open_table p1 \<lparr>cols = im_from_elem column_null (as_usize p2), is_empty = Some True\<rparr> st)"

definition op_variable :: "int \<Rightarrow> query_state \<Rightarrow> query_state result" where
  "op_variable p2 st = set_reg p2 (RSingle column_null) st"

definition op_halt_if_null :: "int \<Rightarrow> query_state \<Rightarrow> query_state result" where
  "op_halt_if_null p3 st = reg_mut p3 (reg_set_nullable False) st"

definition p4_text :: "bytes \<Rightarrow> bytes result" where
  "p4_text p4 = (if valid_utf8 p4 then Ok p4 else Err (Protocol ''invalid utf-8''))"

definition op_function :: "int \<Rightarrow> int \<Rightarrow> bytes \<Rightarrow> query_state \<Rightarrow> query_state result" where
  "op_function p2 p3 p4 st =
     rbind (p4_text p4) (\<lambda>f.
       if f = ascii ''last_insert_rowid(0)'' then set_reg p3 (RSingle (CSingle TInteger (Some False))) st
       else if f = ascii ''date(-1)'' \<or> f = ascii ''time(-1)'' \<or> f = ascii ''datetime(-1)'' \<or> f = ascii ''strftime(-1)''
       then set_reg p3 (RSingle (CSingle TText (Some (p2 \<noteq> 0)))) st
       else if f = ascii ''julianday(-1)'' then set_reg p3 (RSingle (CSingle TFloat (Some (p2 \<noteq> 0)))) st
       else if f = ascii ''unixepoch(-1)'' then set_reg p3 (RSingle (CSingle TInteger (Some (p2 \<noteq> 0)))) st
       else Ok st)"

definition op_null_row :: "int \<Rightarrow> query_state \<Rightarrow> query_state result" where
  "op_null_row p1 st =
     rbind (get_cursor p1 st) (\<lambda>c.
       case c of
         None \<Rightarrow> Ok st
       | Some c \<Rightarrow>
           rbind (cursor_columns_mut c (im_map_values (ct_set_nullable True)) (tables (mem st)) (regs (mem st)))
             (\<lambda>(t, r). Ok (with_mem (\<lambda>m. m\<lparr>tables := t, regs := r\<rparr>) st)))"

definition is_rank :: "bytes \<Rightarrow> bool" where
  "is_rank f \<longleftrightarrow> list_ex (\<lambda>n. starts_with f (ascii n)) [''count('', ''row_number('', ''rank('', ''dense_rank('', ''ntile('']"

definition is_fraction :: "bytes \<Rightarrow> bool" where
  "is_fraction f \<longleftrightarrow> starts_with f (ascii ''percent_rank('') \<or> starts_with f (ascii ''cume_dist'')"

definition is_neighbour :: "bytes \<Rightarrow> bool" where
  "is_neighbour f \<longleftrightarrow> starts_with f (ascii ''lead('') \<or> starts_with f (ascii ''lag('')"

definition sum_type :: "data_type \<Rightarrow> data_type" where
  "sum_type d = (if d \<in> {TInteger, TInt4, TBool} then TInteger else TFloat)"

definition op_agg_step :: "int \<Rightarrow> int \<Rightarrow> bytes \<Rightarrow> query_state \<Rightarrow> query_state result" where
  "op_agg_step p2 p3 p4 st =
     rbind (p4_text p4) (\<lambda>f.
       if is_rank f then set_reg p3 (RSingle (CSingle TInteger (Some False))) st
       else if is_fraction f then set_reg p3 (RSingle (CSingle TFloat (Some False))) st
       else
         rbind (get_reg p2 st) (\<lambda>v.
           case v of
             None \<Rightarrow> Ok st
           | Some r \<Rightarrow>
               if starts_with f (ascii ''sum('')
               then set_reg p3 (RSingle (CSingle (sum_type (reg_datatype r)) (reg_nullable r))) st
               else if is_neighbour f then set_reg p3 (RSingle (CSingle (reg_datatype r) (Some True))) st
               else set_reg p3 r st))"

definition op_agg_final :: "int \<Rightarrow> int \<Rightarrow> int \<Rightarrow> bytes \<Rightarrow> query_state \<Rightarrow> query_state result" where
  "op_agg_final p1 p2 p3 p4 st =
     rbind (p4_text p4) (\<lambda>f.
       if is_rank f then set_reg p1 (RSingle (CSingle TInteger (Some False))) st
       else if is_fraction f then set_reg p3 (RSingle (CSingle TFloat (Some False))) st
       else if is_neighbour f then
         rbind (get_reg p2 st) (\<lambda>v.
           case v of None \<Rightarrow> Ok st | Some r \<Rightarrow> set_reg p3 (RSingle (CSingle (reg_datatype r) (Some True))) st)
       else Ok st)"

definition op_cast :: "int \<Rightarrow> int \<Rightarrow> query_state \<Rightarrow> query_state result" where
  "op_cast p1 p2 st =
     reg_mut p1 (\<lambda>v. RSingle (CSingle (affinity_to_type (as_u8 p2)) (reg_nullable v))) st"

definition op_scopy :: "int \<Rightarrow> int \<Rightarrow> query_state \<Rightarrow> query_state result" where
  "op_scopy p1 p2 st =
     rbind (get_reg p1 st) (\<lambda>v. case v of Some v \<Rightarrow> set_reg p2 v st | None \<Rightarrow> Ok st)"

fun copy_regs :: "int \<Rightarrow> int \<Rightarrow> int list \<Rightarrow> query_state \<Rightarrow> query_state result" where
  "copy_regs p1 p2 [] st = Ok st"
| "copy_regs p1 p2 (i # is) st =
     rbind (i64 (p1 + i)) (\<lambda>src. rbind (i64 (p2 + i)) (\<lambda>dst.
     rbind (get_reg src st) (\<lambda>v.
     rbind (case v of Some v \<Rightarrow> set_reg dst v st | None \<Rightarrow> Ok st) (copy_regs p1 p2 is))))"

definition op_copy :: "int \<Rightarrow> int \<Rightarrow> int \<Rightarrow> query_state \<Rightarrow> query_state result" where
  "op_copy p1 p2 p3 st = (if 0 \<le> p3 then copy_regs p1 p2 [0..p3] st else Ok st)"

fun move_regs :: "int \<Rightarrow> int \<Rightarrow> int list \<Rightarrow> query_state \<Rightarrow> query_state result" where
  "move_regs p1 p2 [] st = Ok st"
| "move_regs p1 p2 (i # is) st =
     rbind (i64 (p1 + i)) (\<lambda>src. rbind (i64 (p2 + i)) (\<lambda>dst.
     rbind (get_reg src st) (\<lambda>v.
     rbind (case v of Some v \<Rightarrow> rbind (set_reg dst v st) (set_reg src (RSingle column_null)) | None \<Rightarrow> Ok st)
       (move_regs p1 p2 is))))"

definition op_move :: "int \<Rightarrow> int \<Rightarrow> int \<Rightarrow> query_state \<Rightarrow> query_state result" where
  "op_move p1 p2 p3 st = (if 1 \<le> p3 then move_regs p1 p2 [0..p3 - 1] st else Ok st)"

definition op_integer :: "int \<Rightarrow> int \<Rightarrow> query_state \<Rightarrow> query_state result" where
  "op_integer p1 p2 st = set_reg p2 (RInt p1) st"

definition op_constant :: "string \<Rightarrow> int \<Rightarrow> query_state \<Rightarrow> query_state result" where
  "op_constant op p2 st = set_reg p2 (RSingle (CSingle (opcode_to_type op) (Some False))) st"

definition op_not :: "int \<Rightarrow> int \<Rightarrow> query_state \<Rightarrow> query_state result" where
  "op_not p1 p2 st =
     rbind (get_reg p1 st) (\<lambda>v. case v of Some a \<Rightarrow> set_reg p2 a st | None \<Rightarrow> Ok st)"

fun null_regs :: "int list \<Rightarrow> query_state \<Rightarrow> query_state result" where
  "null_regs [] st = Ok st"
| "null_regs (i # is) st = rbind (set_reg i (RSingle column_null) st) (null_regs is)"

definition op_null :: "int \<Rightarrow> int \<Rightarrow> query_state \<Rightarrow> query_state result" where
  "op_null p2 p3 st = null_regs (if p2 < p3 then [p2..p3] else [p2]) st"

definition join_nullable :: "bool option \<Rightarrow> bool option \<Rightarrow> bool option" where
  "join_nullable a b =
     (case (a, b) of
        (Some x, Some y) \<Rightarrow> Some (x \<or> y) | (Some x, None) \<Rightarrow> Some x | (None, Some y) \<Rightarrow> Some y | (None, None) \<Rightarrow> None)"

definition op_binary :: "int \<Rightarrow> int \<Rightarrow> int \<Rightarrow> query_state \<Rightarrow> query_state result" where
  "op_binary p1 p2 p3 st =
     rbind (get_reg p1 st) (\<lambda>a. rbind (get_reg p2 st) (\<lambda>b.
       set_reg p3
         (case (a, b) of
            (Some a, Some b) \<Rightarrow>
              RSingle (CSingle (if reg_datatype a = TNull then reg_datatype b else reg_datatype a)
                 (join_nullable (reg_nullable a) (reg_nullable b)))
          | (Some v, None) \<Rightarrow> RSingle (CSingle (reg_datatype v) None)
          | (None, Some v) \<Rightarrow> RSingle (CSingle (reg_datatype v) None)
          | (None, None) \<Rightarrow> reg_default) st))"

definition op_offset_limit :: "int \<Rightarrow> query_state \<Rightarrow> query_state result" where
  "op_offset_limit p2 st = set_reg p2 (RSingle (CSingle TInteger (Some False))) st"

definition op_result_row :: "int \<Rightarrow> int \<Rightarrow> query_state \<Rightarrow> explorer \<Rightarrow> op_result" where
  "op_result_row p1 p2 st X =
     rbind (i64 (p1 + p2)) (\<lambda>e.
     rbind (read_regs [p1..e - 1] st) (\<lambda>res.
     rbind (fork (\<lambda>b. Ok (next_i b)) st X) (\<lambda>X.
       Ok (Break, X\<lparr>result_states := res # result_states X\<rparr>))))"

definition goto_ops :: "string list" where
  "goto_ops = [OP_INIT, OP_GOTO, OP_FK_IF_ZERO]"

definition branch_ops :: "string list" where
  "branch_ops =
     [OP_DECR_JUMP_ZERO, OP_ELSE_EQ, OP_EQ, OP_FILTER, OP_FOUND, OP_GE, OP_GT, OP_IDX_GE, OP_IDX_GT, OP_IDX_LE,
      OP_IDX_LT, OP_IF_NO_HOPE, OP_IF_NOT, OP_IF_NOT_OPEN, OP_IF_NOT_ZERO, OP_IF_NULL_ROW, OP_IF_SMALLER,
      OP_INCR_VACUUM, OP_IS_NULL_OR_TYPE, OP_LE, OP_LT, OP_NE, OP_NEXT, OP_NO_CONFLICT, OP_NOT_EXISTS, OP_ONCE,
      OP_PREV, OP_PROGRAM, OP_ROW_SET_READ, OP_ROW_SET_TEST, OP_SEEK_GE, OP_SEEK_GT, OP_SEEK_LE, OP_SEEK_LT,
      OP_SEEK_ROW_ID, OP_SEEK_SCAN, OP_SEQUENCE_TEST, OP_SORTER_NEXT, OP_V_FILTER, OP_V_NEXT]"

definition rewind_ops :: "string list" where
  "rewind_ops = [OP_REWIND, OP_LAST, OP_SORT, OP_SORTER_SORT]"

definition binary_ops :: "string list" where
  "binary_ops =
     [OP_OR, OP_AND, OP_BIT_AND, OP_BIT_OR, OP_SHIFT_LEFT, OP_SHIFT_RIGHT, OP_ADD, OP_SUBTRACT, OP_MULTIPLY,
      OP_DIVIDE, OP_REMAINDER, OP_CONCAT]"

text \<open>The arms that only change the state; \<open>None\<close> for an opcode that has no arm here.\<close>

definition exec_data :: "root_columns \<Rightarrow> string \<Rightarrow> int \<Rightarrow> int \<Rightarrow> int \<Rightarrow> bytes \<Rightarrow> query_state \<Rightarrow> query_state result option" where
  "exec_data C op p1 p2 p3 p4 st =
     (if op = OP_COLUMN then Some (op_column p1 p2 p3 st)
      else if op = OP_SEQUENCE then Some (op_sequence p2 st)
      else if op \<in> {OP_ROW_DATA, OP_SORTER_DATA} then Some (op_row_data p1 p2 st)
      else if op = OP_MAKE_RECORD then Some (op_make_record p1 p2 p3 st)
      else if op \<in> {OP_INSERT, OP_IDX_INSERT, OP_SORTER_INSERT} then Some (op_insert p1 p2 st)
      else if op = OP_DELETE then Some (op_delete p1 st)
      else if op = OP_OPEN_PSEUDO then Some (op_open_pseudo p1 p2 st)
      else if op = OP_OPEN_DUP then Some (op_open_dup p1 p2 st)
      else if op \<in> {OP_OPEN_READ, OP_OPEN_WRITE} then Some (op_open_read C p1 p2 p3 st)
      else if op \<in> {OP_OPEN_EPHEMERAL, OP_OPEN_AUTOINDEX, OP_SORTER_OPEN} then Some (op_open_ephemeral p1 p2 st)
      else if op = OP_VARIABLE then Some (op_variable p2 st)
      else if op = OP_HALT_IF_NULL then Some (op_halt_if_null p3 st)
      else if op = OP_FUNCTION then Some (op_function p2 p3 p4 st)
      else if op = OP_NULL_ROW then Some (op_null_row p1 st)
      else if op \<in> {OP_AGG_STEP, OP_AGG_VALUE} then Some (op_agg_step p2 p3 p4 st)
      else if op = OP_AGG_FINAL then Some (op_agg_final p1 p2 p3 p4 st)
      else if op = OP_CAST then Some (op_cast p1 p2 st)
      else if op \<in> {OP_SCOPY, OP_INT_COPY} then Some (op_scopy p1 p2 st)
      else if op = OP_COPY then Some (op_copy p1 p2 p3 st)
      else if op = OP_MOVE then Some (op_move p1 p2 p3 st)
      else if op = OP_INTEGER then Some (op_integer p1 p2 st)
      else if op \<in> {OP_BLOB, OP_COUNT, OP_REAL, OP_STRING8, OP_ROWID, OP_NEWROWID} then Some (op_constant op p2 st)
      else if op = OP_NOT then Some (op_not p1 p2 st)
      else if op = OP_NULL then Some (op_null p2 p3 st)
      else if op \<in> set binary_ops then Some (op_binary p1 p2 p3 st)
      else if op = OP_OFFSET_LIMIT then Some (op_offset_limit p2 st)
      else None)"

definition exec_op :: "instruction list \<Rightarrow> root_columns \<Rightarrow> instruction \<Rightarrow> query_state \<Rightarrow> explorer \<Rightarrow> op_result" where
  "exec_op P C ins st X =
     (case ins of (_, op, p1, p2, p3, p4) \<Rightarrow>
      if op \<in> set goto_ops then op_goto p2 st X
      else if op = OP_GO_SUB then op_go_sub p1 p2 st X
      else if op \<in> set branch_ops then op_branch p2 st X
      else if op = OP_IS_NULL then op_is_null p1 p2 st X
      else if op = OP_NOT_NULL then op_not_null p1 p2 st X
      else if op = OP_MUST_BE_INT then op_must_be_int p2 st X
      else if op = OP_IF then op_if p1 p2 p3 st X
      else if op = OP_IF_POS then op_if_pos p1 p2 st X
      else if op \<in> set rewind_ops then op_rewind p1 p2 st X
      else if op = OP_INIT_COROUTINE then op_init_coroutine p1 p2 p3 st X
      else if op = OP_END_COROUTINE then op_end_coroutine P p1 st X
      else if op = OP_RETURN then op_return p1 p3 st X
      else if op = OP_YIELD then op_yield P p1 st X
      else if op = OP_JUMP then op_jump p1 p2 p3 st X
      else if op = OP_RESULT_ROW then op_result_row p1 p2 st X
      else if op = OP_HALT then Ok (Break, X)
      else
        (case exec_data C op p1 p2 p3 p4 st of
           Some r \<Rightarrow> rbind r (\<lambda>st. Ok (Fall st, X))
         | None \<Rightarrow> Ok (Fall st, X)))"

subsection \<open>The loops\<close>

definition count_visit :: "query_state \<Rightarrow> query_state" where
  "count_visit st =
     st\<lparr>visited := (visited st)[program_i (mem st) := visited st ! program_i (mem st) + 1]\<rparr>"

text \<open>The inner loop: it runs one branch until the branch ends, spending gas.  An index past the counters
  of visits would panic.\<close>

primrec branch_loop ::
  "instruction list \<Rightarrow> root_columns \<Rightarrow> nat \<Rightarrow> query_state \<Rightarrow> explorer \<Rightarrow> (nat \<times> explorer) result"
where
  "branch_loop P C 0 st X = Ok (0, X)"
| "branch_loop P C (Suc gas) st X =
     (if length P \<le> program_i (mem st) then Ok (Suc gas, X)
      else
        let st = st\<lparr>instruction_counter := instruction_counter st + 1\<rparr> in
        rassert (program_i (mem st) < length (visited st))
          (if MAX_LOOP_COUNT < visited st ! program_i (mem st) then Ok (gas, X)
           else
             rbind (exec_op P C (P ! program_i (mem st)) (count_visit st) X) (\<lambda>(flow, X).
               case flow of
                 Fall st \<Rightarrow> branch_loop P C gas (next_i st) X
               | Continue st \<Rightarrow> branch_loop P C gas st X
               | Break \<Rightarrow> Ok (gas, X))))"

text \<open>The outer loop takes branches until there are none; not returning is \<open>None\<close>.\<close>

definition explain_loop ::
  "instruction list \<Rightarrow> root_columns \<Rightarrow> (nat \<times> explorer) result \<Rightarrow> (nat \<times> explorer) result option"
where
  "explain_loop P C =
     while_option
       (\<lambda>r. case r of Ok (_, X) \<Rightarrow> branch_states X \<noteq> [] | _ \<Rightarrow> False)
       (\<lambda>r. rbind r (\<lambda>(gas, X). case branch_pop X of Some (st, X) \<Rightarrow> branch_loop P C gas st X | None \<Rightarrow> r))"

definition start_memory :: memory_state where
  "start_memory = \<lparr>program_i = 0, regs = im_new, cursors = im_new, tables = im_new\<rparr>"

definition start_explorer :: "instruction list \<Rightarrow> explorer" where
  "start_explorer P =
     \<lparr>branch_states =
        [\<lparr>visited = replicate (length P) 0, branch_id = 0, instruction_counter = 0, branch_parent = None,
          mem = start_memory, q_result = None\<rparr>],
      visited_branch_state = [], branch_seq = 1, result_states = []\<rparr>"

text \<open>One column of a result row, at index \<open>idx\<close>.\<close>

definition merge_column ::
  "nat \<Rightarrow> column_type \<Rightarrow> data_type option list \<times> bool option list \<Rightarrow> (data_type option list \<times> bool option list) result"
where
  "merge_column idx c = (\<lambda>(output, nullable).
     let this_type = ct_datatype c; this_nullable = ct_nullable c in
     rbind (if length output = idx then Ok (output @ [Some this_type])
            else rassert (idx < length output)
              (Ok (if output ! idx = None \<or> output ! idx = Some TNull \<and> this_type \<noteq> TNull
                   then output[idx := Some this_type] else output))) (\<lambda>output.
     rbind (if length nullable = idx then Ok (nullable @ [this_nullable])
            else rassert (idx < length nullable)
              (Ok (case nullable ! idx of
                     Some null \<Rightarrow>
                       (case this_nullable of
                          Some this_null \<Rightarrow> nullable[idx := Some (null \<or> this_null)]
                        | None \<Rightarrow> nullable)
                   | None \<Rightarrow> nullable[idx := this_nullable]))) (\<lambda>nullable.
       Ok (output, nullable))))"

fun merge_row ::
  "nat \<Rightarrow> column_type list \<Rightarrow> data_type option list \<times> bool option list \<Rightarrow> (data_type option list \<times> bool option list) result"
where
  "merge_row idx [] acc = Ok acc"
| "merge_row idx (c # cs) acc = rbind (merge_column idx c acc) (merge_row (idx + 1) cs)"

fun merge_rows ::
  "column_type list list \<Rightarrow> data_type option list \<times> bool option list \<Rightarrow> (data_type option list \<times> bool option list) result"
where
  "merge_rows [] acc = Ok acc"
| "merge_rows (r # rs) acc = rbind (merge_row 0 r acc) (merge_rows rs)"

text \<open>The rows of the schema query: database number, root page, column number, declared type, \<^verbatim>\<open>notnull\<close>.\<close>

fun root_block_columns :: "(int \<times> int \<times> int \<times> bytes \<times> bool) list \<Rightarrow> root_columns \<Rightarrow> root_columns result" where
  "root_block_columns [] C = Ok C"
| "root_block_columns ((dbnum, block, colnum, ty, notnull) # rows) C =
     rbind (im_insert colnum
              (CSingle (case type_from_str ty of Ok d \<Rightarrow> d | _ \<Rightarrow> TNull) (Some (\<not> notnull)))
              (case C (dbnum, block) of Some m \<Rightarrow> m | None \<Rightarrow> im_new))
       (\<lambda>(m, _). root_block_columns rows (C((dbnum, block) \<mapsto> m)))"

definition explain ::
  "(int \<times> int \<times> int \<times> bytes \<times> bool) list result \<Rightarrow> instruction list result \<Rightarrow>
    (data_type list \<times> bool option list) result option"
where
  "explain schema listing =
     (case rbind schema (\<lambda>rows. rbind (root_block_columns rows Map.empty) (\<lambda>C. rbind listing (\<lambda>P. Ok (C, P)))) of
        Ok (C, P) \<Rightarrow>
          map_option
            (\<lambda>r. rbind r (\<lambda>(_, X).
               rbind (merge_rows (result_states X) ([], [])) (\<lambda>(output, nullable).
                 Ok (map (\<lambda>ty. case ty of Some t \<Rightarrow> t | None \<Rightarrow> TNull) output, nullable))))
            (explain_loop P C (Ok (MAX_TOTAL_INSTRUCTION_COUNT, start_explorer P)))
      | Err e \<Rightarrow> Some (Err e)
      | Panic \<Rightarrow> Some Panic)"


subsection \<open>The loops end\<close>

lemma new_branch_simps [simp]:
  "branch_states (snd (new_branch st X)) = branch_states X"
  "result_states (snd (new_branch st X)) = result_states X"
  "visited_branch_state (snd (new_branch st X)) = visited_branch_state X"
  "mem (fst (new_branch st X)) = mem st" "visited (fst (new_branch st X)) = visited st"
  "branch_parent (fst (new_branch st X)) = Some \<lparr>parent_id = branch_id st, parent_idx = instruction_counter st - 1\<rparr>"
  by (simp_all add: new_branch_def seq_next_def Let_def)

lemma fork_alt:
  "fork f st X = rbind (f (fst (new_branch st X))) (\<lambda>b. branch_push b (snd (new_branch st X)))"
  by (simp add: fork_def case_prod_unfold Let_def)

text \<open>An operation adds at most \<open>k\<close> branches.\<close>

definition adds :: "nat \<Rightarrow> explorer \<Rightarrow> op_result \<Rightarrow> bool" where
  "adds k X r = (\<forall>f X'. r = Ok (f, X') \<longrightarrow> length (branch_states X') \<le> length (branch_states X) + k)"

lemma push_adds: "branch_push b X = Ok X' \<Longrightarrow> length (branch_states X') \<le> length (branch_states X) + 1"
  by (auto simp: branch_push_def)

lemma fork_adds: "fork f st X = Ok X' \<Longrightarrow> length (branch_states X') \<le> length (branch_states X) + 1"
  unfolding fork_alt by (auto dest: push_adds)

lemma fork_to_adds: "fork_to p st X = Ok X' \<Longrightarrow> length (branch_states X') \<le> length (branch_states X) + 1"
  unfolding fork_to_def by (rule fork_adds)

lemma adds_Ok [simp]: "adds k X (Ok (f, X'))  \<longleftrightarrow> length (branch_states X') \<le> length (branch_states X) + k"
  by (simp add: adds_def)

lemma adds_bind: "(\<And>x. r = Ok x \<Longrightarrow> adds k X (f x)) \<Longrightarrow> adds k X (rbind r f)"
  by (auto simp: adds_def)

lemma adds_if: "adds k X a \<Longrightarrow> adds k X b \<Longrightarrow> adds k X (if c then a else b)"
  by simp

lemma adds_branch:
  assumes "\<And>X'. length (branch_states X') \<le> length (branch_states X) + 1 \<Longrightarrow> adds 3 X (k X')"
  shows "adds 3 X (rbind (if c then fork f st X else Ok X) k)"
  using assms by (intro adds_bind) (auto dest!: fork_adds split: if_splits)

lemma jump_adds: "adds 3 X (op_jump p1 p2 p3 st X)"
  by (fastforce simp: adds_def op_jump_def dest!: fork_to_adds)

lemma branch_adds:
  "adds 3 X (op_branch p2 st X)" "adds 3 X (op_must_be_int p2 st X)" "adds 3 X (op_goto p2 st X)"
  "adds 3 X (op_go_sub p1 p2 st X)" "adds 3 X (op_init_coroutine p1 p2 p3 st X)" "adds 3 X (op_result_row p1 p2 st X)"
  by (auto simp: adds_def op_branch_def op_must_be_int_def op_goto_def op_go_sub_def op_init_coroutine_def
      op_result_row_def dest!: fork_to_adds fork_adds split: if_splits)

lemma coroutine_adds:
  "adds 3 X (op_end_coroutine P p1 st X)" "adds 3 X (op_return p1 p3 st X)" "adds 3 X (op_yield P p1 st X)"
  unfolding op_end_coroutine_def op_return_def op_yield_def
  by (rule adds_bind, simp add: adds_bind split: option.split reg_data_type.split prod.split)+

lemma conditional_adds:
  "adds 3 X (op_is_null p1 p2 st X)" "adds 3 X (op_not_null p1 p2 st X)" "adds 3 X (op_if p1 p2 p3 st X)"
  "adds 3 X (op_if_pos p1 p2 st X)"
  unfolding op_is_null_def op_not_null_def op_if_def op_if_pos_def Let_def
  by (rule adds_bind, rule adds_branch, simp add: adds_bind)+

lemma rewind_adds: "adds 3 X (op_rewind p1 p2 st X)"
proof (cases "p2 = 0")
  case False
  have "adds 3 X (case c of None \<Rightarrow> Ok (Break, X) | Some c \<Rightarrow>
      rbind (cursor_is_empty c t) (\<lambda>e. rbind (if e \<noteq> Some False then fork f st X else Ok X) (\<lambda>X.
        if e \<noteq> Some True then Ok (Continue (next_i st), X) else Ok (Break, X))))" for c t f
    by (cases c) (simp, simp only: option.case, rule adds_bind, rule adds_branch, simp)
  with False show ?thesis unfolding op_rewind_def by (simp add: adds_bind)
qed (simp add: op_rewind_def)

lemma fall_adds: "adds 3 X (Ok (f, X))" "adds 3 X (rbind r (\<lambda>st. Ok (Fall st, X)))"
  by (auto simp: adds_def)

lemma data_adds: "adds 3 X (case d of Some r \<Rightarrow> rbind r (\<lambda>st. Ok (Fall st, X)) | None \<Rightarrow> Ok (Fall st, X))"
  using fall_adds by (simp split: option.split)

lemmas op_adds = jump_adds branch_adds coroutine_adds conditional_adds
  rewind_adds fall_adds data_adds

lemma exec_op_adds: "adds 3 X (exec_op P C ins st X)"
  unfolding exec_op_def by (cases ins) (simp only: prod.case, intro adds_if op_adds)

lemma branch_loop_spends:
  "branch_loop P C g st X = Ok (g', X') \<Longrightarrow>
    g' \<le> g \<and> length (branch_states X') \<le> length (branch_states X) + 3 * (g - g')"
proof (induction g arbitrary: st X)
  case 0
  then show ?case by simp
next
  case (Suc g)
  show ?case
  proof (cases "length P \<le> program_i (mem st) \<or> MAX_LOOP_COUNT < visited st ! program_i (mem st)")
    case True
    with Suc.prems show ?thesis by (auto split: if_splits)
  next
    case False
    let ?st = "count_visit (st\<lparr>instruction_counter := instruction_counter st + 1\<rparr>)"
    from False Suc.prems obtain f Y where e: "exec_op P C (P ! program_i (mem st)) ?st X = Ok (f, Y)"
      and n: "(case f of Fall st \<Rightarrow> branch_loop P C g (next_i st) Y | Continue st \<Rightarrow> branch_loop P C g st Y
        | Break \<Rightarrow> Ok (g, Y)) = Ok (g', X')"
      by auto
    have y: "length (branch_states Y) \<le> length (branch_states X) + 3"
      using exec_op_adds [of X P C "P ! program_i (mem st)" ?st] e by (simp add: adds_def)
    from n have "g' \<le> g \<and> length (branch_states X') \<le> length (branch_states Y) + 3 * (g - g')"
      by (cases f) (auto dest: Suc.IH)
    with y show ?thesis by auto
  qed
qed

lemma branch_pop_Some: "branch_states X \<noteq> [] \<Longrightarrow> branch_pop X = Some (hd (branch_states X), X\<lparr>branch_states := tl (branch_states X)\<rparr>)"
  by (cases "branch_states X") (simp_all add: branch_pop_def)

definition work_left :: "(nat \<times> explorer) result \<Rightarrow> nat" where
  "work_left r = (case r of Ok (g, X) \<Rightarrow> Suc (4 * g + length (branch_states X)) | _ \<Rightarrow> 0)"

lemma explain_loop_ends: "\<exists>r'. explain_loop P C r = Some r'"
  unfolding explain_loop_def
proof (rule measure_while_option_Some [where P = "\<lambda>_. True" and f = work_left, simplified])
  fix s :: "(nat \<times> explorer) result"
  assume c: "case s of Ok (_, X) \<Rightarrow> branch_states X \<noteq> [] | _ \<Rightarrow> False"
  then obtain g X where s: "s = Ok (g, X)" "branch_states X \<noteq> []" by (cases s) auto
  let ?b = "branch_loop P C g (hd (branch_states X)) (X\<lparr>branch_states := tl (branch_states X)\<rparr>)"
  have "work_left ?b < work_left s"
  proof (cases ?b)
    case (Ok gY)
    obtain g' Y where gY: "gY = (g', Y)" by (cases gY)
    have "g' \<le> g \<and> length (branch_states Y) \<le> length (tl (branch_states X)) + 3 * (g - g')"
      using branch_loop_spends [OF Ok [unfolded gY]] by simp
    moreover obtain st sts where "branch_states X = st # sts" using s(2) by (cases "branch_states X") simp_all
    ultimately show ?thesis unfolding Ok gY s work_left_def by (simp, arith)
  qed (simp_all add: work_left_def s)
  then show "work_left (rbind s (\<lambda>(gas, X). case branch_pop X of Some (st, X) \<Rightarrow> branch_loop P C gas st X | None \<Rightarrow> s)) < work_left s"
    by (simp add: s branch_pop_Some)
qed

lemma explain_loop_rec:
  "explain_loop P C r =
     (case r of
        Ok (g, X) \<Rightarrow>
          (case branch_states X of
             [] \<Rightarrow> Some r
           | st # sts \<Rightarrow> explain_loop P C (branch_loop P C g st (X\<lparr>branch_states := sts\<rparr>)))
      | _ \<Rightarrow> Some r)"
  unfolding explain_loop_def
  by (subst while_option_unfold) (auto simp: branch_pop_def split: result.split list.split)

end
