(* ===== verification/Explain_Correct.thy ===== *)
theory Explain_Correct
  imports Sqlite_Explain
begin

section \<open>Correctness of the SQLite type inference\<close>

text \<open>
  The interpreter of \<open>Sqlite_Explain\<close> does not panic on a program whose register and cursor numbers
  are not negative, merges the rows it finds as a join, and infers for a table scan exactly the
  declared columns; two instructions are treated differently from what SQLite does.
\<close>

subsection \<open>No panic\<close>

text \<open>\<open>okr Q r\<close>: not a panic, and a successful result satisfies \<open>Q\<close>.\<close>

definition okr :: "('a \<Rightarrow> bool) \<Rightarrow> 'a result \<Rightarrow> bool" where
  "okr Q r = (case r of Ok x \<Rightarrow> Q x | Err _ \<Rightarrow> True | Panic \<Rightarrow> False)"

lemma okr_simps [simp]: "okr Q (Ok x) = Q x" "okr Q (Err e)" "\<not> okr Q Panic"
  "okr Q (rassert c r) \<longleftrightarrow> c \<and> okr Q r"
  by (simp_all add: okr_def rassert_def)

lemma okr_rbind: "okr Q (rbind r f) = okr (\<lambda>x. okr Q (f x)) r"
  by (cases r) simp_all

lemma okr_bind: "okr Q r \<Longrightarrow> (\<And>x. Q x \<Longrightarrow> okr R (f x)) \<Longrightarrow> okr R (rbind r f)"
  by (cases r) auto

lemma okr_mono: "okr Q r \<Longrightarrow> (\<And>x. Q x \<Longrightarrow> R x) \<Longrightarrow> okr R r"
  by (cases r) auto

lemma okr_if: "(c \<Longrightarrow> okr Q a) \<Longrightarrow> (\<not> c \<Longrightarrow> okr Q b) \<Longrightarrow> okr Q (if c then a else b)"
  by simp

text \<open>The integers in registers stay far from the ends of the range: each of the \<open>g\<close> instructions that are left
  can decrement one once.\<close>

definition reg_ok :: "nat \<Rightarrow> reg_data_type \<Rightarrow> bool" where
  "reg_ok g v = (case v of RInt i \<Rightarrow> int g - 2 ^ 40 \<le> i \<and> i \<le> 2 ^ 40 | RSingle _ \<Rightarrow> True)"

definition cursor_ok :: "cursor_data_type \<Rightarrow> bool" where
  "cursor_ok c = (case c of Normal i \<Rightarrow> 0 \<le> i | Pseudo i \<Rightarrow> 0 \<le> i)"

definition entries_ok :: "('v \<Rightarrow> bool) \<Rightarrow> 'v int_map \<Rightarrow> bool" where
  "entries_ok Q m = (\<forall>k v. im_lookup m k = Some v \<longrightarrow> Q v)"

lemma entries_ok_intros [intro]:
  "entries_ok Q []"
  "entries_ok Q m \<Longrightarrow> Q v \<Longrightarrow> entries_ok Q (im_upd n v m)"
  "entries_ok Q m \<Longrightarrow> entries_ok Q (m[n := None])"
  "entries_ok Q m \<Longrightarrow> (\<And>v. Q v \<Longrightarrow> Q (f v)) \<Longrightarrow> entries_ok Q (im_adj n f m)"
  by (auto simp: entries_ok_def)

text \<open>\<open>B\<close> says that the state is a fork.\<close>

definition state_ok :: "instruction list \<Rightarrow> nat \<Rightarrow> bool \<Rightarrow> query_state \<Rightarrow> bool" where
  "state_ok P g B st \<longleftrightarrow> length (visited st) = length P \<and> (B \<longrightarrow> branch_parent st \<noteq> None) \<and>
     entries_ok (reg_ok g) (regs (mem st)) \<and> entries_ok cursor_ok (cursors (mem st))"

definition explorer_ok :: "instruction list \<Rightarrow> nat \<Rightarrow> explorer \<Rightarrow> bool" where
  "explorer_ok P g X \<longleftrightarrow> (\<forall>st \<in> set (branch_states X). state_ok P g False st)"

definition flow_ok :: "instruction list \<Rightarrow> nat \<Rightarrow> flow \<times> explorer \<Rightarrow> bool" where
  "flow_ok P g fX \<longleftrightarrow> explorer_ok P g (snd fX) \<and>
     (case fst fX of Fall st \<Rightarrow> state_ok P g False st | Continue st \<Rightarrow> state_ok P g False st | Break \<Rightarrow> True)"

lemma reg_ok_single [simp]: "reg_ok g (RSingle c)"
  by (simp add: reg_ok_def)

lemma reg_ok_set_nullable [simp]: "reg_ok g v \<Longrightarrow> reg_ok g (reg_set_nullable b v)"
  by (simp add: reg_ok_def reg_set_nullable_def split: reg_data_type.splits)

lemma reg_ok_default [simp]: "reg_ok g reg_default"
  by (simp add: reg_default_def)

lemma reg_ok_mono: "reg_ok g v \<Longrightarrow> g' \<le> g \<Longrightarrow> reg_ok g' v"
  by (auto simp: reg_ok_def split: reg_data_type.splits)

lemma state_ok_mono: "state_ok P g B st \<Longrightarrow> g' \<le> g \<Longrightarrow> state_ok P g' B st"
  unfolding state_ok_def entries_ok_def by (blast intro: reg_ok_mono [of g _ g'])

lemma state_ok_weaken: "state_ok P g True st \<Longrightarrow> state_ok P g False st"
  by (simp add: state_ok_def)

lemma state_ok_moves [simp]:
  "state_ok P g B (goto_i i st) = state_ok P g B st"
  "state_ok P g B (next_i st) = state_ok P g B st"
  by (simp_all add: state_ok_def goto_i_def next_i_def with_mem_def)

lemma moves_mem [simp]:
  "regs (mem (goto_i i st)) = regs (mem st)" "regs (mem (next_i st)) = regs (mem st)"
  "cursors (mem (goto_i i st)) = cursors (mem st)" "cursors (mem (next_i st)) = cursors (mem st)"
  "tables (mem (goto_i i st)) = tables (mem st)" "tables (mem (next_i st)) = tables (mem st)"
  by (simp_all add: goto_i_def next_i_def with_mem_def)

lemma state_ok_tables [simp]:
  "state_ok P g B (with_mem (\<lambda>m. m\<lparr>tables := t\<rparr>) st) = state_ok P g B st"
  by (simp add: state_ok_def with_mem_def)

lemma i64_small [simp]: "- (2 ^ 63) \<le> x \<Longrightarrow> x < 2 ^ 63 \<Longrightarrow> i64 x = Ok x"
  by (simp add: i64_def)

lemma as_i64_small: "n < 2 ^ 40 \<Longrightarrow> as_i64 n = int n"
proof -
  assume "n < 2 ^ 40"
  then have "int n < 2 ^ 40" by (metis of_nat_less_iff of_nat_numeral of_nat_power)
  then have "(int n + 2 ^ 63) mod 2 ^ 64 = int n + 2 ^ 63" by (intro mod_pos_pos_trivial) simp_all
  then show ?thesis by (simp add: as_i64_def)
qed

lemma set_reg_ok:
  "0 \<le> i \<Longrightarrow> reg_ok g v \<Longrightarrow> state_ok P g B st \<Longrightarrow> okr (state_ok P g B) (set_reg i v st)"
  by (auto simp: set_reg_def im_simps state_ok_def with_mem_def)

lemma get_reg_ok: "0 \<le> i \<Longrightarrow> state_ok P g B st \<Longrightarrow> okr (\<lambda>v. \<forall>r. v = Some r \<longrightarrow> reg_ok g r) (get_reg i st)"
  by (simp add: get_reg_def im_simps state_ok_def entries_ok_def)

lemma reg_mut_ok:
  "0 \<le> i \<Longrightarrow> (\<And>v. reg_ok g v \<Longrightarrow> reg_ok g (f v)) \<Longrightarrow> state_ok P g B st \<Longrightarrow> okr (state_ok P g B) (reg_mut i f st)"
  by (auto simp: reg_mut_def im_simps state_ok_def with_mem_def)

lemma remove_reg_ok: "0 \<le> i \<Longrightarrow> state_ok P g B st \<Longrightarrow> okr (state_ok P g B) (remove_reg i st)"
  by (auto simp: remove_reg_def im_simps state_ok_def with_mem_def)

lemma get_cursor_ok:
  "0 \<le> i \<Longrightarrow> state_ok P g B st \<Longrightarrow> okr (\<lambda>v. \<forall>c. v = Some c \<longrightarrow> cursor_ok c) (get_cursor i st)"
  by (simp add: get_cursor_def im_simps state_ok_def entries_ok_def)

lemma set_cursor_ok:
  "0 \<le> i \<Longrightarrow> cursor_ok c \<Longrightarrow> state_ok P g B st \<Longrightarrow> okr (state_ok P g B) (set_cursor i c st)"
  by (auto simp: set_cursor_def im_simps state_ok_def with_mem_def)

lemma cursor_reads_ok:
  "cursor_ok c \<Longrightarrow> okr (\<lambda>_. True) (cursor_columns c t r)"
  "cursor_ok c \<Longrightarrow> okr (\<lambda>_. True) (cursor_is_empty c t)"
  "cursor_ok c \<Longrightarrow> okr (\<lambda>_. True) (cursor_table_mut c f t)"
  by (auto simp: cursor_columns_def cursor_is_empty_def cursor_table_mut_def cursor_ok_def im_simps
      split: cursor_data_type.splits)

lemma cursor_table_update_ok:
  assumes "0 \<le> i" and "state_ok P g B st"
  shows "okr (state_ok P g B) (cursor_table_update i f st)"
  unfolding cursor_table_update_def
proof (rule okr_bind [OF get_cursor_ok [OF assms]])
  fix c :: "cursor_data_type option"
  assume "\<forall>d. c = Some d \<longrightarrow> cursor_ok d"
  then show "okr (state_ok P g B) (case c of None \<Rightarrow> Ok st
      | Some c \<Rightarrow> rbind (cursor_table_mut c f (tables (mem st))) (\<lambda>t. Ok (with_mem (\<lambda>m. m\<lparr>tables := t\<rparr>) st)))"
    using assms(2) by (cases c) (auto intro!: okr_bind [OF cursor_reads_ok(3)])
qed

lemma fork_ok:
  assumes "\<And>b. state_ok P g True b \<Longrightarrow> mem b = mem st \<Longrightarrow> okr (state_ok P g True) (f b)"
    and "state_ok P g B st" and "explorer_ok P g X"
  shows "okr (explorer_ok P g) (fork f st X)"
  unfolding fork_alt
proof (rule okr_bind)
  show "okr (state_ok P g True) (f (fst (new_branch st X)))"
    by (rule assms(1)) (use assms(2) in \<open>simp_all add: state_ok_def\<close>)
  fix b assume "state_ok P g True b"
  then show "okr (explorer_ok P g) (branch_push b (snd (new_branch st X)))"
    using assms(3) by (auto simp: branch_push_def explorer_ok_def state_ok_def)
qed

lemma fork_to_ok: "state_ok P g B st \<Longrightarrow> explorer_ok P g X \<Longrightarrow> okr (explorer_ok P g) (fork_to p st X)"
  unfolding fork_to_def by (rule fork_ok) simp_all

lemma branch_ok:
  assumes "c \<Longrightarrow> okr (explorer_ok P g) (fork f st X)" and "explorer_ok P g X"
    and "\<And>X. explorer_ok P g X \<Longrightarrow> okr R (k X)"
  shows "okr R (rbind (if c then fork f st X else Ok X) k)"
  by (rule okr_bind [where Q = "explorer_ok P g"]) (use assms in auto)

text \<open>A new state and an explorer as the result of an arm.\<close>

lemma continue_ok:
  "okr (state_ok P g False) r \<Longrightarrow> explorer_ok P g X \<Longrightarrow> okr (flow_ok P g) (rbind r (\<lambda>st. Ok (Continue st, X)))"
  "okr (state_ok P g False) r \<Longrightarrow> explorer_ok P g X \<Longrightarrow> okr (flow_ok P g) (rbind r (\<lambda>st. Ok (Fall st, X)))"
  by (auto elim!: okr_bind simp: flow_ok_def)

lemma flow_ok_simps [simp]:
  "flow_ok P g (Continue st, X) \<longleftrightarrow> explorer_ok P g X \<and> state_ok P g False st"
  "flow_ok P g (Fall st, X) \<longleftrightarrow> explorer_ok P g X \<and> state_ok P g False st"
  "flow_ok P g (Break, X) \<longleftrightarrow> explorer_ok P g X"
  by (simp_all add: flow_ok_def)

subsubsection \<open>The arms that branch\<close>

lemma goto_ok: "state_ok P g False st \<Longrightarrow> explorer_ok P g X \<Longrightarrow> okr (flow_ok P g) (op_goto p2 st X)"
  by (simp add: op_goto_def)

lemma go_sub_ok:
  assumes "0 \<le> p1" "program_i (mem st) < 2 ^ 31" "g \<le> 100000" "state_ok P g False st" "explorer_ok P g X"
  shows "okr (flow_ok P g) (op_go_sub p1 p2 st X)"
  unfolding op_go_sub_def
  by (rule okr_bind [OF set_reg_ok [of _ g _ P False]]) (use assms as_i64_small in \<open>auto simp: reg_ok_def\<close>)

lemma op_branch_ok: "state_ok P g False st \<Longrightarrow> explorer_ok P g X \<Longrightarrow> okr (flow_ok P g) (op_branch p2 st X)"
  unfolding op_branch_def by (rule okr_bind [OF fork_to_ok [of P g False st X]]) simp_all

lemma op_must_be_int_ok:
  "state_ok P g False st \<Longrightarrow> explorer_ok P g X \<Longrightarrow> okr (flow_ok P g) (op_must_be_int p2 st X)"
  unfolding op_must_be_int_def fork_to_def by (rule branch_ok) (auto intro: fork_ok)

lemma op_jump_ok:
  "state_ok P g False st \<Longrightarrow> explorer_ok P g X \<Longrightarrow> okr (flow_ok P g) (op_jump p1 p2 p3 st X)"
  unfolding op_jump_def by (auto intro!: okr_bind [OF fork_to_ok])

lemma op_is_null_ok:
  assumes "0 \<le> p1" "state_ok P g False st" "explorer_ok P g X"
  shows "okr (flow_ok P g) (op_is_null p1 p2 st X)"
  unfolding op_is_null_def Let_def
  by (rule okr_bind [OF get_reg_ok [OF assms(1,2)]], rule branch_ok)
    (use assms in \<open>auto intro!: fork_ok continue_ok set_reg_ok reg_mut_ok\<close>)

lemma op_not_null_ok:
  assumes "0 \<le> p1" "state_ok P g False st" "explorer_ok P g X"
  shows "okr (flow_ok P g) (op_not_null p1 p2 st X)"
  unfolding op_not_null_def Let_def
  by (rule okr_bind [OF get_reg_ok [OF assms(1,2)]], rule branch_ok)
    (use assms in \<open>auto intro!: fork_ok continue_ok set_reg_ok reg_mut_ok\<close>)

lemma op_if_ok:
  assumes "0 \<le> p1" "g \<le> 100000" "state_ok P g False st" "explorer_ok P g X"
  shows "okr (flow_ok P g) (op_if p1 p2 p3 st X)"
  unfolding op_if_def Let_def
  by (rule okr_bind [OF get_reg_ok [OF assms(1,3)]], rule branch_ok)
    (use assms in \<open>auto intro!: fork_ok continue_ok set_reg_ok simp: reg_ok_def\<close>)

lemma decrement_reg_ok:
  assumes "0 \<le> p1" "state_ok P (Suc g) True b"
  shows "okr (state_ok P g True) (decrement_reg p1 b)"
  unfolding decrement_reg_def
proof (rule okr_bind [OF get_reg_ok [OF assms]])
  fix v :: "reg_data_type option"
  assume v: "\<forall>r. v = Some r \<longrightarrow> reg_ok (Suc g) r"
  have b: "state_ok P g True b" using state_ok_mono [OF assms(2)] by simp
  show "okr (state_ok P g True) (case v of Some (RInt i) \<Rightarrow> rbind (i64 (i - 1)) (\<lambda>j. reg_mut p1 (\<lambda>_. RInt j) b) | _ \<Rightarrow> Ok b)"
  proof (cases "\<exists>i. v = Some (RInt i)")
    case True
    then obtain i where i: "v = Some (RInt i)" ..
    with v have r: "int g - 2 ^ 40 \<le> i - 1" "i \<le> 2 ^ 40" by (auto simp: reg_ok_def)
    then have "i64 (i - 1) = Ok (i - 1)" by (simp add: i64_def)
    with r i b assms(1) show ?thesis by (auto intro!: reg_mut_ok simp: reg_ok_def)
  next
    case False
    with b show ?thesis by (auto split: option.split reg_data_type.split)
  qed
qed

lemma op_if_pos_ok:
  assumes "0 \<le> p1" "state_ok P (Suc g) False st" "explorer_ok P g X"
  shows "okr (flow_ok P g) (op_if_pos p1 p2 st X)"
  unfolding op_if_pos_def Let_def
proof (rule okr_bind [OF get_reg_ok [OF assms(1,2)]], rule branch_ok)
  have s: "state_ok P g False st" using state_ok_mono [OF assms(2)] by simp
  show "okr (explorer_ok P g) (fork (\<lambda>b. decrement_reg p1 (goto_i (as_usize p2) b)) st X)"
  proof (rule fork_ok [OF _ s assms(3)])
    fix b assume b: "state_ok P g True b" "mem b = mem st"
    then have "state_ok P (Suc g) True b" using assms(2) by (simp add: state_ok_def)
    then show "okr (state_ok P g True) (decrement_reg p1 (goto_i (as_usize p2) b))"
      by (intro decrement_reg_ok assms(1)) simp
  qed
  fix v Y assume "\<forall>r. v = Some r \<longrightarrow> reg_ok (Suc g) r" "explorer_ok P g Y"
  then show "okr (flow_ok P g)
      (if case v of Some (RInt i) \<Rightarrow> i < 1 | _ \<Rightarrow> True then Ok (Continue (next_i st), Y)
       else if 1 < visited st ! program_i (mem st)
       then rbind (case v of
                     Some (RInt _) \<Rightarrow> set_reg p1 (RSingle (CSingle TInteger (Some False))) (next_i st)
                   | _ \<Rightarrow> Ok (next_i st)) (\<lambda>st. Ok (Continue st, Y))
       else Ok (Break, Y))"
    using s assms(1) by (auto intro!: continue_ok set_reg_ok split: option.split reg_data_type.split)
qed (rule assms(3))

lemma op_rewind_ok:
  assumes "0 \<le> p1" "state_ok P g False st" "explorer_ok P g X"
  shows "okr (flow_ok P g) (op_rewind p1 p2 st X)"
proof (cases "p2 = 0")
  case False
  have "okr (flow_ok P g) (rbind (cursor_is_empty c (tables (mem st))) (\<lambda>e.
        rbind (if e \<noteq> Some False
               then fork (\<lambda>b. cursor_table_update p1 (is_empty_update (\<lambda>_. Some True)) (goto_i (as_usize p2) b)) st X
               else Ok X) (\<lambda>X.
        if e \<noteq> Some True then Ok (Continue (next_i st), X) else Ok (Break, X))))" if "cursor_ok c" for c
    by (rule okr_bind [OF cursor_reads_ok(2) [OF that]], rule branch_ok)
      (use assms in \<open>auto intro!: fork_ok cursor_table_update_ok\<close>)
  with assms False show ?thesis
    unfolding op_rewind_def
    by (auto intro!: okr_bind [OF get_cursor_ok [OF assms(1,2)]] split: option.split)
qed (use assms in \<open>simp add: op_rewind_def\<close>)

lemma op_init_coroutine_ok:
  assumes "0 \<le> p1" "- (2 ^ 31) \<le> p3" "p3 < 2 ^ 31" "g \<le> 100000" "state_ok P g False st" "explorer_ok P g X"
  shows "okr (flow_ok P g) (op_init_coroutine p1 p2 p3 st X)"
  unfolding op_init_coroutine_def
  by (rule okr_bind [OF set_reg_ok [of _ g _ P False]]) (use assms in \<open>auto simp: reg_ok_def\<close>)

lemma op_end_coroutine_ok:
  assumes "0 \<le> p1" "state_ok P g False st" "explorer_ok P g X"
  shows "okr (flow_ok P g) (op_end_coroutine P p1 st X)"
  unfolding op_end_coroutine_def
  by (rule okr_bind [OF get_reg_ok [OF assms(1,2)]])
    (use assms in \<open>auto intro!: continue_ok remove_reg_ok split: option.split reg_data_type.split\<close>)

lemma i64_Suc_ok: "reg_ok g (RInt i) \<Longrightarrow> i64 (i + 1) = Ok (i + 1)"
  by (rule i64_small) (auto simp: reg_ok_def)

lemma op_return_ok:
  assumes "0 \<le> p1" "state_ok P g False st" "explorer_ok P g X"
  shows "okr (flow_ok P g) (op_return p1 p3 st X)"
  unfolding op_return_def
  by (rule okr_bind [OF get_reg_ok [OF assms(1,2)]])
    (use assms in \<open>auto intro!: continue_ok remove_reg_ok simp: i64_Suc_ok split: option.split reg_data_type.split\<close>)

lemma op_yield_ok:
  assumes "0 \<le> p1" "program_i (mem st) < 2 ^ 31" "g \<le> 100000" "state_ok P g False st" "explorer_ok P g X"
  shows "okr (flow_ok P g) (op_yield P p1 st X)"
  unfolding op_yield_def
  by (rule okr_bind [OF get_reg_ok [OF assms(1,4)]])
    (use assms in \<open>auto intro!: continue_ok reg_mut_ok simp: i64_Suc_ok as_i64_small reg_ok_def
       split: option.split reg_data_type.split\<close>)

lemma read_regs_ok: "\<forall>i \<in> set is. 0 \<le> i \<Longrightarrow> okr (\<lambda>_. True) (read_regs is st)"
  by (induction "is") (auto simp: okr_rbind get_reg_def im_simps)

lemma op_result_row_ok:
  assumes "0 \<le> p1" "p1 < 2 ^ 31" "- (2 ^ 31) \<le> p2" "p2 < 2 ^ 31" "state_ok P g False st" "explorer_ok P g X"
  shows "okr (flow_ok P g) (op_result_row p1 p2 st X)"
proof -
  have e: "i64 (p1 + p2) = Ok (p1 + p2)" using assms(1-4) by (simp add: i64_def)
  have "okr (flow_ok P g) (rbind (fork (\<lambda>b. Ok (next_i b)) st X)
      (\<lambda>X. Ok (Break, X\<lparr>result_states := res # result_states X\<rparr>)))" for res
    by (rule okr_bind [OF fork_ok [of P g st _ False]]) (use assms in \<open>auto simp: explorer_ok_def\<close>)
  then show ?thesis
    unfolding op_result_row_def e
    using read_regs_ok [of "[p1..p1 + p2 - 1]" st] assms(1) by (auto simp: okr_rbind intro: okr_mono)
qed

subsubsection \<open>The arms that change the state\<close>

lemma op_column_ok:
  assumes "0 \<le> p1" "0 \<le> p2" "0 \<le> p3" "state_ok P g B st"
  shows "okr (state_ok P g B) (op_column p1 p2 p3 st)"
  unfolding op_column_def
proof (rule okr_bind [OF get_cursor_ok [OF assms(1,4)]])
  fix c :: "cursor_data_type option"
  assume c: "\<forall>d. c = Some d \<longrightarrow> cursor_ok d"
  have r: "okr (\<lambda>_. True) (case c of None \<Rightarrow> Ok None | Some c \<Rightarrow> cursor_columns c (tables (mem st)) (regs (mem st)))"
    using c by (cases c) (simp_all add: cursor_reads_ok)
  have "okr (state_ok P g B) (rbind (case cc of None \<Rightarrow> Ok None | Some cc \<Rightarrow> im_get cc p2)
      (\<lambda>v. set_reg p3 (RSingle (case v of Some v \<Rightarrow> v | None \<Rightarrow> column_default)) st))" for cc
    using assms by (cases cc) (auto simp: im_simps intro!: set_reg_ok)
  then show "okr (state_ok P g B)
      (rbind (case c of None \<Rightarrow> Ok None | Some c \<Rightarrow> cursor_columns c (tables (mem st)) (regs (mem st)))
        (\<lambda>cc. rbind (case cc of None \<Rightarrow> Ok None | Some cc \<Rightarrow> im_get cc p2)
          (\<lambda>v. set_reg p3 (RSingle (case v of Some v \<Rightarrow> v | None \<Rightarrow> column_default)) st)))"
    by (rule okr_bind [OF r])
qed

lemma op_row_data_ok:
  assumes "0 \<le> p1" "0 \<le> p2" "state_ok P g B st"
  shows "okr (state_ok P g B) (op_row_data p1 p2 st)"
  unfolding op_row_data_def
proof (rule okr_bind [OF get_cursor_ok [OF assms(1,3)]])
  fix c :: "cursor_data_type option"
  assume c: "\<forall>d. c = Some d \<longrightarrow> cursor_ok d"
  have r: "okr (\<lambda>_. True) (case c of None \<Rightarrow> Ok None | Some c \<Rightarrow> cursor_columns c (tables (mem st)) (regs (mem st)))"
    using c by (cases c) (simp_all add: cursor_reads_ok)
  show "okr (state_ok P g B)
      (rbind (case c of None \<Rightarrow> Ok None | Some c \<Rightarrow> cursor_columns c (tables (mem st)) (regs (mem st)))
        (\<lambda>record. set_reg p2 (RSingle (CRecord (case record of Some r \<Rightarrow> r | None \<Rightarrow> im_new))) st))"
    by (rule okr_bind [OF r]) (use assms in \<open>auto intro!: set_reg_ok\<close>)
qed

lemma op_make_record_ok:
  assumes "0 \<le> p1" "p1 < 2 ^ 31" "0 \<le> p2" "p2 < 2 ^ 31" "0 \<le> p3" "state_ok P g B st"
  shows "okr (state_ok P g B) (op_make_record p1 p2 p3 st)"
proof -
  have e: "i64 (p1 + p2) = Ok (p1 + p2)" using assms(1-4) by (simp add: i64_def)
  have "okr (state_ok P g B) (rbind (read_regs [p1..p1 + p2 - 1] st)
      (\<lambda>record. set_reg p3 (RSingle (CRecord (im_from_dense_record record))) st))"
    by (rule okr_bind [OF read_regs_ok]) (use assms in \<open>auto intro!: set_reg_ok\<close>)
  with assms(3) show ?thesis by (simp add: op_make_record_def e)
qed

lemma op_insert_ok:
  assumes "0 \<le> p1" "0 \<le> p2" "state_ok P g B st"
  shows "okr (state_ok P g B) (op_insert p1 p2 st)"
  unfolding op_insert_def
  by (rule okr_bind [OF get_reg_ok [OF assms(2,3)]])
    (use assms in \<open>auto intro!: cursor_table_update_ok split: option.split reg_data_type.split column_type.split\<close>)

lemma open_table_ok:
  assumes "0 \<le> p1" "program_i (mem st) < 2 ^ 31" "state_ok P g B st"
  shows "okr (state_ok P g B) (open_table p1 tb st)"
proof -
  have i: "as_i64 (program_i (mem st)) = int (program_i (mem st))" using assms(2) by (simp add: as_i64_small)
  then have "set_table (as_i64 (program_i (mem st))) tb st =
      Ok (with_mem (\<lambda>m. m\<lparr>tables := im_upd (program_i (mem st)) tb (tables (mem st))\<rparr>) st)"
    by (simp add: set_table_def im_simps)
  with assms i show ?thesis
    by (auto simp: open_table_def cursor_ok_def with_mem_def intro!: set_cursor_ok)
      (simp add: state_ok_def)
qed

lemma op_open_dup_ok:
  assumes "0 \<le> p1" "0 \<le> p2" "state_ok P g B st"
  shows "okr (state_ok P g B) (op_open_dup p1 p2 st)"
  unfolding op_open_dup_def
  by (rule okr_bind [OF get_cursor_ok [OF assms(2,3)]])
    (use assms in \<open>auto intro!: set_cursor_ok split: option.split\<close>)

lemma p4_text_ok: "(\<And>f. okr Q (k f)) \<Longrightarrow> okr Q (rbind (p4_text p4) k)"
  by (simp add: p4_text_def)

lemma op_function_ok:
  "0 \<le> p3 \<Longrightarrow> state_ok P g B st \<Longrightarrow> okr (state_ok P g B) (op_function p2 p3 p4 st)"
  unfolding op_function_def by (rule p4_text_ok) (auto intro!: okr_if set_reg_ok)

lemma op_null_row_ok:
  assumes "0 \<le> p1" "state_ok P g B st"
  shows "okr (state_ok P g B) (op_null_row p1 st)"
  unfolding op_null_row_def
proof (rule okr_bind [OF get_cursor_ok [OF assms]])
  fix c :: "cursor_data_type option"
  assume c: "\<forall>d. c = Some d \<longrightarrow> cursor_ok d"
  have m: "okr (\<lambda>(t, r). entries_ok (reg_ok g) r) (cursor_columns_mut d f t (regs (mem st)))" if "cursor_ok d" for d f t
    using that assms(2)
    by (auto simp: cursor_columns_mut_def cursor_ok_def im_simps state_ok_def reg_ok_def
        intro!: entries_ok_intros(4) split: cursor_data_type.splits reg_data_type.splits column_type.splits)
  show "okr (state_ok P g B) (case c of None \<Rightarrow> Ok st | Some c \<Rightarrow>
      rbind (cursor_columns_mut c (im_map_values (ct_set_nullable True)) (tables (mem st)) (regs (mem st)))
        (\<lambda>(t, r). Ok (with_mem (\<lambda>m. m\<lparr>tables := t, regs := r\<rparr>) st)))"
  proof (cases c)
    case (Some d)
    show ?thesis unfolding Some option.case
      by (rule okr_bind [OF m]) (use c Some assms(2) in \<open>auto simp: state_ok_def with_mem_def\<close>)
  qed (use assms(2) in simp)
qed

lemma op_agg_step_ok:
  assumes "0 \<le> p2" "0 \<le> p3" "state_ok P g B st"
  shows "okr (state_ok P g B) (op_agg_step p2 p3 p4 st)"
  unfolding op_agg_step_def
  by (rule p4_text_ok) (use assms in \<open>auto intro!: okr_if set_reg_ok okr_bind [OF get_reg_ok] split: option.split\<close>)

lemma op_agg_final_ok:
  assumes "0 \<le> p1" "0 \<le> p2" "0 \<le> p3" "state_ok P g B st"
  shows "okr (state_ok P g B) (op_agg_final p1 p2 p3 p4 st)"
  unfolding op_agg_final_def
  by (rule p4_text_ok) (use assms in \<open>auto intro!: okr_if set_reg_ok okr_bind [OF get_reg_ok] split: option.split\<close>)

lemma op_scopy_ok:
  assumes "0 \<le> p1" "0 \<le> p2" "state_ok P g B st"
  shows "okr (state_ok P g B) (op_scopy p1 p2 st)"
  unfolding op_scopy_def
  by (rule okr_bind [OF get_reg_ok [OF assms(1,3)]]) (use assms in \<open>auto intro!: set_reg_ok split: option.split\<close>)

lemma copy_regs_ok:
  assumes "0 \<le> p1" "p1 < 2 ^ 31" "0 \<le> p2" "p2 < 2 ^ 31" "\<forall>i \<in> set is. 0 \<le> i \<and> i < 2 ^ 31" "state_ok P g B st"
  shows "okr (state_ok P g B) (copy_regs p1 p2 is st)"
  using assms(5,6)
proof (induction "is" arbitrary: st)
  case (Cons i "is")
  have e: "i64 (p1 + i) = Ok (p1 + i)" "i64 (p2 + i) = Ok (p2 + i)"
    using assms(1-4) Cons.prems(1) by (auto simp: i64_def)
  have s: "okr (state_ok P g B) (case v of Some v \<Rightarrow> set_reg (p2 + i) v st | None \<Rightarrow> Ok st)"
    if "\<forall>r. v = Some r \<longrightarrow> reg_ok g r" for v
    using that Cons.prems assms(3) by (auto intro!: set_reg_ok split: option.split)
  show ?case
    by (simp add: e, rule okr_bind [OF get_reg_ok [of _ P g B]])
      (use Cons assms(1) s in \<open>auto intro!: okr_bind [OF s]\<close>)
qed simp

lemma move_regs_ok:
  assumes "0 \<le> p1" "p1 < 2 ^ 31" "0 \<le> p2" "p2 < 2 ^ 31" "\<forall>i \<in> set is. 0 \<le> i \<and> i < 2 ^ 31" "state_ok P g B st"
  shows "okr (state_ok P g B) (move_regs p1 p2 is st)"
  using assms(5,6)
proof (induction "is" arbitrary: st)
  case (Cons i "is")
  have e: "i64 (p1 + i) = Ok (p1 + i)" "i64 (p2 + i) = Ok (p2 + i)"
    using assms(1-4) Cons.prems(1) by (auto simp: i64_def)
  have s: "okr (state_ok P g B)
      (case v of Some v \<Rightarrow> rbind (set_reg (p2 + i) v st) (set_reg (p1 + i) (RSingle column_null)) | None \<Rightarrow> Ok st)"
    if "\<forall>r. v = Some r \<longrightarrow> reg_ok g r" for v
    using that Cons.prems assms(1,3) by (auto intro!: set_reg_ok okr_bind [OF set_reg_ok] split: option.split)
  show ?case
    by (simp add: e, rule okr_bind [OF get_reg_ok [of _ P g B]])
      (use Cons assms(1) s in \<open>auto intro!: okr_bind [OF s]\<close>)
qed simp

lemma null_regs_ok:
  "\<forall>i \<in> set is. 0 \<le> i \<Longrightarrow> state_ok P g B st \<Longrightarrow> okr (state_ok P g B) (null_regs is st)"
  by (induction "is" arbitrary: st) (auto intro!: okr_bind [OF set_reg_ok])

lemma op_null_ok: "0 \<le> p2 \<Longrightarrow> state_ok P g B st \<Longrightarrow> okr (state_ok P g B) (op_null p2 p3 st)"
  unfolding op_null_def by (rule null_regs_ok) simp_all

lemma op_binary_ok:
  assumes "0 \<le> p1" "0 \<le> p2" "0 \<le> p3" "state_ok P g B st"
  shows "okr (state_ok P g B) (op_binary p1 p2 p3 st)"
  unfolding op_binary_def
  by (rule okr_bind [OF get_reg_ok [OF assms(1,4)]], rule okr_bind [OF get_reg_ok [OF assms(2,4)]])
    (use assms in \<open>auto intro!: set_reg_ok split: option.split\<close>)

text \<open>The operands that an arm uses as the number of a register or cursor, or as a count.\<close>

definition uses_p1 :: "string list" where
  "uses_p1 = rewind_ops @ binary_ops @
     [OP_GO_SUB, OP_IS_NULL, OP_NOT_NULL, OP_IF, OP_IF_POS, OP_INIT_COROUTINE, OP_END_COROUTINE, OP_RETURN, OP_YIELD,
      OP_COLUMN, OP_ROW_DATA, OP_SORTER_DATA, OP_MAKE_RECORD, OP_INSERT, OP_IDX_INSERT, OP_SORTER_INSERT, OP_DELETE,
      OP_OPEN_PSEUDO, OP_OPEN_DUP, OP_OPEN_READ, OP_OPEN_WRITE, OP_OPEN_EPHEMERAL, OP_OPEN_AUTOINDEX, OP_SORTER_OPEN,
      OP_NULL_ROW, OP_AGG_FINAL, OP_CAST, OP_SCOPY, OP_INT_COPY, OP_COPY, OP_MOVE, OP_NOT, OP_RESULT_ROW]"

definition uses_p2 :: "string list" where
  "uses_p2 = binary_ops @
     [OP_COLUMN, OP_SEQUENCE, OP_ROW_DATA, OP_SORTER_DATA, OP_MAKE_RECORD, OP_INSERT, OP_IDX_INSERT, OP_SORTER_INSERT,
      OP_OPEN_PSEUDO, OP_OPEN_DUP, OP_OPEN_EPHEMERAL, OP_OPEN_AUTOINDEX, OP_SORTER_OPEN, OP_VARIABLE, OP_AGG_STEP,
      OP_AGG_VALUE, OP_AGG_FINAL, OP_SCOPY, OP_INT_COPY, OP_COPY, OP_MOVE, OP_INTEGER, OP_BLOB, OP_COUNT, OP_REAL,
      OP_STRING8, OP_ROWID, OP_NEWROWID, OP_NOT, OP_NULL, OP_OFFSET_LIMIT]"

definition uses_p3 :: "string list" where
  "uses_p3 = binary_ops @
     [OP_COLUMN, OP_MAKE_RECORD, OP_HALT_IF_NULL, OP_FUNCTION, OP_AGG_STEP, OP_AGG_VALUE, OP_AGG_FINAL]"

definition i32 :: "int \<Rightarrow> bool" where
  "i32 p \<longleftrightarrow> - (2 ^ 31) \<le> p \<and> p < 2 ^ 31"

definition operands_ok :: "instruction \<Rightarrow> bool" where
  "operands_ok ins =
     (case ins of (_, op, p1, p2, p3, _) \<Rightarrow>
        i32 p1 \<and> i32 p2 \<and> i32 p3 \<and> (op \<in> set uses_p1 \<longrightarrow> 0 \<le> p1) \<and> (op \<in> set uses_p2 \<longrightarrow> 0 \<le> p2)
        \<and> (op \<in> set uses_p3 \<longrightarrow> 0 \<le> p3))"

lemma operands_okD:
  assumes "operands_ok (i, op, p1, p2, p3, p4)"
  shows "p1 < 2 ^ 31" "p2 < 2 ^ 31" "p3 < 2 ^ 31" "- (2 ^ 31) \<le> p1" "- (2 ^ 31) \<le> p2" "- (2 ^ 31) \<le> p3"
    "op \<in> set uses_p1 \<Longrightarrow> 0 \<le> p1" "op \<in> set uses_p2 \<Longrightarrow> 0 \<le> p2" "op \<in> set uses_p3 \<Longrightarrow> 0 \<le> p3"
  using assms by (auto simp: operands_ok_def i32_def)

lemma uses_groups:
  "op \<in> set rewind_ops \<Longrightarrow> op \<in> set uses_p1"
  "op \<in> set binary_ops \<Longrightarrow> op \<in> set uses_p1" "op \<in> set binary_ops \<Longrightarrow> op \<in> set uses_p2" "op \<in> set binary_ops \<Longrightarrow> op \<in> set uses_p3"
  by (simp_all add: uses_p1_def uses_p2_def uses_p3_def)

lemma uses_p1_members [simp]:
  "''Gosub'' \<in> set uses_p1" "''IsNull'' \<in> set uses_p1" "''NotNull'' \<in> set uses_p1"
  "''If'' \<in> set uses_p1" "''IfPos'' \<in> set uses_p1" "''InitCoroutine'' \<in> set uses_p1"
  "''EndCoroutine'' \<in> set uses_p1" "''Return'' \<in> set uses_p1" "''Yield'' \<in> set uses_p1"
  "''Column'' \<in> set uses_p1" "''RowData'' \<in> set uses_p1" "''SorterData'' \<in> set uses_p1"
  "''MakeRecord'' \<in> set uses_p1" "''Insert'' \<in> set uses_p1" "''IdxInsert'' \<in> set uses_p1"
  "''SorterInsert'' \<in> set uses_p1" "''Delete'' \<in> set uses_p1" "''OpenPseudo'' \<in> set uses_p1"
  "''OpenDup'' \<in> set uses_p1" "''OpenRead'' \<in> set uses_p1" "''OpenWrite'' \<in> set uses_p1"
  "''OpenEphemeral'' \<in> set uses_p1" "''OpenAutoindex'' \<in> set uses_p1" "''SorterOpen'' \<in> set uses_p1"
  "''NullRow'' \<in> set uses_p1" "''AggFinal'' \<in> set uses_p1" "''Cast'' \<in> set uses_p1"
  "''SCopy'' \<in> set uses_p1" "''IntCopy'' \<in> set uses_p1" "''Copy'' \<in> set uses_p1"
  "''Move'' \<in> set uses_p1" "''Not'' \<in> set uses_p1" "''ResultRow'' \<in> set uses_p1"
  by (simp_all add: uses_p1_def)

lemma uses_p2_members [simp]:
  "''Column'' \<in> set uses_p2" "''Sequence'' \<in> set uses_p2" "''RowData'' \<in> set uses_p2"
  "''SorterData'' \<in> set uses_p2" "''MakeRecord'' \<in> set uses_p2" "''Insert'' \<in> set uses_p2"
  "''IdxInsert'' \<in> set uses_p2" "''SorterInsert'' \<in> set uses_p2" "''OpenPseudo'' \<in> set uses_p2"
  "''OpenDup'' \<in> set uses_p2" "''OpenEphemeral'' \<in> set uses_p2" "''OpenAutoindex'' \<in> set uses_p2"
  "''SorterOpen'' \<in> set uses_p2" "''Variable'' \<in> set uses_p2" "''AggStep'' \<in> set uses_p2"
  "''AggValue'' \<in> set uses_p2" "''AggFinal'' \<in> set uses_p2" "''SCopy'' \<in> set uses_p2"
  "''IntCopy'' \<in> set uses_p2" "''Copy'' \<in> set uses_p2" "''Move'' \<in> set uses_p2"
  "''Integer'' \<in> set uses_p2" "''Blob'' \<in> set uses_p2" "''Count'' \<in> set uses_p2"
  "''Real'' \<in> set uses_p2" "''String8'' \<in> set uses_p2" "''Rowid'' \<in> set uses_p2"
  "''NewRowid'' \<in> set uses_p2" "''Not'' \<in> set uses_p2" "''Null'' \<in> set uses_p2"
  "''OffsetLimit'' \<in> set uses_p2"
  by (simp_all add: uses_p2_def)

lemma uses_p3_members [simp]:
  "''Column'' \<in> set uses_p3" "''MakeRecord'' \<in> set uses_p3" "''HaltIfNull'' \<in> set uses_p3"
  "''Function'' \<in> set uses_p3" "''AggStep'' \<in> set uses_p3" "''AggValue'' \<in> set uses_p3"
  "''AggFinal'' \<in> set uses_p3"
  by (simp_all add: uses_p3_def)

definition okr_opt :: "('a \<Rightarrow> bool) \<Rightarrow> 'a result option \<Rightarrow> bool" where
  "okr_opt Q r = (case r of Some r \<Rightarrow> okr Q r | None \<Rightarrow> True)"

lemma okr_opt_if: "(c \<Longrightarrow> okr Q a) \<Longrightarrow> okr_opt Q b \<Longrightarrow> okr_opt Q (if c then Some a else b)"
  by (simp add: okr_opt_def)

lemma okr_if_else: "(c \<Longrightarrow> okr Q a) \<Longrightarrow> okr Q b \<Longrightarrow> okr Q (if c then a else b)"
  by simp

lemmas data_arms = op_column_ok op_row_data_ok op_make_record_ok op_insert_ok open_table_ok op_open_dup_ok
  op_function_ok op_null_row_ok op_agg_step_ok op_agg_final_ok op_scopy_ok copy_regs_ok move_regs_ok op_null_ok
  op_binary_ok set_reg_ok set_cursor_ok reg_mut_ok cursor_table_update_ok

lemmas data_arm_defs = op_sequence_def op_delete_def op_open_pseudo_def op_open_read_def op_open_ephemeral_def
  op_variable_def op_halt_if_null_def op_cast_def op_copy_def op_move_def op_integer_def op_constant_def op_not_def
  op_offset_limit_def op_scopy_def [symmetric]

lemma exec_data_ok:
  assumes o: "operands_ok (i, op, p1, p2, p3, p4)" and "g \<le> 100000" and "program_i (mem st) < 2 ^ 31"
    and "state_ok P g B st"
  shows "okr_opt (state_ok P g B) (exec_data C op p1 p2 p3 p4 st)"
proof -
  have none: "okr_opt (state_ok P g B) None" by (simp add: okr_opt_def)
  have u: "op \<in> set uses_p1 \<Longrightarrow> 0 \<le> p1" "op \<in> set uses_p2 \<Longrightarrow> 0 \<le> p2" "op \<in> set uses_p3 \<Longrightarrow> 0 \<le> p3"
    using operands_okD [OF o] by blast+
  have k: "reg_ok g (RInt p1)" using operands_okD(1,4) [OF o] assms(2) by (simp add: reg_ok_def)
  show ?thesis
    unfolding exec_data_def
    by (intro okr_opt_if none;
        (insert u k assms(2-4) operands_okD(1-6) [OF o];
         auto simp: uses_groups data_arm_defs cursor_ok_def intro!: data_arms okr_if; fail))
qed

lemma flow_of_data:
  "okr_opt (state_ok P g False) r \<Longrightarrow> state_ok P g False st \<Longrightarrow> explorer_ok P g X \<Longrightarrow>
    okr (flow_ok P g) (case r of Some r \<Rightarrow> rbind r (\<lambda>st. Ok (Fall st, X)) | None \<Rightarrow> Ok (Fall st, X))"
  by (cases r) (auto simp: okr_opt_def intro!: continue_ok)

lemmas branching_arms = goto_ok go_sub_ok op_branch_ok op_is_null_ok op_not_null_ok op_must_be_int_ok op_if_ok
  op_if_pos_ok op_rewind_ok op_init_coroutine_ok op_end_coroutine_ok op_return_ok op_yield_ok op_jump_ok op_result_row_ok

lemma exec_op_ok:
  assumes o: "operands_ok ins" and "g \<le> 100000" and "program_i (mem st) < 2 ^ 31"
    and s: "state_ok P (Suc g) False st" and x: "explorer_ok P g X"
  shows "okr (flow_ok P g) (exec_op P C ins st X)"
proof -
  obtain i op p1 p2 p3 p4 where ins: "ins = (i, op, p1, p2, p3, p4)" by (cases ins)
  have u: "op \<in> set uses_p1 \<Longrightarrow> 0 \<le> p1" using operands_okD [OF o [unfolded ins]] by blast
  have st: "state_ok P g False st" using state_ok_mono [OF s] by simp
  have d: "okr (flow_ok P g) (case exec_data C op p1 p2 p3 p4 st of
      Some r \<Rightarrow> rbind r (\<lambda>st. Ok (Fall st, X)) | None \<Rightarrow> Ok (Fall st, X))"
    by (rule flow_of_data [OF exec_data_ok [OF o [unfolded ins] assms(2,3) st] st x])
  have b: "okr (flow_ok P g) (Ok (Break, X))" using x by simp
  show ?thesis
    unfolding exec_op_def ins prod.case
    by (intro okr_if_else d b;
        (insert u st s x assms(2,3) operands_okD(1-6) [OF o [unfolded ins]];
         auto simp: uses_groups intro!: branching_arms; fail))
qed

lemma branch_loop_ok:
  assumes "\<forall>ins \<in> set P. operands_ok ins" and "length P < 2 ^ 31"
  shows "g \<le> 100000 \<Longrightarrow> state_ok P g False st \<Longrightarrow> explorer_ok P g X \<Longrightarrow>
    okr (\<lambda>(g', X). g' \<le> g \<and> explorer_ok P g' X) (branch_loop P C g st X)"
proof (induction g arbitrary: st X)
  case 0
  then show ?case by simp
next
  case (Suc g)
  have x: "explorer_ok P g X" using Suc.prems(3) state_ok_mono [of P "Suc g" False _ g] by (auto simp: explorer_ok_def)
  let ?i = "program_i (mem st)"
  let ?st = "count_visit (st\<lparr>instruction_counter := instruction_counter st + 1\<rparr>)"
  show ?case
  proof (cases "length P \<le> ?i")
    case True
    with Suc.prems show ?thesis by simp
  next
    case False
    then have i: "?i < length P" "?i < 2 ^ 31" using assms(2) by simp_all
    have s: "state_ok P (Suc g) False ?st" "program_i (mem ?st) = ?i"
      using Suc.prems(2) by (simp_all add: state_ok_def count_visit_def)
    have g: "g \<le> 100000" using Suc.prems(1) by simp
    have "okr (\<lambda>(g', X). g' \<le> g \<and> explorer_ok P g' X)
        (case fX of (Fall st, X) \<Rightarrow> branch_loop P C g (next_i st) X | (Continue st, X) \<Rightarrow> branch_loop P C g st X
          | (Break, X) \<Rightarrow> Ok (g, X))" if "flow_ok P g fX" for fX
      using that Suc.IH [OF g] by (auto split: prod.split flow.split)
    then have "okr (\<lambda>(g', X). g' \<le> g \<and> explorer_ok P g' X) (rbind (exec_op P C (P ! ?i) ?st X)
        (\<lambda>(flow, X). case flow of Fall st \<Rightarrow> branch_loop P C g (next_i st) X | Continue st \<Rightarrow> branch_loop P C g st X
          | Break \<Rightarrow> Ok (g, X)))"
      using assms(1) i s g x
      by (intro okr_bind [OF exec_op_ok [of "P ! ?i" g ?st P X C]]) (auto split: prod.splits)
    then have "okr (\<lambda>(g', X). g' \<le> Suc g \<and> explorer_ok P g' X) (rbind (exec_op P C (P ! ?i) ?st X)
        (\<lambda>(flow, X). case flow of Fall st \<Rightarrow> branch_loop P C g (next_i st) X | Continue st \<Rightarrow> branch_loop P C g st X
          | Break \<Rightarrow> Ok (g, X)))"
      by (rule okr_mono) auto
    then show ?thesis using i x Suc.prems(2) by (simp add: state_ok_def Let_def)
  qed
qed

definition run_ok :: "instruction list \<Rightarrow> (nat \<times> explorer) result \<Rightarrow> bool" where
  "run_ok P = okr (\<lambda>(g, X). g \<le> 100000 \<and> explorer_ok P g X)"

lemma run_ok_step:
  assumes "\<forall>ins \<in> set P. operands_ok ins" and "length P < 2 ^ 31" and "run_ok P (Ok (g, X))"
    and "branch_states X = st # sts"
  shows "run_ok P (branch_loop P C g st (X\<lparr>branch_states := sts\<rparr>))"
  unfolding run_ok_def
  by (rule okr_mono [OF branch_loop_ok [OF assms(1,2)]]) (use assms(3,4) in \<open>auto simp: run_ok_def explorer_ok_def\<close>)

lemma explain_loop_ok:
  assumes "\<forall>ins \<in> set P. operands_ok ins" and "length P < 2 ^ 31" and "run_ok P r" and "explain_loop P C r = Some r'"
  shows "run_ok P r'"
proof (rule while_option_rule [where P = "run_ok P", OF _ assms(4) [unfolded explain_loop_def] assms(3)])
  fix s :: "(nat \<times> explorer) result"
  assume s: "run_ok P s" and "case s of Ok (_, X) \<Rightarrow> branch_states X \<noteq> [] | _ \<Rightarrow> False"
  then obtain g X st sts where "s = Ok (g, X)" "branch_states X = st # sts"
    by (auto split: result.splits simp: neq_Nil_conv)
  with run_ok_step [OF assms(1,2), of g X st sts C] s
  show "run_ok P (rbind s (\<lambda>(gas, X). case branch_pop X of Some (st, X) \<Rightarrow> branch_loop P C gas st X | None \<Rightarrow> s))"
    by (simp add: branch_pop_def)
qed

subsection \<open>Merging the rows\<close>

text \<open>What the rows say about column \<open>i\<close>.\<close>

definition column_facts :: "nat \<Rightarrow> column_type list list \<Rightarrow> column_type list" where
  "column_facts i rs = map (\<lambda>r. r ! i) (filter (\<lambda>r. i < length r) rs)"

fun first_type :: "column_type list \<Rightarrow> data_type" where
  "first_type [] = TNull"
| "first_type (c # cs) = (if ct_datatype c = TNull then first_type cs else ct_datatype c)"

fun join_all :: "column_type list \<Rightarrow> bool option" where
  "join_all [] = None"
| "join_all (c # cs) = join_nullable (ct_nullable c) (join_all cs)"

text \<open>The accumulators after some rows: as long as the longest of them, with the first type that is not null
  and the join of the nullabilities.\<close>

definition merged :: "column_type list list \<Rightarrow> data_type option list \<times> bool option list \<Rightarrow> bool" where
  "merged rs acc \<longleftrightarrow>
     (\<forall>i. (i < length (fst acc) \<longleftrightarrow> column_facts i rs \<noteq> []) \<and> (i < length (snd acc) \<longleftrightarrow> column_facts i rs \<noteq> []) \<and>
        (column_facts i rs \<noteq> [] \<longrightarrow>
           fst acc ! i = Some (first_type (column_facts i rs)) \<and> snd acc ! i = join_all (column_facts i rs)))"

definition join_type :: "data_type option \<Rightarrow> data_type \<Rightarrow> data_type option" where
  "join_type ty t = (if ty = None \<or> ty = Some TNull \<and> t \<noteq> TNull then Some t else ty)"

text \<open>The list \<open>acc\<close> with the elements \<open>xs\<close> joined in from index \<open>k\<close> on.\<close>

definition joined :: "('a \<Rightarrow> 'b \<Rightarrow> 'a) \<Rightarrow> ('b \<Rightarrow> 'a) \<Rightarrow> nat \<Rightarrow> 'b list \<Rightarrow> 'a list \<Rightarrow> 'a list" where
  "joined j new k xs acc =
     take k acc @ map (\<lambda>i. if k + i < length acc then j (acc ! (k + i)) (xs ! i) else new (xs ! i)) [0..<length xs]
       @ drop (k + length xs) acc"

lemma joined_Nil [simp]: "joined j new k [] acc = acc"
  by (simp add: joined_def)

lemma length_joined: "k \<le> length acc \<Longrightarrow> length (joined j new k xs acc) = max (length acc) (k + length xs)"
  by (simp add: joined_def)

lemma nth_joined:
  assumes "k \<le> length acc" and "i < max (length acc) (k + length xs)"
  shows "joined j new k xs acc ! i =
    (if k \<le> i \<and> i < k + length xs then if i < length acc then j (acc ! i) (xs ! (i - k)) else new (xs ! (i - k))
     else acc ! i)"
  using assms by (auto simp: joined_def nth_append min_def not_less) 

lemma joined_Cons:
  assumes "k \<le> length acc"
  shows "joined j new k (x # xs) acc =
    joined j new (Suc k) xs (if length acc = k then acc @ [new x] else acc[k := j (acc ! k) x])" (is "?l = ?r")
proof (rule nth_equalityI)
  show "length ?l = length ?r" using assms by (auto simp: length_joined)
  fix i assume "i < length ?l"
  then have i: "i < max (length acc) (k + length (x # xs))" using assms by (simp only: length_joined)
  show "?l ! i = ?r ! i"
    unfolding nth_joined [OF assms i]
    by (cases "i = k"; subst nth_joined) (use assms i in \<open>auto simp: nth_append nth_list_update nth_Cons' not_less\<close>)
qed

lemma merge_row_joined:
  "k \<le> length out \<Longrightarrow> length nulls = length out \<Longrightarrow>
    merge_row k cs (out, nulls) =
      Ok (joined join_type Some k (map ct_datatype cs) out, joined join_nullable (\<lambda>x. x) k (map ct_nullable cs) nulls)"
proof (induction cs arbitrary: k out nulls)
  case Nil
  then show ?case by simp
next
  case (Cons c cs)
  let ?out = "if length out = k then out @ [Some (ct_datatype c)] else out[k := join_type (out ! k) (ct_datatype c)]"
  let ?nulls = "if length nulls = k then nulls @ [ct_nullable c] else nulls[k := join_nullable (nulls ! k) (ct_nullable c)]"
  have n: "(case nulls ! k of Some null \<Rightarrow> (case ct_nullable c of Some t \<Rightarrow> nulls[k := Some (null \<or> t)] | None \<Rightarrow> nulls)
      | None \<Rightarrow> nulls[k := ct_nullable c]) = nulls[k := join_nullable (nulls ! k) (ct_nullable c)]" if "k < length nulls"
    using that by (auto simp: join_nullable_def list_update_same_conv eq_commute [of nulls] split: option.split)
  have "merge_column k c (out, nulls) = Ok (?out, ?nulls)"
    using Cons.prems by (auto simp: merge_column_def Let_def join_type_def n)
  moreover have "merge_row (Suc k) cs (?out, ?nulls) =
      Ok (joined join_type Some (Suc k) (map ct_datatype cs) ?out, joined join_nullable (\<lambda>x. x) (Suc k) (map ct_nullable cs) ?nulls)"
    by (rule Cons.IH) (use Cons.prems in auto)
  ultimately show ?case
    using Cons.prems joined_Cons [of k out join_type Some] joined_Cons [of k nulls join_nullable "\<lambda>x. x"]
    by (cases "length out = k") simp_all
qed

lemma column_facts_snoc:
  "column_facts i (rs @ [r]) = column_facts i rs @ (if i < length r then [r ! i] else [])"
  by (simp add: column_facts_def)

lemma first_type_snoc: "Some (first_type (cs @ [c])) = join_type (Some (first_type cs)) (ct_datatype c)"
  by (induction cs) (auto simp: join_type_def)

lemma join_all_snoc: "join_all (cs @ [c]) = join_nullable (join_all cs) (ct_nullable c)"
  by (induction cs) (auto simp: join_nullable_def split: option.splits)

lemma merge_row_merged:
  assumes "merged rs (out, nulls)" and "length nulls = length out"
  shows "\<exists>out' nulls'. merge_row 0 r (out, nulls) = Ok (out', nulls') \<and> merged (rs @ [r]) (out', nulls')
    \<and> length nulls' = length out'"
proof -
  let ?o = "joined join_type Some 0 (map ct_datatype r) out"
  let ?n = "joined join_nullable (\<lambda>x. x) 0 (map ct_nullable r) nulls"
  have l: "i < length out \<longleftrightarrow> column_facts i rs \<noteq> []" for i using assms(1) by (simp add: merged_def)
  have v: "i < length out \<Longrightarrow> out ! i = Some (first_type (column_facts i rs)) \<and> nulls ! i = join_all (column_facts i rs)" for i
    using assms(1) by (simp add: merged_def)
  have "merged (rs @ [r]) (?o, ?n)"
    unfolding merged_def fst_conv snd_conv
  proof (intro allI conjI)
    fix i
    show "(i < length ?o) = (column_facts i (rs @ [r]) \<noteq> [])" "(i < length ?n) = (column_facts i (rs @ [r]) \<noteq> [])"
      using l [of i] assms(2) by (auto simp: length_joined column_facts_snoc)
    show "column_facts i (rs @ [r]) \<noteq> [] \<longrightarrow>
        ?o ! i = Some (first_type (column_facts i (rs @ [r]))) \<and> ?n ! i = join_all (column_facts i (rs @ [r]))"
    proof (cases "i < length out")
      case True
      with v [OF True] assms(2) show ?thesis
        by (simp add: nth_joined column_facts_snoc first_type_snoc join_all_snoc)
    next
      case False
      with l [of i] have "column_facts i rs = []" by simp
      with False assms(2) show ?thesis
        by (auto simp: nth_joined column_facts_snoc join_nullable_def split: option.split)
    qed
  qed
  then show ?thesis using merge_row_joined [of 0 out nulls r] assms(2) by (auto simp: length_joined)
qed

lemma merge_rows_merged:
  "merged rs (out, nulls) \<Longrightarrow> length nulls = length out \<Longrightarrow>
    \<exists>acc. merge_rows rs' (out, nulls) = Ok acc \<and> merged (rs @ rs') acc"
proof (induction rs' arbitrary: rs out nulls)
  case Nil
  then show ?case by simp
next
  case (Cons r rs')
  from merge_row_merged [OF Cons.prems, of r] obtain out' nulls' where
    "merge_row 0 r (out, nulls) = Ok (out', nulls')" "merged (rs @ [r]) (out', nulls')" "length nulls' = length out'"
    by blast
  with Cons.IH [of "rs @ [r]" out' nulls'] show ?case by simp
qed

lemma merge_rows_all: "\<exists>acc. merge_rows rs ([], []) = Ok acc \<and> merged rs acc"
  using merge_rows_merged [of "[]" "[]" "[]" rs] by (simp add: merged_def column_facts_def)

subsection \<open>Comparing memory\<close>

lemma im_eq_refl: "(\<And>x. Some x \<in> set m \<Longrightarrow> eq x x) \<Longrightarrow> im_eq eq m m"
  by (auto simp: im_eq_def list_all2_conv_all_nth option.rel_refl_strong) (metis nth_mem option.exhaust option.rel_sel option.sel)

lemma ct_eq_refl: "ct_eq c c"
proof (induction c rule: column_type.induct)
  case (CRecord r)
  then have "ct_eq x x" if "Some x \<in> set r" for x using that by force
  then show ?case by (simp add: im_eq_refl)
qed simp

lemma mem_eq_refl: "mem_eq m m"
proof -
  have "reg_eq v v" for v by (simp add: reg_eq_def ct_eq_refl split: reg_data_type.split)
  moreover have "table_eq v v" for v by (simp add: table_eq_def im_eq_refl ct_eq_refl)
  ultimately show ?thesis by (simp add: mem_eq_def im_eq_refl)
qed

subsection \<open>Scanning a table\<close>

text \<open>The bytecode of \<^verbatim>\<open>SELECT * FROM t\<close> for a table of \<open>n\<close> columns at root page \<open>root\<close>.\<close>

definition scan_program :: "int \<Rightarrow> nat \<Rightarrow> instruction list" where
  "scan_program root n =
     [(0, OP_INIT, 0, int n + 6, 0, []), (1, OP_OPEN_READ, 0, root, 0, []), (2, OP_REWIND, 0, int n + 5, 0, [])]
     @ map (\<lambda>i. (int i + 3, OP_COLUMN, 0, int i, int i + 1, [])) [0..<n]
     @ [(int n + 3, OP_RESULT_ROW, 1, int n, 0, []), (int n + 4, OP_NEXT, 0, 3, 0, []),
        (int n + 5, OP_HALT, 0, 0, 0, []), (int n + 6, ''Transaction'', 0, 0, 0, []), (int n + 7, OP_GOTO, 0, 1, 0, [])]"

lemma scan_length [simp]: "length (scan_program root n) = n + 8"
  by (simp add: scan_program_def)

lemma scan_nth:
  "scan_program root n ! 0 = (0, OP_INIT, 0, int n + 6, 0, [])"
  "scan_program root n ! Suc 0 = (1, OP_OPEN_READ, 0, root, 0, [])"
  "scan_program root n ! 2 = (2, OP_REWIND, 0, int n + 5, 0, [])"
  "i < n \<Longrightarrow> scan_program root n ! (i + 3) = (int i + 3, OP_COLUMN, 0, int i, int i + 1, [])"
  "scan_program root n ! (n + 3) = (int n + 3, OP_RESULT_ROW, 1, int n, 0, [])"
  "scan_program root n ! (n + 4) = (int n + 4, OP_NEXT, 0, 3, 0, [])"
  "scan_program root n ! (n + 5) = (int n + 5, OP_HALT, 0, 0, 0, [])"
  "scan_program root n ! (n + 6) = (int n + 6, ''Transaction'', 0, 0, 0, [])"
  "scan_program root n ! (n + 7) = (int n + 7, OP_GOTO, 0, 1, 0, [])"
  by (simp_all add: scan_program_def nth_append nth_Cons')

text \<open>The state in which an instruction is executed.\<close>

definition tick :: "query_state \<Rightarrow> query_state" where
  "tick st = count_visit (st\<lparr>instruction_counter := instruction_counter st + 1\<rparr>)"

lemma tick_simps [simp]:
  "mem (tick st) = mem st" "visited (tick st) = (visited st)[program_i (mem st) := visited st ! program_i (mem st) + 1]"
  by (simp_all add: tick_def count_visit_def)

lemma branch_loop_step:
  assumes "program_i (mem st) < length P" "length (visited st) = length P" "visited st ! program_i (mem st) \<le> 2"
  shows "branch_loop P C (Suc g) st X =
    rbind (exec_op P C (P ! program_i (mem st)) (tick st) X) (\<lambda>(flow, X).
      case flow of Fall st \<Rightarrow> branch_loop P C g (next_i st) X | Continue st \<Rightarrow> branch_loop P C g st X | Break \<Rightarrow> Ok (g, X))"
  using assms by (simp add: tick_def MAX_LOOP_COUNT_def Let_def)

declare branch_loop.simps(2) [simp del]

lemma exec_arms:
  "exec_op P C (i, ''Init'', p1, p2, p3, p4) st X = op_goto p2 st X"
  "exec_op P C (i, ''Goto'', p1, p2, p3, p4) st X = op_goto p2 st X"
  "exec_op P C (i, ''Transaction'', p1, p2, p3, p4) st X = Ok (Fall st, X)"
  "exec_op P C (i, ''OpenRead'', p1, p2, p3, p4) st X = rbind (op_open_read C p1 p2 p3 st) (\<lambda>st. Ok (Fall st, X))"
  "exec_op P C (i, ''Rewind'', p1, p2, p3, p4) st X = op_rewind p1 p2 st X"
  "exec_op P C (i, ''Column'', p1, p2, p3, p4) st X = rbind (op_column p1 p2 p3 st) (\<lambda>st. Ok (Fall st, X))"
  "exec_op P C (i, ''ResultRow'', p1, p2, p3, p4) st X = op_result_row p1 p2 st X"
  "exec_op P C (i, ''Next'', p1, p2, p3, p4) st X = op_branch p2 st X"
  "exec_op P C (i, ''Halt'', p1, p2, p3, p4) st X = Ok (Break, X)"
  "exec_op P C (i, ''Int64'', p1, p2, p3, p4) st X = Ok (Fall st, X)"
  "exec_op P C (i, ''Jump'', p1, p2, p3, p4) st X = op_jump p1 p2 p3 st X"
  by (simp_all add: exec_op_def exec_data_def goto_ops_def branch_ops_def rewind_ops_def binary_ops_def)

text \<open>\<open>moved i st st'\<close>: \<open>st'\<close> is \<open>st\<close> after instruction \<open>i\<close>, up to what only
  names the branch.\<close>

definition at_i :: "nat \<Rightarrow> nat \<Rightarrow> query_state \<Rightarrow> bool" where
  "at_i i l st \<longleftrightarrow> program_i (mem st) = i \<and> length (visited st) = l \<and> i < l \<and> visited st ! i \<le> 2"

definition scanning :: "column_type int_map \<Rightarrow> bool option \<Rightarrow> query_state \<Rightarrow> bool" where
  "scanning m e st \<longleftrightarrow> im_lookup (cursors (mem st)) 0 = Some (Normal 1) \<and>
     im_lookup (tables (mem st)) 1 = Some \<lparr>cols = m, is_empty = e\<rparr>"

definition column_or_default :: "column_type int_map \<Rightarrow> nat \<Rightarrow> column_type" where
  "column_or_default m i = (case im_lookup m i of Some c \<Rightarrow> c | None \<Rightarrow> column_default)"

fun fill_regs :: "column_type int_map \<Rightarrow> nat \<Rightarrow> reg_data_type int_map \<Rightarrow> reg_data_type int_map" where
  "fill_regs m 0 r = r"
| "fill_regs m (Suc k) r = im_upd (Suc k) (RSingle (column_or_default m k)) (fill_regs m k r)"

lemma fill_regs_lookup:
  "im_lookup (fill_regs m k r) j = (if 1 \<le> j \<and> j \<le> k then Some (RSingle (column_or_default m (j - 1))) else im_lookup r j)"
  by (induction k) auto

lemma im_upd_same: "im_lookup m n = Some v \<Longrightarrow> im_upd n v m = m"
  by (auto simp: im_upd_def im_lookup_def list_update_same_conv split: if_splits)

lemma fill_regs_again: "k \<le> n \<Longrightarrow> fill_regs m k (fill_regs m n r) = fill_regs m n r"
  by (induction k) (simp_all add: im_upd_same fill_regs_lookup)

lemma op_column_scan:
  assumes "scanning m e st"
  shows "op_column 0 (int k) (int k + 1) st =
    Ok (with_mem (\<lambda>q. q\<lparr>regs := im_upd (Suc k) (RSingle (column_or_default m k)) (regs q)\<rparr>) st)"
proof -
  have "nat (int k + 1) = Suc k" by simp
  with assms show ?thesis
    by (simp add: op_column_def get_cursor_def im_simps cursor_columns_def scanning_def set_reg_def with_mem_def
        column_or_default_def)
qed

text \<open>Executing the columns from index \<open>k\<close> on; the visits of other instructions do not change.\<close>

lemma column_run:
  assumes "scanning m e st" "mem st = q\<lparr>program_i := k + 3, regs := fill_regs m k r\<rparr>" "length (visited st) = n + 8"
    and "k + d = n" "\<forall>j. k \<le> j \<and> j < n \<longrightarrow> visited st ! (j + 3) \<le> 2"
  shows "\<exists>st'. branch_loop (scan_program root n) C (d + g) st X = branch_loop (scan_program root n) C g st' X \<and>
    scanning m e st' \<and> mem st' = q\<lparr>program_i := n + 3, regs := fill_regs m n r\<rparr> \<and> length (visited st') = n + 8 \<and>
    (\<forall>j. visited st' ! j = visited st ! j + (if k + 3 \<le> j \<and> j < n + 3 then 1 else 0))"
  using assms
proof (induction d arbitrary: k st)
  case 0
  then show ?case by (intro exI [of _ st]) auto
next
  case (Suc d)
  let ?st = "next_i (with_mem (\<lambda>q. q\<lparr>regs := im_upd (Suc k) (RSingle (column_or_default m k)) (regs q)\<rparr>) (tick st))"
  have k: "k < n" and i: "program_i (mem st) = k + 3" using Suc.prems(2,4) by simp_all
  have t: "scanning m e (tick st)" using Suc.prems(1) by (simp add: scanning_def)
  have "branch_loop (scan_program root n) C (Suc (d + g)) st X = branch_loop (scan_program root n) C (d + g) ?st X"
    by (subst branch_loop_step) (use Suc.prems(3,5) k in \<open>simp_all add: i scan_nth exec_arms op_column_scan [OF t]\<close>)
  moreover have "\<exists>st'. branch_loop (scan_program root n) C (d + g) ?st X = branch_loop (scan_program root n) C g st' X \<and>
    scanning m e st' \<and> mem st' = q\<lparr>program_i := n + 3, regs := fill_regs m n r\<rparr> \<and> length (visited st') = n + 8 \<and>
    (\<forall>j. visited st' ! j = visited ?st ! j + (if Suc k + 3 \<le> j \<and> j < n + 3 then 1 else 0))"
    by (rule Suc.IH) (use Suc.prems k in \<open>auto simp: scanning_def next_i_def with_mem_def i nth_list_update\<close>)
  moreover have "visited ?st ! j + (if Suc k + 3 \<le> j \<and> j < n + 3 then 1 else 0) =
      visited st ! j + (if k + 3 \<le> j \<and> j < n + 3 then 1 else 0)" for j
    using Suc.prems(3) k by (auto simp: next_i_def with_mem_def i nth_list_update)
  ultimately show ?case by simp
qed

definition scan_mem :: "column_type int_map \<Rightarrow> bool option \<Rightarrow> nat \<Rightarrow> nat \<Rightarrow> memory_state" where
  "scan_mem m e i k =
     \<lparr>program_i = i, regs = fill_regs m k im_new, cursors = im_upd 0 (Normal 1) im_new,
      tables = im_upd 1 \<lparr>cols = m, is_empty = e\<rparr> im_new\<rparr>"

definition scan_row :: "column_type int_map \<Rightarrow> nat \<Rightarrow> column_type list" where
  "scan_row m n = map (column_or_default m) [0..<n]"

lemma scanning_mem: "mem st = scan_mem m e i k \<Longrightarrow> scanning m e st"
  by (simp add: scanning_def scan_mem_def im_new_def)

lemma as_usize_small: "0 \<le> p \<Longrightarrow> p < 2 ^ 31 + 10 \<Longrightarrow> as_usize p = nat p"
  by (simp add: as_usize_def)

lemma read_regs_map:
  "\<forall>i \<in> set is. 0 \<le> i \<Longrightarrow> read_regs is st =
    Ok (map (\<lambda>i. case im_lookup (regs (mem st)) (nat i) of Some d \<Rightarrow> reg_columntype d | None \<Rightarrow> column_default) is)"
  by (induction "is") (simp_all add: get_reg_def im_simps)

lemma read_scan_row:
  assumes "mem st = scan_mem m e i n"
  shows "read_regs [1..int n] st = Ok (scan_row m n)"
  by (subst read_regs_map)
    (auto simp: assms scan_mem_def fill_regs_lookup scan_row_def reg_columntype_def nat_add_distrib intro!: nth_equalityI)

lemma result_row_scan:
  assumes "mem st = scan_mem m e (n + 3) n" and "n < 2 ^ 31"
  shows "op_result_row 1 (int n) st X =
    rbind (fork (\<lambda>b. Ok (next_i b)) st X) (\<lambda>X. Ok (Break, X\<lparr>result_states := scan_row m n # result_states X\<rparr>))"
proof -
  have "int n < 2 ^ 31" using assms(2) by (metis of_nat_less_iff of_nat_numeral of_nat_power)
  then have "i64 (1 + int n) = Ok (1 + int n)" by (simp add: i64_def)
  with read_scan_row [OF assms(1)] show ?thesis by (simp add: op_result_row_def)
qed

text \<open>A fork that is new, and one whose memory was seen.\<close>

lemma fork_new:
  assumes "f (fst (new_branch st X)) = Ok b" and "branch_parent b \<noteq> None"
    and "\<forall>q \<in> fst ` set (visited_branch_state X). program_i q \<noteq> program_i (mem b)"
  shows "\<exists>X'. fork f st X = Ok X' \<and> branch_states X' = b # branch_states X \<and>
    map fst (visited_branch_state X') = mem b # map fst (visited_branch_state X) \<and> result_states X' = result_states X"
proof -
  have "\<not> list_ex (\<lambda>(q, _). mem_eq q (mem b)) (visited_branch_state X)"
    using assms(3) by (auto simp: list_ex_iff mem_eq_def)
  with assms(1,2) show ?thesis by (simp add: fork_alt branch_push_def)
qed

lemma fork_seen:
  assumes "f (fst (new_branch st X)) = Ok b" and "branch_parent b \<noteq> None" and "mem b \<in> fst ` set (visited_branch_state X)"
  shows "\<exists>X'. fork f st X = Ok X' \<and> branch_states X' = branch_states X \<and> result_states X' = result_states X"
proof -
  have "list_ex (\<lambda>(q, _). mem_eq q (mem b)) (visited_branch_state X)"
    using assms(3) mem_eq_refl [of "mem b"] by (force simp: list_ex_iff)
  with assms(1,2) show ?thesis by (simp add: fork_alt branch_push_def)
qed

lemma moved_simps [simp]:
  "visited (goto_i i st) = visited st" "visited (next_i st) = visited st"
  "branch_parent (goto_i i st) = branch_parent st" "branch_parent (next_i st) = branch_parent st"
  "program_i (mem (goto_i i st)) = i" "program_i (mem (next_i st)) = Suc (program_i (mem st))"
  by (simp_all add: goto_i_def next_i_def with_mem_def)

lemma scan_mem_moves [simp]:
  "mem st = scan_mem m e i k \<Longrightarrow> mem (goto_i j st) = scan_mem m e j k"
  "mem st = scan_mem m e i k \<Longrightarrow> mem (next_i st) = scan_mem m e (Suc i) k"
  "program_i (scan_mem m e i k) = i"
  by (simp_all add: goto_i_def next_i_def with_mem_def scan_mem_def)

text \<open>From the first instruction to the table being open.\<close>

lemma scan_open:
  assumes "n < 2 ^ 31" and "C (0, root) = Some m" and "mem st = start_memory" and "visited st = replicate (n + 8) 0"
  shows "\<exists>st'. branch_loop (scan_program root n) C (4 + g) st X = branch_loop (scan_program root n) C g st' X \<and>
    mem st' = scan_mem m None 2 0 \<and> length (visited st') = n + 8 \<and> (\<forall>j < n + 8. visited st' ! j \<le> 1) \<and>
    (\<forall>j. 2 \<le> j \<and> j < n + 6 \<longrightarrow> visited st' ! j = 0)"
proof -
  have n: "int n < 2 ^ 31" using assms(1) by (metis of_nat_less_iff of_nat_numeral of_nat_power)
  let ?P = "scan_program root n"
  define s1 where "s1 = goto_i (n + 6) (tick st)"
  define s2 where "s2 = next_i (tick s1)"
  define s3 where "s3 = goto_i (Suc 0) (tick s2)"
  define s4 where "s4 = next_i (with_mem (\<lambda>q. scan_mem m None (Suc 0) 0) (tick s3))"
  have u: "as_usize (int n + 6) = n + 6" "as_usize 1 = 1" using n by (simp_all add: as_usize_small)
  have i: "program_i (mem st) = 0" "program_i (mem s1) = n + 6" "program_i (mem s2) = n + 7" "program_i (mem s3) = 1"
    using assms(3) by (simp_all add: s1_def s2_def s3_def start_memory_def)
  have v: "visited s1 = (replicate (n + 8) 0)[0 := 1]" "visited s2 = (visited s1)[n + 6 := 1]"
    "visited s3 = (visited s2)[n + 7 := 1]" "visited s4 = (visited s3)[1 := 1]"
    using assms(4) i by (simp_all add: s1_def s2_def s3_def s4_def with_mem_def nth_list_update add.commute [of 7])
  have m3: "mem s3 = start_memory\<lparr>program_i := 1\<rparr>"
    using assms(3) by (simp add: s1_def s2_def s3_def start_memory_def goto_i_def next_i_def with_mem_def)
  have o: "op_open_read C 0 root 0 (tick s3) = Ok (with_mem (\<lambda>q. scan_mem m None (Suc 0) 0) (tick s3))"
    using assms(2) by (simp add: op_open_read_def open_table_def set_table_def set_cursor_def m3 start_memory_def
        im_simps as_i64_small with_mem_def scan_mem_def)
  have 1: "branch_loop ?P C (Suc (3 + g)) st X = branch_loop ?P C (3 + g) s1 X"
    by (subst branch_loop_step) (simp_all add: i assms(4) scan_nth exec_arms op_goto_def u s1_def [symmetric])
  have 2: "branch_loop ?P C (Suc (2 + g)) s1 X = branch_loop ?P C (2 + g) s2 X"
    by (subst branch_loop_step) (simp_all add: i v scan_nth exec_arms s2_def [symmetric])
  have 3: "branch_loop ?P C (Suc (1 + g)) s2 X = branch_loop ?P C (1 + g) s3 X"
    by (subst branch_loop_step) (simp_all add: i v scan_nth exec_arms op_goto_def u s3_def [symmetric] nth_list_update)
  have 4: "branch_loop ?P C (Suc g) s3 X = branch_loop ?P C g s4 X"
    by (subst branch_loop_step) (simp_all add: i v scan_nth exec_arms o s4_def [symmetric] nth_list_update)
  have "mem s4 = scan_mem m None 2 0" by (simp add: s4_def next_i_def with_mem_def scan_mem_def)
  moreover have "length (visited s4) = n + 8" "\<forall>j < n + 8. visited s4 ! j \<le> 1" "\<forall>j. 2 \<le> j \<and> j < n + 6 \<longrightarrow> visited s4 ! j = 0"
    by (auto simp: v nth_list_update)
  moreover have "branch_loop ?P C (4 + g) st X = branch_loop ?P C g s4 X"
    using 1 2 3 4 by (simp add: numeral_eq_Suc)
  ultimately show ?thesis by blast
qed

text \<open>The rows of one pass over the columns.\<close>

lemma scan_columns:
  assumes "n < 2 ^ 31" and "mem st = scan_mem m e 3 k" and "k = 0 \<or> k = n" and "length (visited st) = n + 8"
    and "\<forall>j. 3 \<le> j \<and> j < n + 4 \<longrightarrow> visited st ! j \<le> 2"
  shows "\<exists>st'. branch_loop (scan_program root n) C (n + 1 + g) st X =
      rbind (fork (\<lambda>b. Ok (next_i b)) st' X) (\<lambda>X. Ok (g, X\<lparr>result_states := scan_row m n # result_states X\<rparr>)) \<and>
    mem st' = scan_mem m e (n + 3) n \<and> length (visited st') = n + 8 \<and>
    (\<forall>j < n + 8. visited st' ! j = visited st ! j + (if 3 \<le> j \<and> j < n + 4 then 1 else 0))"
proof -
  let ?P = "scan_program root n"
  let ?r = "fill_regs m k im_new"
  have "\<exists>st1. branch_loop ?P C (n + (1 + g)) st X = branch_loop ?P C (1 + g) st1 X \<and> scanning m e st1 \<and>
    mem st1 = (mem st)\<lparr>program_i := n + 3, regs := fill_regs m n ?r\<rparr> \<and> length (visited st1) = n + 8 \<and>
    (\<forall>j. visited st1 ! j = visited st ! j + (if 0 + 3 \<le> j \<and> j < n + 3 then 1 else 0))"
    by (rule column_run) (use assms scanning_mem [OF assms(2)] in \<open>simp_all add: scan_mem_def\<close>)
  then obtain st1 where s: "branch_loop ?P C (n + (1 + g)) st X = branch_loop ?P C (1 + g) st1 X"
    and m1: "mem st1 = (mem st)\<lparr>program_i := n + 3, regs := fill_regs m n ?r\<rparr>" and l: "length (visited st1) = n + 8"
    and v: "\<And>j. visited st1 ! j = visited st ! j + (if 3 \<le> j \<and> j < n + 3 then 1 else 0)"
    by auto
  have "fill_regs m n ?r = fill_regs m n im_new" using assms(3) fill_regs_again [of n n m] by auto
  then have m1: "mem st1 = scan_mem m e (n + 3) n" using m1 assms(2) by (simp add: scan_mem_def)
  then have mt: "mem (tick st1) = scan_mem m e (n + 3) n" by simp
  have "branch_loop ?P C (Suc g) st1 X =
      rbind (fork (\<lambda>b. Ok (next_i b)) (tick st1) X) (\<lambda>X. Ok (g, X\<lparr>result_states := scan_row m n # result_states X\<rparr>))"
    by (subst branch_loop_step)
      (use assms(5) l v m1 in \<open>simp_all add: scan_nth exec_arms result_row_scan [OF mt assms(1)] rbind_assoc\<close>)
  with s have "branch_loop ?P C (n + 1 + g) st X =
      rbind (fork (\<lambda>b. Ok (next_i b)) (tick st1) X) (\<lambda>X. Ok (g, X\<lparr>result_states := scan_row m n # result_states X\<rparr>))"
    by simp
  moreover have "\<forall>j < n + 8. visited (tick st1) ! j = visited st ! j + (if 3 \<le> j \<and> j < n + 4 then 1 else 0)"
    using l v by (auto simp: m1 nth_list_update)
  ultimately show ?thesis using mt l by (intro exI [of _ "tick st1"]) simp
qed

text \<open>The first branch: it leaves the branch of an empty table and the one after the row.\<close>

lemma scan_first:
  assumes "n < 2 ^ 31" and "C (0, root) = Some m" and "mem st = start_memory" and "visited st = replicate (n + 8) 0"
    and "branch_states X = []" "visited_branch_state X = []" "result_states X = []"
  shows "\<exists>X' A B. branch_loop (scan_program root n) C (n + 6 + g) st X = Ok (g, X') \<and> branch_states X' = [B, A] \<and>
    map fst (visited_branch_state X') = [mem B, mem A] \<and> result_states X' = [scan_row m n] \<and>
    mem A = scan_mem m (Some True) (n + 5) 0 \<and> mem B = scan_mem m None (n + 4) n \<and>
    length (visited A) = n + 8 \<and> length (visited B) = n + 8 \<and> visited A ! (n + 5) \<le> 2 \<and> (\<forall>j < n + 8. visited B ! j \<le> 1)"
proof -
  let ?P = "scan_program root n"
  have n: "int n < 2 ^ 31" using assms(1) by (metis of_nat_less_iff of_nat_numeral of_nat_power)
  have u: "as_usize (int n + 5) = n + 5" using n by (simp add: as_usize_small)
  obtain s4 where s4: "branch_loop ?P C (4 + (n + 2 + g)) st X = branch_loop ?P C (n + 2 + g) s4 X"
    and m4: "mem s4 = scan_mem m None 2 0" and l4: "length (visited s4) = n + 8"
    and v4: "\<forall>j < n + 8. visited s4 ! j \<le> 1" "\<forall>j. 2 \<le> j \<and> j < n + 6 \<longrightarrow> visited s4 ! j = 0"
    using scan_open [where n = n and C = C and root = root and m = m and st = st, OF assms(1-4), of "n + 2 + g" X] by blast
  let ?f = "\<lambda>b. cursor_table_update 0 (is_empty_update (\<lambda>_. Some True)) (goto_i (n + 5) b)"
  define A where "A = with_mem (\<lambda>_. scan_mem m (Some True) (n + 5) 0) (goto_i (n + 5) (fst (new_branch (tick s4) X)))"
  have f: "?f (fst (new_branch (tick s4) X)) = Ok A"
    by (simp add: A_def cursor_table_update_def get_cursor_def m4 scan_mem_def im_simps im_new_def cursor_table_mut_def
        with_mem_def goto_i_def im_adj_def im_upd_def im_lookup_def)
  have p: "branch_parent A \<noteq> None" by (simp add: A_def with_mem_def)
  obtain X1 where X1: "fork ?f (tick s4) X = Ok X1" "branch_states X1 = [A]" "map fst (visited_branch_state X1) = [mem A]"
    "result_states X1 = []"
    using fork_new [where f = ?f and st = "tick s4" and X = X, OF f p] assms(5-7) by auto
  have r: "op_rewind 0 (int n + 5) (tick s4) X = Ok (Continue (next_i (tick s4)), X1)"
    using X1(1) by (simp add: op_rewind_def get_cursor_def m4 scan_mem_def im_simps im_new_def cursor_is_empty_def u)
  have 5: "branch_loop ?P C (Suc (n + 1 + g)) s4 X = branch_loop ?P C (n + 1 + g) (next_i (tick s4)) X1"
    by (subst branch_loop_step) (use v4 in \<open>simp_all add: m4 l4 scan_nth exec_arms r\<close>)
  have m5: "mem (next_i (tick s4)) = scan_mem m None 3 0" using m4 by (simp add: next_i_def with_mem_def scan_mem_def)
  have v5: "visited (next_i (tick s4)) ! j \<le> 1 \<and> (3 \<le> j \<and> j < n + 4 \<longrightarrow> visited (next_i (tick s4)) ! j = 0)" if "j < n + 8" for j
    using v4 l4 that by (auto simp: m4 nth_list_update)
  have c: "\<forall>j. 3 \<le> j \<and> j < n + 4 \<longrightarrow> visited (next_i (tick s4)) ! j \<le> 2"
  proof (intro allI impI)
    fix j assume "3 \<le> j \<and> j < n + 4"
    with v5 [of j] show "visited (next_i (tick s4)) ! j \<le> 2" by simp
  qed
  obtain s6 where s6: "branch_loop ?P C (n + 1 + g) (next_i (tick s4)) X1 =
      rbind (fork (\<lambda>b. Ok (next_i b)) s6 X1) (\<lambda>X. Ok (g, X\<lparr>result_states := scan_row m n # result_states X\<rparr>))"
    and m6: "mem s6 = scan_mem m None (n + 3) n" and l6: "length (visited s6) = n + 8"
    and v6: "\<forall>j < n + 8. visited s6 ! j = visited (next_i (tick s4)) ! j + (if 3 \<le> j \<and> j < n + 4 then 1 else 0)"
    using scan_columns [OF assms(1) m5 _ _ c, of root C g X1] l4 by auto
  define B where "B = next_i (fst (new_branch s6 X1))"
  have mB: "mem B = scan_mem m None (n + 4) n" using m6 by (simp add: B_def next_i_def with_mem_def scan_mem_def)
  have "\<forall>q \<in> fst ` set (visited_branch_state X1). program_i q \<noteq> program_i (mem B)"
    unfolding set_map [symmetric] X1(3) by (simp add: mB A_def with_mem_def)
  then obtain X2 where X2: "fork (\<lambda>b. Ok (next_i b)) s6 X1 = Ok X2" "branch_states X2 = [B, A]"
    "map fst (visited_branch_state X2) = [mem B, mem A]" "result_states X2 = []"
    using fork_new [where f = "\<lambda>b. Ok (next_i b)" and st = s6 and X = X1 and b = B] X1 by (auto simp: B_def)
  have a: "n + 6 + g = 4 + (n + 2 + g)" "n + 2 + g = Suc (n + 1 + g)" by simp_all
  have "branch_loop ?P C (n + 6 + g) st X = Ok (g, X2\<lparr>result_states := [scan_row m n]\<rparr>)"
    unfolding a(1) s4 unfolding a(2) 5 s6 X2(1) by (simp add: X2(4))
  moreover have "mem A = scan_mem m (Some True) (n + 5) 0" "length (visited A) = n + 8" "visited A ! (n + 5) \<le> 2"
    using l4 v4 by (simp_all add: A_def with_mem_def m4 nth_list_update)
  moreover have "length (visited B) = n + 8" "\<forall>j < n + 8. visited B ! j \<le> 1"
    using l6 v6 v5 by (auto simp: B_def)
  ultimately show ?thesis using X2(2,3) mB
    by (intro exI [of _ "X2\<lparr>result_states := [scan_row m n]\<rparr>"] exI [of _ A] exI [of _ B]) simp
qed

text \<open>After a row: the branch to the next row, and the end.\<close>

lemma scan_next:
  assumes "mem st = scan_mem m None (n + 4) n" and "length (visited st) = n + 8" and "\<forall>j < n + 8. visited st ! j \<le> 1"
    and "map fst (visited_branch_state X) = [scan_mem m None (n + 4) n, scan_mem m (Some True) (n + 5) 0]"
  shows "\<exists>X' D. branch_loop (scan_program root n) C (2 + g) st X = Ok (g, X') \<and> branch_states X' = D # branch_states X \<and>
    map fst (visited_branch_state X') = mem D # map fst (visited_branch_state X) \<and> result_states X' = result_states X \<and>
    mem D = scan_mem m None 3 n \<and> length (visited D) = n + 8 \<and> (\<forall>j < n + 8. visited D ! j \<le> 2)"
proof -
  let ?P = "scan_program root n"
  define D where "D = goto_i 3 (fst (new_branch (tick st) X))"
  have u: "as_usize 3 = 3" by (simp add: as_usize_small)
  have mD: "mem D = scan_mem m None 3 n" using assms(1) by (simp add: D_def goto_i_def with_mem_def scan_mem_def)
  have "\<forall>q \<in> fst ` set (visited_branch_state X). program_i q \<noteq> program_i (mem D)"
    unfolding set_map [symmetric] assms(4) by (simp add: mD)
  then obtain X' where X': "fork (\<lambda>b. Ok (goto_i 3 b)) (tick st) X = Ok X'" "branch_states X' = D # branch_states X"
    "map fst (visited_branch_state X') = mem D # map fst (visited_branch_state X)" "result_states X' = result_states X"
    using fork_new [where f = "\<lambda>b. Ok (goto_i 3 b)" and st = "tick st" and X = X and b = D] by (auto simp: D_def)
  have v: "visited st ! (n + 4) \<le> 2" "visited st ! (n + 5) \<le> 2"
    using assms(3) [rule_format, of "n + 4"] assms(3) [rule_format, of "n + 5"] by simp_all
  have 1: "branch_loop ?P C (Suc (Suc g)) st X = branch_loop ?P C (Suc g) (next_i (tick st)) X'"
    by (subst branch_loop_step)
      (use assms(2) v in \<open>simp_all add: assms(1) scan_nth exec_arms op_branch_def fork_to_def u X'\<close>)
  define st2 where "st2 = next_i (tick st)"
  have s2: "program_i (mem st2) = n + 5" "length (visited st2) = n + 8" "visited st2 ! (n + 5) \<le> 2"
    using assms(1,2) v by (simp_all add: st2_def next_i_def with_mem_def scan_mem_def)
  have 2: "branch_loop ?P C (Suc g) st2 X' = Ok (g, X')"
    by (subst branch_loop_step) (simp_all add: s2 scan_nth exec_arms)
  have "visited D ! j \<le> 2" if "j < n + 8" for j
    using assms(3) [rule_format, OF that] that assms(2) by (auto simp: D_def assms(1) nth_list_update)
  moreover have "length (visited D) = n + 8" using assms(2) by (simp add: D_def)
  ultimately show ?thesis using 1 2 [unfolded st2_def] X'(2-4) mD by (intro exI [of _ X'] exI [of _ D]) (simp add: numeral_2_eq_2)
qed

lemma explain_loop_Ok:
  "explain_loop P C (Ok (g, X)) =
     (case branch_states X of
        [] \<Rightarrow> Some (Ok (g, X))
      | st # sts \<Rightarrow> explain_loop P C (branch_loop P C g st (X\<lparr>branch_states := sts\<rparr>)))"
  by (subst explain_loop_rec) simp

lemma explain_loop_Cons:
  "branch_states X = st # sts \<Longrightarrow>
    explain_loop P C (Ok (g, X)) = explain_loop P C (branch_loop P C g st (X\<lparr>branch_states := sts\<rparr>))"
  by (subst explain_loop_rec) simp

lemma explain_loop_Nil: "branch_states X = [] \<Longrightarrow> explain_loop P C (Ok (g, X)) = Some (Ok (g, X))"
  by (subst explain_loop_rec) simp

lemma scan_rows:
  assumes "2 * n + 10 \<le> 100000" and C: "C (0, root) = Some m"
  shows "\<exists>g X. explain_loop (scan_program root n) C (Ok (MAX_TOTAL_INSTRUCTION_COUNT, start_explorer (scan_program root n)))
      = Some (Ok (g, X)) \<and> result_states X = [scan_row m n, scan_row m n]"
proof -
  let ?P = "scan_program root n"
  obtain g where g: "MAX_TOTAL_INSTRUCTION_COUNT = n + 6 + (2 + (n + 1 + Suc g))"
    using assms(1) le_Suc_ex [of "2 * n + 10" 100000] by (auto simp: MAX_TOTAL_INSTRUCTION_COUNT_def)
  have n: "n < 2 ^ 31" using assms(1) by simp
  obtain st where st: "branch_states (start_explorer ?P) = [st]" "mem st = start_memory" "visited st = replicate (n + 8) 0"
    by (simp add: start_explorer_def)
  let ?X = "start_explorer ?P\<lparr>branch_states := []\<rparr>"
  have e: "branch_states ?X = []" "visited_branch_state ?X = []" "result_states ?X = []" by (simp_all add: start_explorer_def)
  obtain X1 A B where 1: "branch_loop ?P C (n + 6 + (2 + (n + 1 + Suc g))) st ?X = Ok (2 + (n + 1 + Suc g), X1)"
    "branch_states X1 = [B, A]" "map fst (visited_branch_state X1) = [mem B, mem A]" "result_states X1 = [scan_row m n]"
    "mem A = scan_mem m (Some True) (n + 5) 0" "mem B = scan_mem m None (n + 4) n"
    "length (visited A) = n + 8" "length (visited B) = n + 8" "visited A ! (n + 5) \<le> 2" "\<forall>j < n + 8. visited B ! j \<le> 1"
    using scan_first [where C = C and root = root and m = m and st = st and X = ?X, OF n C st(2,3) e, of "2 + (n + 1 + Suc g)"]
    by (elim exE conjE) (rule that)
  obtain X2 D where 2: "branch_loop ?P C (2 + (n + 1 + Suc g)) B (X1\<lparr>branch_states := [A]\<rparr>) = Ok (n + 1 + Suc g, X2)"
    "branch_states X2 = [D, A]" "map fst (visited_branch_state X2) = mem D # map fst (visited_branch_state X1)"
    "result_states X2 = [scan_row m n]" "mem D = scan_mem m None 3 n" "length (visited D) = n + 8"
    "\<forall>j < n + 8. visited D ! j \<le> 2"
    using scan_next [of B m n "X1\<lparr>branch_states := [A]\<rparr>" root C "n + 1 + Suc g"] 1 by auto
  obtain s3 where 3: "branch_loop ?P C (n + 1 + Suc g) D (X2\<lparr>branch_states := [A]\<rparr>) =
      rbind (fork (\<lambda>b. Ok (next_i b)) s3 (X2\<lparr>branch_states := [A]\<rparr>))
        (\<lambda>X. Ok (Suc g, X\<lparr>result_states := scan_row m n # result_states X\<rparr>))" "mem s3 = scan_mem m None (n + 3) n"
    using scan_columns [OF n 2(5) _ 2(6), of root C "Suc g" "X2\<lparr>branch_states := [A]\<rparr>"] 2(7) by auto
  have p: "branch_parent (next_i (fst (new_branch s3 (X2\<lparr>branch_states := [A]\<rparr>)))) \<noteq> None"
    by simp
  have q: "mem (next_i (fst (new_branch s3 (X2\<lparr>branch_states := [A]\<rparr>)))) \<in> fst ` set (visited_branch_state (X2\<lparr>branch_states := [A]\<rparr>))"
    unfolding set_map [symmetric] using 2(3) 1(3,6) 3(2) by (simp add: next_i_def with_mem_def scan_mem_def)
  obtain X3 where 4: "fork (\<lambda>b. Ok (next_i b)) s3 (X2\<lparr>branch_states := [A]\<rparr>) = Ok X3" "branch_states X3 = [A]"
    "result_states X3 = [scan_row m n]"
    using fork_seen [where f = "\<lambda>b. Ok (next_i b)", OF refl p q] 2(4) by auto
  have 5: "branch_loop ?P C (Suc g) A Y = Ok (g, Y)" for Y
    by (subst branch_loop_step) (use 1(5,7,9) in \<open>simp_all add: scan_nth exec_arms\<close>)
  show ?thesis
    unfolding g explain_loop_Cons [OF st(1)] 1(1) explain_loop_Cons [OF 1(2)] 2(1) explain_loop_Cons [OF 2(2)] 3(1) 4(1)
    by (simp add: explain_loop_Cons [where st = A and sts = "[]"] 4 5 explain_loop_Nil)
qed

subsection \<open>The properties\<close>

text \<open>
  C13. The interpreter always returns: whatever the schema and whatever program \<^verbatim>\<open>EXPLAIN\<close> prints, the branches run
  out, because every instruction uses gas and forks at most three branches.
\<close>

theorem sqlite_explain_terminates: "\<exists>r. explain schema listing = Some r"
proof -
  have "\<exists>r. map_option f (explain_loop P C s) = Some r" for f :: "_ \<Rightarrow> (data_type list \<times> bool option list) result" and P C s
    using explain_loop_ends [of P C s] by auto
  then show ?thesis by (auto simp: explain_def split: result.split)
qed

lemma root_block_columns_ok:
  "\<forall>(_, _, colnum, _, _) \<in> set rows. 0 \<le> colnum \<Longrightarrow> \<exists>C'. root_block_columns rows C = Ok C'"
  by (induction rows C rule: root_block_columns.induct) (auto simp: im_simps)

text \<open>
  C30. No panic: if the columns of the schema have numbers that are not negative, and the program uses only
  32-bit operands and no negative register number, cursor number or count, then every index of the
  interpreter is in range, no addition overflows, and merging the rows succeeds; the result is a
  list of types with as many nullabilities, or an error about text that is not UTF-8.
\<close>

theorem sqlite_explain_no_panic:
  assumes "\<forall>(_, _, colnum, _, _) \<in> set rows. 0 \<le> colnum" and "\<forall>ins \<in> set P. operands_ok ins" and "length P < 2 ^ 31"
  shows "(\<exists>types nulls. explain (Ok rows) (Ok P) = Some (Ok (types, nulls)) \<and> length nulls = length types) \<or>
    (\<exists>e. explain (Ok rows) (Ok P) = Some (Err e))"
proof -
  obtain C where C: "root_block_columns rows Map.empty = Ok C" using root_block_columns_ok [OF assms(1)] by blast
  let ?s = "Ok (MAX_TOTAL_INSTRUCTION_COUNT, start_explorer P)"
  obtain r where r: "explain_loop P C ?s = Some r" using explain_loop_ends by blast
  have "run_ok P ?s"
    by (auto simp: run_ok_def start_explorer_def explorer_ok_def state_ok_def start_memory_def im_new_def
        MAX_TOTAL_INSTRUCTION_COUNT_def)
  from explain_loop_ok [OF assms(2,3) this r] have "r \<noteq> Panic" by (auto simp: run_ok_def)
  then consider g X where "r = Ok (g, X)" | e where "r = Err e" by (cases r) auto
  then show ?thesis
  proof cases
    case 1
    obtain acc where "merge_rows (result_states X) ([], []) = Ok acc" and m: "merged (result_states X) acc"
      using merge_rows_all by blast
    moreover have "length (snd acc) = length (fst acc)"
      using m by (metis linorder_neqE_nat merged_def less_irrefl)
    ultimately show ?thesis using 1 r C by (cases acc) (simp add: explain_def)
  next
    case 2
    then show ?thesis using r C by (simp add: explain_def)
  qed
qed

lemma join_all_eq: "join_all cs =
    (if \<exists>c \<in> set cs. ct_nullable c = Some True then Some True
     else if \<exists>c \<in> set cs. ct_nullable c = Some False then Some False else None)"
  by (induction cs) (auto simp: join_nullable_def split: option.splits)

text \<open>
  C31. What is reported about a column is the join of what the result rows say, for each of the columns that
  some row has and no other: its type is the first that is not null, going back from the last row found, and
  it is nullable when some row says that it is, not nullable when some row says that it is not and
  none that it is, and of unknown nullability when no row says anything.
\<close>

theorem sqlite_explain_joins_rows:
  assumes "root_block_columns rows Map.empty = Ok C"
    and "explain_loop P C (Ok (MAX_TOTAL_INSTRUCTION_COUNT, start_explorer P)) = Some (Ok (g, X))"
  shows "\<exists>types nulls. explain (Ok rows) (Ok P) = Some (Ok (types, nulls)) \<and> length nulls = length types \<and>
    (\<forall>i. (i < length types \<longleftrightarrow> (\<exists>r \<in> set (result_states X). i < length r)) \<and>
      (i < length types \<longrightarrow> types ! i = first_type (column_facts i (result_states X)) \<and>
        nulls ! i =
          (if \<exists>r \<in> set (result_states X). i < length r \<and> ct_nullable (r ! i) = Some True then Some True
           else if \<exists>r \<in> set (result_states X). i < length r \<and> ct_nullable (r ! i) = Some False then Some False
           else None)))"
proof -
  obtain outs nulls where a: "merge_rows (result_states X) ([], []) = Ok (outs, nulls)"
    and m: "merged (result_states X) (outs, nulls)"
    using merge_rows_all [of "result_states X"] by auto
  let ?types = "map (\<lambda>ty. case ty of Some t \<Rightarrow> t | None \<Rightarrow> TNull) outs"
  have l: "length nulls = length ?types" using m by (metis merged_def fst_conv snd_conv length_map linorder_neqE_nat less_irrefl)
  have "explain (Ok rows) (Ok P) = Some (Ok (?types, nulls))" using assms a by (simp add: explain_def)
  moreover have f: "column_facts i (result_states X) \<noteq> [] \<longleftrightarrow> (\<exists>r \<in> set (result_states X). i < length r)" for i
    by (auto simp: column_facts_def filter_empty_conv)
  moreover have e: "(\<exists>c \<in> set (column_facts i (result_states X)). ct_nullable c = n) \<longleftrightarrow>
      (\<exists>r \<in> set (result_states X). i < length r \<and> ct_nullable (r ! i) = n)" for i n
    by (auto simp: column_facts_def)
  moreover note join_all_eq [of "column_facts _ (result_states X)", unfolded e]
  ultimately show ?thesis using m l
    by (intro exI [of _ ?types] exI [of _ nulls]) (simp add: merged_def)
qed

lemma merged_unique:
  assumes "merged rs (out, nulls)" and "length nulls = length out"
    and "\<forall>i. (i < n \<longleftrightarrow> column_facts i rs \<noteq> [])"
  shows "out = map (\<lambda>i. Some (first_type (column_facts i rs))) [0..<n]" "nulls = map (\<lambda>i. join_all (column_facts i rs)) [0..<n]"
proof -
  have i: "i < length out \<longleftrightarrow> i < n" for i using assms(1,3) by (simp add: merged_def)
  then have l: "length out = n" by (metis linorder_neqE_nat less_irrefl)
  show "out = map (\<lambda>i. Some (first_type (column_facts i rs))) [0..<n]" "nulls = map (\<lambda>i. join_all (column_facts i rs)) [0..<n]"
    using assms l i by (auto simp: merged_def intro!: nth_equalityI)
qed

lemma merged_lengths: "merged rs acc \<Longrightarrow> length (snd acc) = length (fst acc)"
  by (metis linorder_neqE_nat merged_def less_irrefl)

text \<open>
  C14. For a scan of a table the inference is exact: the program that selects the \<open>n\<close> columns of the table at a
  root page reports for each the type and the nullability that the schema declares (a column the
  schema does not know is null with unknown nullability), as long as two passes over the columns fit in the gas.
\<close>

theorem sqlite_explain_scan:
  assumes "root_block_columns rows Map.empty = Ok C" and "C (0, root) = Some m" and "2 * n + 10 \<le> 100000"
  shows "explain (Ok rows) (Ok (scan_program root n)) =
    Some (Ok (map (\<lambda>i. ct_datatype (column_or_default m i)) [0..<n], map (\<lambda>i. ct_nullable (column_or_default m i)) [0..<n]))"
proof -
  let ?r = "scan_row m n"
  obtain g X where X: "explain_loop (scan_program root n) C
      (Ok (MAX_TOTAL_INSTRUCTION_COUNT, start_explorer (scan_program root n))) = Some (Ok (g, X))"
    "result_states X = [?r, ?r]"
    using scan_rows [where C = C and root = root and m = m, OF assms(3,2)] by blast
  obtain out nulls where a: "merge_rows [?r, ?r] ([], []) = Ok (out, nulls)" and m: "merged [?r, ?r] (out, nulls)"
    using merge_rows_all [of "[?r, ?r]"] by auto
  have f: "column_facts i [?r, ?r] = (if i < n then [column_or_default m i, column_or_default m i] else [])" for i
    by (simp add: column_facts_def scan_row_def)
  have j: "join_nullable x (join_nullable x None) = x" for x by (simp add: join_nullable_def split: option.split)
  from merged_lengths [OF m] have l: "length nulls = length out" by simp
  have "out = map (\<lambda>i. Some (first_type (column_facts i [?r, ?r]))) [0..<n]"
    "nulls = map (\<lambda>i. join_all (column_facts i [?r, ?r])) [0..<n]"
    by (rule merged_unique [OF m l], simp add: f)+
  then have "out = map (\<lambda>i. Some (ct_datatype (column_or_default m i))) [0..<n]"
    "nulls = map (\<lambda>i. ct_nullable (column_or_default m i)) [0..<n]"
    by (auto simp: f j intro!: map_cong)
  with X a assms(1) show ?thesis by (simp add: explain_def comp_def del: merge_rows.simps)
qed

definition demo_schema :: "(int \<times> int \<times> int \<times> bytes \<times> bool) list" where
  "demo_schema = [(0, 2, 0, ascii ''INTEGER'', True), (0, 2, 1, ascii ''VARCHAR(8)'', False)]"

lemma demo_types: "type_from_str (ascii ''INTEGER'') = Ok TInteger" "type_from_str (ascii ''VARCHAR(8)'') = Ok TText"
  by code_simp+

lemma demo_schema_columns:
  "root_block_columns demo_schema Map.empty =
    Ok ([(0, 2) \<mapsto> [Some (CSingle TInteger (Some False)), Some (CSingle TText (Some True))]])"
  by (simp add: demo_schema_def demo_types im_insert_def im_expand_def im_index_def im_new_def)

theorem sqlite_explain_scan_witness:
  "explain (Ok demo_schema) (Ok (scan_program 2 2)) = Some (Ok ([TInteger, TText], [Some False, Some True]))"
  using sqlite_explain_scan [OF demo_schema_columns, of 2 _ 2]
  by (simp add: column_or_default_def im_lookup_def ct_datatype_def ct_nullable_def upt_rec numeral_2_eq_2)

theorem sqlite_explain_no_panic_witness:
  "explain (Ok demo_schema) (Ok (scan_program 2 2)) \<noteq> Some Panic"
proof -
  have "\<forall>(_, _, colnum, _, _) \<in> set demo_schema. 0 \<le> colnum" by (simp add: demo_schema_def)
  moreover have "\<forall>ins \<in> set (scan_program 2 2). operands_ok ins"
    by (simp add: scan_program_def operands_ok_def i32_def upt_rec uses_p1_def uses_p2_def uses_p3_def rewind_ops_def binary_ops_def)
  moreover have "length (scan_program 2 2) < 2 ^ 31" by simp
  ultimately show ?thesis using sqlite_explain_no_panic [of demo_schema "scan_program 2 2"] by auto
qed

theorem sqlite_explain_joins_rows_witness:
  "\<exists>types nulls. explain (Ok demo_schema) (Ok (scan_program 2 2)) = Some (Ok (types, nulls)) \<and> length types = 2 \<and>
    nulls ! 0 = Some False \<and> nulls ! 1 = Some True"
proof -
  let ?m = "[Some (CSingle TInteger (Some False)), Some (CSingle TText (Some True))]"
  let ?C = "[(0, 2) \<mapsto> ?m] :: root_columns"
  obtain g X where X: "explain_loop (scan_program 2 2) ?C
      (Ok (MAX_TOTAL_INSTRUCTION_COUNT, start_explorer (scan_program 2 2))) = Some (Ok (g, X))"
    "result_states X = [scan_row ?m 2, scan_row ?m 2]"
    using scan_rows [where n = 2 and C = ?C and root = 2 and m = ?m] by auto
  have r: "scan_row [Some (CSingle TInteger (Some False)), Some (CSingle TText (Some True))] 2 =
      [CSingle TInteger (Some False), CSingle TText (Some True)]"
    by (simp add: scan_row_def column_or_default_def im_lookup_def upt_rec numeral_2_eq_2)
  obtain types nulls where t: "explain (Ok demo_schema) (Ok (scan_program 2 2)) = Some (Ok (types, nulls))"
    and f: "\<And>i. (i < length types \<longleftrightarrow> (\<exists>r \<in> set (result_states X). i < length r)) \<and>
      (i < length types \<longrightarrow> types ! i = first_type (column_facts i (result_states X)) \<and>
        nulls ! i =
          (if \<exists>r \<in> set (result_states X). i < length r \<and> ct_nullable (r ! i) = Some True then Some True
           else if \<exists>r \<in> set (result_states X). i < length r \<and> ct_nullable (r ! i) = Some False then Some False
           else None))"
    using sqlite_explain_joins_rows [OF demo_schema_columns X(1)] by (elim exE conjE) (rule that, assumption, blast)
  have "i < length types \<longleftrightarrow> i < Suc (Suc 0)" for i using f [of i] by (simp add: X(2) r)
  then have l: "length types = Suc (Suc 0)" by (metis linorder_neqE_nat less_irrefl)
  moreover have "nulls ! 0 = Some False" using f [of 0] l by (simp add: X(2) r ct_nullable_def)
  moreover have "nulls ! 1 = Some True" using f [of 1] l by (simp add: X(2) r ct_nullable_def)
  ultimately show ?thesis using t by simp
qed

text \<open>
  After \<^verbatim>\<open>Jump\<close> the interpreter also goes on with the next instruction: it forks a branch to each of the three targets
  and falls through, although the instruction always jumps.
\<close>

theorem sqlite_jump_falls_through:
  "\<exists>X'. exec_op P C (i, OP_JUMP, p1, p2, p3, p4) st X = Ok (Fall st, X')"
proof -
  have "\<exists>X'. fork_to p st Y = Ok X'" for p Y
    unfolding fork_to_def fork_alt by (simp add: branch_push_def)
  then show ?thesis unfolding exec_arms op_jump_def by (metis rbind.simps(1))
qed


end
