(* ===== verification/Spec2Isabelle.thy ===== *)
theory Spec2Isabelle
  imports MySql_Protocol MySql_Time Pool_Correct Pg_Arguments Pg_Connection Pg_Numeric Pg_Statements Sqlite_Worker Migrate_Drivers Explain_Correct
begin

text \<open>
  A verification of sqlx, the SQL toolkit for Rust.  The program is a core
  (\<^verbatim>\<open>sqlx-core\<close>: pool, transactions, migrations, buffers) and three drivers
  (\<^verbatim>\<open>sqlx-postgres\<close>, \<^verbatim>\<open>sqlx-mysql\<close>, \<^verbatim>\<open>sqlx-sqlite\<close>).  A user takes a connection from the pool; the
  connection turns a query and its arguments into messages of the server's protocol, writes them
  through the buffered socket and decodes the answers; transactions and migrations are built on
  the connections.  Paths below are relative to \<^verbatim>\<open>src/\<close>.

  \<^bold>\<open>Conventions.\<close>  A function that returns \<^verbatim>\<open>Result\<close> and may panic has the type \<open>'a result\<close> with
  \<open>Ok\<close>, \<open>Err\<close> and \<open>Panic\<close>; bytes are \<open>8 word\<close>s and integers keep their width.  A crate
  that is not part of the repository is a record of operations passed to the definitions that use
  it; a locale states what its documentation promises and is interpreted, so that the promises are
  known to be satisfiable.  An \<^verbatim>\<open>async fn\<close> is a state transformer that is also told after how many awaits
  it is dropped.

  \<^bold>\<open>Theories.\<close>
  \<^item> \<open>Prelude\<close>: results, errors, integers as bytes, UTF-8, decimal numbers.
  \<^item> \<open>Bytes_Buf\<close> (\<^verbatim>\<open>sqlx-core/src/io\<close>) and \<open>MySql_Buf\<close> (\<^verbatim>\<open>sqlx-mysql/src/io\<close>): readers and writers over the
    bytes crate, length-encoded integers and their round trip.
  \<^item> \<open>Buffered_Socket\<close> (\<^verbatim>\<open>sqlx-core/src/net/socket/buffered.rs\<close>): the write buffer with its cursors, flushing, and
    the restartable read; bytes leave in the order they were written, and a framed read does not
    depend on how the bytes were split into chunks.
  \<^item> \<open>Pool_Iface\<close>, \<open>Pool_Model\<close>, \<open>Pool_Safety\<close>, \<open>Pool_System\<close>, \<open>Pool_Correct\<close>
    (\<^verbatim>\<open>sqlx-core/src/pool\<close>, \<^verbatim>\<open>sync.rs\<close>): every handler as a task that moves between accesses to the shared
    state and can be cancelled at its awaits, for pools with and without a parent; child pools are tasks that
    take permits, give them back, and release an arbitrary number when dropped.  Conservation of size, permits
    and idle counter over every interleaving, refinement of a counter of connections, and the behaviour of
    acquiring, waiting, returning, connecting and closing.
  \<^item> \<open>Pg_Frontend\<close>, \<open>Pg_Arguments\<close>, \<open>Pg_Backend\<close> (\<^verbatim>\<open>sqlx-postgres/src/io\<close>, \<^verbatim>\<open>message\<close>, \<^verbatim>\<open>arguments.rs\<close>,
    \<^verbatim>\<open>connection/stream.rs\<close>): encoders of every frontend message, the argument buffer, decoders of every
    backend message, with round trips against independent readers of the protocol.
  \<^item> \<open>Tx_Core\<close>, \<open>Pg_Connection\<close>, \<open>Sqlite_Worker\<close> (\<^verbatim>\<open>sqlx-core/src/transaction.rs\<close>, the
    drivers' \<^verbatim>\<open>transaction.rs\<close>, \<^verbatim>\<open>connection/mod.rs\<close>, \<^verbatim>\<open>executor.rs\<close>, \<^verbatim>\<open>worker.rs\<close>): nested transactions implement a
    stack of snapshots, proved once in the locale \<open>tx_manager\<close>, and what dropping a future
    halfway leaves behind.
  \<^item> \<open>MySql_Packet\<close>, \<open>MySql_Protocol\<close> (\<^verbatim>\<open>sqlx-mysql/src/protocol\<close>, \<^verbatim>\<open>connection/stream.rs\<close>,
    \<^verbatim>\<open>arguments.rs\<close>, \<^verbatim>\<open>type_info.rs\<close>, \<^verbatim>\<open>types\<close>): packet framing, draining pending responses up to an error, columns, rows, commands, arguments, and
    the integer, boolean and byte types.
  \<^item> \<open>Migrator\<close>, \<open>Migrate_Drivers\<close> (\<^verbatim>\<open>sqlx-core/src/migrate\<close> and the drivers' \<^verbatim>\<open>migrate.rs\<close>): resolving a
    directory, running and undoing over the trait \<^verbatim>\<open>Migrate\<close>, the three impls over a database server seen by one
    session; a failing script is undone only where the driver runs it atomically.
  \<^item> \<open>Statement_Cache\<close>, \<open>Pg_Statements\<close> (\<^verbatim>\<open>sqlx-core/src/common/statement_cache.rs\<close>,
    \<^verbatim>\<open>sqlx-postgres/src/connection/executor.rs\<close>): preparing, caching, executing and closing statements against a server of the
    extended query protocol; the cache and the server's open statements agree for persistent
    queries, and the others leave theirs open.
  \<^item> \<open>Int_Map\<close>, \<open>Sqlite_Explain\<close>, \<open>Explain_Correct\<close> (\<^verbatim>\<open>sqlx-sqlite/src/connection/intmap.rs\<close>, \<^verbatim>\<open>explain.rs\<close>): the
    abstract interpreter of SQLite bytecode that infers column types; it terminates, does not panic
    on programs with sensible operands, and joins the rows it finds.
  \<^item> \<open>MySql_Time\<close> (\<^verbatim>\<open>sqlx-mysql/src/types/mysql_time.rs\<close>, the signed duration of \<^verbatim>\<open>chrono.rs\<close>): ranges, order, binary and
    text formats of \<^verbatim>\<open>TIME\<close>, and its conversions to durations.
  \<^item> \<open>Pg_Numeric\<close> (\<^verbatim>\<open>sqlx-postgres/src/types/numeric.rs\<close>, \<^verbatim>\<open>bigdecimal.rs\<close>, \<^verbatim>\<open>rust_decimal.rs\<close>): the base-10000 format and
    the exactness of the conversions.

  \<^bold>\<open>Bounds.\<close>  Loops that end because they consume their input are total functions.  Loops driven by the network
  recurse over what the network delivers; when it delivers nothing more they are waiting, and the
  theorems say that the deliveries of a conforming server are enough.  The interpreter of \<^verbatim>\<open>explain.rs\<close> has the
  source's own limits, 100000 units of gas and two revisits of an instruction; its loop over branches is a \<open>while_option\<close>
  that is proved to return.  Emptying the statement cache takes one step more than it has entries.

  \<^bold>\<open>Not modelled.\<close>  Procedural macros and derives (they run in the compiler), the command-line
  tool, TLS, sockets and the runtimes (wrappers of other crates), the \<^verbatim>\<open>Any\<close> driver (dynamic dispatch), and
  the C interface of SQLite (raw pointers into a library).  The other types of third-party crates (chrono,
  time, JSON, UUID, and \<^verbatim>\<open>Decimal\<close> when decoding) are conversions between foreign representations.  The catalog queries of
  \<^verbatim>\<open>describe.rs\<close>, the tables of built-in types and collations, option parsing, the listener, \<^verbatim>\<open>COPY\<close>, and the handshakes
  are left to future work.
\<close>

end
